(* ===== verification/Prelude.thy ===== *)
theory Prelude
  imports
    Main
    "HOL-Library.Word"
    "HOL-Library.List_Lexorder"
    "HOL-Library.Product_Lexorder"
    "HOL-Library.Char_ord"
    "HOL-Library.Multiset"
begin

text \<open>
  The shared base of the development: the types that stand for the Rust and library types every
  component uses (bytes, strings, instants, results), the integer operations of the standard
  library with their bounds written out, the string operations the sources call (trimming, decimal
  and hexadecimal formatting) with their inverses, and the facts on lists, sorting and results that
  the component theories share. The collections \<open>result_simps\<close> and \<open>fmt_simps\<close> carry them into the
  component proofs.
\<close>

named_theorems result_simps \<open>unfolding the propagation of errors\<close>
named_theorems fmt_simps \<open>inverses of the formatting functions\<close>

section \<open>Types\<close>

text \<open>
  A Rust \<open>String\<close> or \<open>&str\<close> is its sequence of UTF-8 bytes, one \<open>char\<close> for each byte. A
  \<open>DateTime<Utc>\<close> is its distance from the Unix epoch in nanoseconds, an \<open>Instant\<close> a reading of the
  monotonic clock in nanoseconds and a \<open>Duration\<close> a number of nanoseconds. A fallible function
  returns a sum, \<open>Inl\<close> carrying the error.
\<close>

type_synonym byte = "8 word"
type_synonym datetime = int
type_synonym instant = nat
type_synonym duration = nat
type_synonym ('e, 'a) result = "'e + 'a"

abbreviation Ok :: "'a \<Rightarrow> ('e, 'a) result" where
  "Ok \<equiv> Inr"

abbreviation Err :: "'e \<Rightarrow> ('e, 'a) result" where
  "Err \<equiv> Inl"

section \<open>Integers\<close>

definition U64_MAX :: nat where
  "U64_MAX = 2 ^ 64 - 1"

definition USIZE_MAX :: nat where
  "USIZE_MAX = 2 ^ 64 - 1"

definition I64_MAX :: int where
  "I64_MAX = 2 ^ 63 - 1"

definition I64_MIN :: int where
  "I64_MIN = - (2 ^ 63)"

text \<open>An \<open>Instant\<close> holds its seconds in an \<open>i64\<close>.\<close>

definition INSTANT_MAX :: nat where
  "INSTANT_MAX = 2 ^ 63 * 10 ^ 9 - 1"

definition checked_add_u64 :: "nat \<Rightarrow> nat \<Rightarrow> nat option" where
  "checked_add_u64 a b = (if a + b \<le> U64_MAX then Some (a + b) else None)"

definition saturating_add :: "nat \<Rightarrow> nat \<Rightarrow> nat" where
  "saturating_add a b = min (a + b) USIZE_MAX"

definition saturating_sub :: "nat \<Rightarrow> nat \<Rightarrow> nat" where
  "saturating_sub a b = a - b"

definition instant_checked_add :: "instant \<Rightarrow> duration \<Rightarrow> instant option" where
  "instant_checked_add t d = (if t + d \<le> INSTANT_MAX then Some (t + d) else None)"

lemma checked_add_u64_Some [simp]:
  "checked_add_u64 a b = Some c \<longleftrightarrow> c = a + b \<and> a + b \<le> U64_MAX"
  by (auto simp: checked_add_u64_def)

lemma instant_checked_add_Some [simp]:
  "instant_checked_add t d = Some u \<longleftrightarrow> u = t + d \<and> t + d \<le> INSTANT_MAX"
  by (auto simp: instant_checked_add_def)

lemma saturating_add_ge: "a \<le> USIZE_MAX \<Longrightarrow> a \<le> saturating_add a b"
  by (simp add: saturating_add_def)

lemma div_bounds: "(0 :: int) < n \<Longrightarrow> n * (k div n) \<le> k \<and> k < n * (k div n) + n"
  using mult_div_mod_eq [of n k] pos_mod_bound [of n k] pos_mod_sign [of n k] by linarith

section \<open>Results\<close>

text \<open>The \<open>?\<close> operator on a \<open>Result\<close>.\<close>

definition and_then :: "('e, 'a) result \<Rightarrow> ('a \<Rightarrow> ('e, 'b) result) \<Rightarrow> ('e, 'b) result" where
  "and_then r f = (case r of Inl e \<Rightarrow> Inl e | Inr a \<Rightarrow> f a)"

lemma and_then_simps [simp, result_simps]:
  "and_then (Inl e) f = Inl e"
  "and_then (Inr a) f = f a"
  by (simp_all add: and_then_def)

lemma and_then_eq_Inr [result_simps]:
  "and_then r f = Inr b \<longleftrightarrow> (\<exists>a. r = Inr a \<and> f a = Inr b)"
  by (cases r) auto

definition map_err :: "('e \<Rightarrow> 'f) \<Rightarrow> ('e, 'a) result \<Rightarrow> ('f, 'a) result" where
  "map_err f r = (case r of Inl e \<Rightarrow> Inl (f e) | Inr a \<Rightarrow> Inr a)"

lemma map_err_simps [simp]:
  "map_err f (Inl e) = Inl (f e)"
  "map_err f (Inr a) = Inr a"
  "map_err f r = Inr a \<longleftrightarrow> r = Inr a"
  by (simp_all add: map_err_def split: sum.split)

lemmas map_err_Ok = map_err_simps(3)

definition ok_or :: "'e \<Rightarrow> 'a option \<Rightarrow> ('e, 'a) result" where
  "ok_or e x = (case x of None \<Rightarrow> Inl e | Some a \<Rightarrow> Inr a)"

lemma ok_or_simps [simp]:
  "ok_or e None = Inl e"
  "ok_or e (Some a) = Inr a"
  "ok_or e x = Inr a \<longleftrightarrow> x = Some a"
  by (simp_all add: ok_or_def split: option.split)

text \<open>Collecting an iterator of results stops at the first error.\<close>

fun collect_results :: "('e, 'a) result list \<Rightarrow> ('e, 'a list) result" where
  "collect_results [] = Inr []"
| "collect_results (r # rs) = and_then r (\<lambda>a. and_then (collect_results rs) (\<lambda>as. Inr (a # as)))"

lemma collect_results_Inr:
  "collect_results rs = Inr as \<longleftrightarrow> rs = map Inr as"
proof (induction rs arbitrary: as)
  case Nil
  then show ?case by auto
next
  case (Cons r rs)
  then show ?case by (cases r; cases as) (auto simp: and_then_eq_Inr)
qed

section \<open>Strings\<close>

subsection \<open>White space\<close>

text \<open>
  The characters with the Unicode property White_Space, which \<open>str::trim\<close> removes, as UTF-8 byte
  sequences. UTF-8 is self-synchronising, so a valid string starts (ends) with such a character
  exactly when its bytes start (end) with that sequence.
\<close>

definition white_space :: "string list" where
  "white_space = map (map char_of)
     ([[9], [10], [11], [12], [13], [32], [194, 133], [194, 160], [225, 154, 128]]
      @ map (\<lambda>n. [226, 128, n]) ([128..<139] @ [168, 169, 175])
      @ [[226, 129, 159], [227, 128, 128 :: nat]])"

definition strip_one :: "string list \<Rightarrow> string \<Rightarrow> string option" where
  "strip_one ws s = (case filter (\<lambda>w. w \<noteq> [] \<and> take (length w) s = w) ws of
     [] \<Rightarrow> None | w # _ \<Rightarrow> Some (drop (length w) s))"

lemma strip_one_shorter: "strip_one ws s = Some t \<Longrightarrow> length t < length s"
proof -
  assume "strip_one ws s = Some t"
  then obtain w vs where w: "filter (\<lambda>w. w \<noteq> [] \<and> take (length w) s = w) ws = w # vs"
    and t: "t = drop (length w) s"
    by (auto simp: strip_one_def split: list.splits)
  from w have "w \<in> set (filter (\<lambda>w. w \<noteq> [] \<and> take (length w) s = w) ws)" by simp
  then have "w \<noteq> []" and "take (length w) s = w" by auto
  then show ?thesis using t by (cases s) (auto simp: length_greater_0_conv)
qed

function strip_all :: "string list \<Rightarrow> string \<Rightarrow> string" where
  "strip_all ws s = (case strip_one ws s of None \<Rightarrow> s | Some t \<Rightarrow> strip_all ws t)"
  by pat_completeness auto
termination
  by (relation "measure (\<lambda>(ws, s). length s)") (auto dest: strip_one_shorter)

declare strip_all.simps [simp del]

definition trim_start :: "string \<Rightarrow> string" where
  "trim_start s = strip_all white_space s"

definition trim_end :: "string \<Rightarrow> string" where
  "trim_end s = rev (strip_all (map rev white_space) (rev s))"

definition trim :: "string \<Rightarrow> string" where
  "trim s = trim_end (trim_start s)"

lemma strip_all_idle: "strip_one ws s = None \<Longrightarrow> strip_all ws s = s"
  by (simp add: strip_all.simps)

lemma strip_one_Nil [simp]: "strip_one ws [] = None"
proof -
  have "filter (\<lambda>w. w \<noteq> [] \<and> take (length w) [] = w) ws = []"
    by (auto simp: filter_empty_conv)
  then show ?thesis by (simp add: strip_one_def)
qed

lemma trim_Nil [simp]: "trim [] = []"
  by (simp add: trim_def trim_start_def trim_end_def strip_all_idle)

text \<open>A string whose first and last bytes are printable ASCII is its own trimming.\<close>

definition ws_byte :: "char \<Rightarrow> bool" where
  "ws_byte c \<longleftrightarrow> c \<in> set (concat white_space)"

lemma not_ws_ascii: "32 < (of_char c :: nat) \<Longrightarrow> of_char c < (128 :: nat) \<Longrightarrow> \<not> ws_byte c"
  by (auto simp: ws_byte_def white_space_def)

lemma strip_one_first:
  assumes "\<forall>w \<in> set ws. c \<notin> set w"
  shows "strip_one ws (c # s) = None"
proof -
  have "w = [] \<or> take (length w) (c # s) \<noteq> w" if "w \<in> set ws" for w
    using assms that by (cases w) auto
  then have "filter (\<lambda>w. w \<noteq> [] \<and> take (length w) (c # s) = w) ws = []"
    by (auto simp: filter_empty_conv)
  then show ?thesis by (simp add: strip_one_def)
qed

lemma trim_plain:
  assumes "s \<noteq> []" and "\<not> ws_byte (hd s)" and "\<not> ws_byte (last s)"
  shows "trim s = s"
proof -
  from assms(1) obtain c cs where s: "s = c # cs" by (cases s) auto
  have "\<forall>w \<in> set white_space. c \<notin> set w"
    using assms(2) s by (auto simp: ws_byte_def)
  then have 1: "trim_start s = s"
    using s by (simp add: trim_start_def strip_all_idle strip_one_first)
  from assms(1) obtain d ds where r: "rev s = d # ds" by (cases "rev s") auto
  have "last s = d" using r by (metis last_rev list.sel(1) rev_rev_ident assms(1) hd_rev)
  then have "\<forall>w \<in> set (map rev white_space). d \<notin> set w"
    using assms(3) by (auto simp: ws_byte_def)
  then have "strip_all (map rev white_space) (rev s) = rev s"
    using r by (simp add: strip_all_idle strip_one_first)
  then show ?thesis using 1 by (simp add: trim_def trim_end_def)
qed

subsection \<open>Decimal numbers\<close>

definition digit :: "nat \<Rightarrow> char" where
  "digit d = char_of (48 + d)"

fun dec :: "nat \<Rightarrow> string" where
  "dec n = (if n < 10 then [digit n] else dec (n div 10) @ [digit (n mod 10)])"

declare dec.simps [simp del]

text \<open>The format specifiers \<open>{:04}\<close> and \<open>{:02}\<close>: zero padding after the sign.\<close>

definition pad :: "nat \<Rightarrow> string \<Rightarrow> string" where
  "pad w s = replicate (w - length s) (CHR ''0'') @ s"

definition fmt_nat :: "nat \<Rightarrow> nat \<Rightarrow> string" where
  "fmt_nat w n = pad w (dec n)"

definition fmt_int :: "nat \<Rightarrow> int \<Rightarrow> string" where
  "fmt_int w n = (if n < 0 then CHR ''-'' # pad (w - 1) (dec (nat (- n))) else pad w (dec (nat n)))"

definition undec :: "string \<Rightarrow> nat" where
  "undec s = foldl (\<lambda>a c. a * 10 + (of_char c - 48)) 0 s"

lemma digit_value [simp]: "d < 10 \<Longrightarrow> of_char (digit d) = (48 + d :: nat)"
  by (simp add: digit_def)

lemma undec_snoc: "undec (s @ [c]) = undec s * 10 + (of_char c - 48)"
  by (simp add: undec_def)

lemma undec_dec [fmt_simps]: "undec (dec n) = n"
proof (induction n rule: dec.induct)
  case (1 n)
  show ?case
  proof (cases "n < 10")
    case True
    then show ?thesis by (subst dec.simps) (simp add: undec_def)
  next
    case False
    then have "undec (dec n) = undec (dec (n div 10)) * 10 + n mod 10"
      by (subst dec.simps) (simp add: undec_snoc)
    with False "1.IH" show ?thesis by simp
  qed
qed

lemma undec_zeros: "undec (replicate k (CHR ''0'') @ s) = undec s"
proof -
  have "foldl (\<lambda>a c. a * 10 + (of_char c - 48)) 0 (replicate k (CHR ''0'')) = (0 :: nat)"
    by (induction k) auto
  then show ?thesis by (simp add: undec_def)
qed

lemma undec_pad [fmt_simps]: "undec (pad w (dec n)) = n"
  by (simp add: pad_def undec_zeros undec_dec)

lemma undec_fmt_nat [fmt_simps]: "undec (fmt_nat w n) = n"
  by (simp add: fmt_nat_def undec_pad)

lemma dec_inject [simp]: "dec m = dec n \<longleftrightarrow> m = n"
  by (metis undec_dec)

lemma fmt_nat_inject [simp]: "fmt_nat w m = fmt_nat w n \<longleftrightarrow> m = n"
  by (metis undec_fmt_nat)

lemma set_dec: "set (dec n) \<subseteq> digit ` {..<10}"
proof (induction n rule: dec.induct)
  case (1 n)
  show ?case
  proof (cases "n < 10")
    case True
    then show ?thesis by (subst dec.simps) auto
  next
    case False
    then show ?thesis using 1 by (subst dec.simps) auto
  qed
qed

lemma zero_digit: "CHR ''0'' = digit 0"
  by (rule sym) (simp add: digit_def char_of_eq_iff)

lemma set_pad_dec: "set (pad w (dec n)) \<subseteq> digit ` {..<10}"
  using set_dec [of n] by (auto simp: pad_def zero_digit)

lemma digit_range: "d < 10 \<Longrightarrow> digit d = c \<Longrightarrow> 48 \<le> (of_char c :: nat) \<and> of_char c < (58 :: nat)"
  using digit_value [of d] by auto

lemma digits_only: "c \<in> set (pad w (dec n)) \<Longrightarrow> 48 \<le> (of_char c :: nat) \<and> of_char c < (58 :: nat)"
  using set_pad_dec [of w n] by (auto dest!: subsetD)

lemma minus_not_digit: "CHR ''-'' \<notin> set (pad w (dec n))"
  using digits_only [of "CHR ''-''" w n] by auto

lemma dec_nonempty [simp]: "dec n \<noteq> []"
  by (subst dec.simps) simp

lemma pad_nonempty [simp]: "pad w (dec n) \<noteq> []"
  by (simp add: pad_def)

lemma fmt_int_inject [simp]: "fmt_int w m = fmt_int w n \<longleftrightarrow> m = n"
proof
  assume eq: "fmt_int w m = fmt_int w n"
  have neq: "CHR ''-'' # xs \<noteq> pad w (dec k)" for xs k
    using minus_not_digit [of w k] by (metis list.set_intros(1))
  show "m = n"
  proof (cases "m < 0"; cases "n < 0")
    assume "m < 0" "n < 0"
    with eq have "pad (w - 1) (dec (nat (- m))) = pad (w - 1) (dec (nat (- n)))"
      by (simp add: fmt_int_def)
    then have "nat (- m) = nat (- n)" by (metis undec_pad)
    with \<open>m < 0\<close> \<open>n < 0\<close> show ?thesis by simp
  next
    assume "\<not> m < 0" "\<not> n < 0"
    with eq have "pad w (dec (nat m)) = pad w (dec (nat n))" by (simp add: fmt_int_def)
    then have "nat m = nat n" by (metis undec_pad)
    with \<open>\<not> m < 0\<close> \<open>\<not> n < 0\<close> show ?thesis by simp
  next
    assume "m < 0" "\<not> n < 0"
    with eq neq show ?thesis by (simp add: fmt_int_def)
  next
    assume "\<not> m < 0" "n < 0"
    with eq neq show ?thesis by (metis fmt_int_def)
  qed
qed simp

text \<open>A number below 100 takes exactly two characters with \<open>{:02}\<close>.\<close>

lemma length_fmt_nat_2: "n < 100 \<Longrightarrow> length (fmt_nat 2 n) = 2"
  by (auto simp: fmt_nat_def pad_def dec.simps [of n] dec.simps [of "n div 10"])

subsection \<open>Hexadecimal bytes\<close>

definition hex_digit :: "byte \<Rightarrow> char" where
  "hex_digit d = (if d < 10 then char_of (48 + unat d) else char_of (87 + unat d))"

text \<open>\<open>{byte:02x}\<close>: two lower-case hexadecimal digits.\<close>

definition hex_byte :: "byte \<Rightarrow> string" where
  "hex_byte b = [hex_digit (drop_bit 4 b), hex_digit (and b 15)]"

definition hex :: "byte list \<Rightarrow> string" where
  "hex bs = concat (map hex_byte bs)"

definition unhex_digit :: "char \<Rightarrow> byte" where
  "unhex_digit c = (if (of_char c :: nat) < 58 then of_nat (of_char c - 48) else of_nat (of_char c - 87))"

fun unhex :: "string \<Rightarrow> byte list" where
  "unhex (a # b # s) = (push_bit 4 (unhex_digit a) + unhex_digit b) # unhex s"
| "unhex s = []"

lemma nibble_cases: "(d :: byte) < 16 \<Longrightarrow> unhex_digit (hex_digit d) = d"
proof -
  assume d: "d < 16"
  then have "unat d < 16" by (simp add: word_less_nat_alt)
  then show ?thesis
    by (auto simp: hex_digit_def unhex_digit_def word_less_nat_alt)
qed

lemma drop_bit_4_less: "drop_bit 4 (b :: byte) < 16"
proof -
  have "unat b < 256" using unsigned_less [of b] by simp
  then have "drop_bit 4 (unat b) < 16" by (simp add: drop_bit_eq_div)
  then have "unat (drop_bit 4 b) < 16" by (simp only: unat_drop_bit_eq)
  then show ?thesis by (simp add: word_less_nat_alt)
qed

lemma and_15_take_bit: "and (b :: byte) 15 = take_bit 4 b"
  by (simp add: take_bit_eq_mask mask_eq_exp_minus_1)

lemma and_15_less: "and (b :: byte) 15 < 16"
proof -
  have "take_bit 4 (unat b) < 16" by (simp add: take_bit_eq_mod)
  then have "unat (take_bit 4 b) < 16" by (simp only: unsigned_take_bit_eq)
  then show ?thesis by (simp add: and_15_take_bit word_less_nat_alt)
qed

lemma unhex_hex_byte: "unhex (hex_byte b @ s) = b # unhex s"
  using bits_ident [of 4 b]
  by (simp add: hex_byte_def nibble_cases drop_bit_4_less and_15_less flip: and_15_take_bit)

lemma unhex_hex [fmt_simps]: "unhex (hex bs) = bs"
  by (induction bs) (simp_all add: hex_def unhex_hex_byte)

lemma hex_inject [simp]: "hex as = hex bs \<longleftrightarrow> as = bs"
  by (metis unhex_hex)

definition is_hex_char :: "char \<Rightarrow> bool" where
  "is_hex_char c \<longleftrightarrow> (let n = of_char c :: nat in (48 \<le> n \<and> n < 58) \<or> (97 \<le> n \<and> n < 103))"

lemma hex_digit_chars: "(d :: byte) < 16 \<Longrightarrow> is_hex_char (hex_digit d)"
  by (auto simp: is_hex_char_def hex_digit_def word_less_nat_alt)

lemma set_hex: "c \<in> set (hex bs) \<Longrightarrow> is_hex_char c"
  using hex_digit_chars [OF drop_bit_4_less] hex_digit_chars [OF and_15_less]
  by (auto simp: hex_def hex_byte_def)

lemma slash_not_hex: "CHR ''/'' \<notin> set (hex bs)"
  using set_hex [of "CHR ''/''" bs] by (auto simp: is_hex_char_def)

lemma length_hex: "length (hex bs) = 2 * length bs"
  by (induction bs) (simp_all add: hex_def hex_byte_def)

subsection \<open>Joining with a separator\<close>

text \<open>Two strings joined by a separator that the second (the first) part does not contain.\<close>

lemma append_sep_inject_right:
  assumes "c \<notin> set y" and "c \<notin> set y'" and "x @ c # y = x' @ c # y'"
  shows "x = x' \<and> y = y'"
  using assms
proof (induction x arbitrary: x')
  case Nil
  then show ?case by (cases x') auto
next
  case (Cons a x)
  then show ?case by (cases x') auto
qed

lemma append_sep_inject_left:
  assumes "c \<notin> set x" and "c \<notin> set x'" and "x @ c # y = x' @ c # y'"
  shows "x = x' \<and> y = y'"
  using assms
proof (induction x arbitrary: x')
  case Nil
  then show ?case by (cases x') auto
next
  case (Cons a x)
  then show ?case by (cases x') auto
qed

section \<open>Bytes of a string\<close>

definition as_bytes :: "string \<Rightarrow> byte list" where
  "as_bytes s = map of_char s"

lemma of_char_byte_inject: "(of_char c :: byte) = of_char d \<Longrightarrow> c = d"
proof -
  assume "(of_char c :: byte) = of_char d"
  then have "unat (of_nat (of_char c) :: byte) = unat (of_nat (of_char d) :: byte)"
    by (simp only: of_nat_of_char)
  then have "(of_char c :: nat) = of_char d"
    by (simp add: unsigned_of_nat take_bit_nat_eq_self)
  then show ?thesis by simp
qed

lemma as_bytes_inject [simp]: "as_bytes s = as_bytes t \<longleftrightarrow> s = t"
proof
  assume "as_bytes s = as_bytes t"
  moreover have "inj (of_char :: char \<Rightarrow> byte)" by (rule injI) (rule of_char_byte_inject)
  ultimately show "s = t" by (simp add: as_bytes_def inj_map_eq_map)
qed simp

section \<open>Sorting\<close>

text \<open>
  \<open>slice::sort_by\<close> is a stable sort, as \<^const>\<open>sort_key\<close> is. A list sorted by a key that is
  injective on its elements is determined by its multiset.
\<close>

abbreviation sorted_by :: "('a \<Rightarrow> 'k :: linorder) \<Rightarrow> 'a list \<Rightarrow> bool" where
  "sorted_by f xs \<equiv> sorted (map f xs)"

lemma sort_key_unique:
  assumes "sorted_by f xs" and "sorted_by f ys" and "mset xs = mset ys" and "inj_on f (set xs)"
  shows "xs = ys"
proof -
  have "map f xs = map f ys"
    using assms(1,2,3) by (metis mset_map properties_for_sort sort_key_simps(1) sorted_sort_id)
  moreover have "set xs = set ys" using assms(3) by (metis set_mset_mset)
  ultimately show ?thesis using assms(4) by (metis inj_on_map_eq_map sup.idem)
qed

lemma sort_key_sorted: "sorted_by f xs \<Longrightarrow> sort_key f xs = xs"
  by (rule properties_for_sort_key) simp_all

lemma sorted_by_filter: "sorted_by f xs \<Longrightarrow> sorted_by f (filter P xs)"
  by (rule sorted_filter)

lemma sorted_by_take: "sorted_by f xs \<Longrightarrow> sorted_by f (take n xs)"
  by (simp add: take_map [symmetric] sorted_wrt_take)

lemma sort_key_filter: "sort_key f (filter P xs) = filter P (sort_key f xs)"
  by (simp add: filter_sort)

end
