(* ===== verification/Calendar.thy ===== *)
theory Calendar
  imports Prelude
begin

text \<open>
  The interface to the calendar library. The sources compute bucket boundaries with the \<open>chrono\<close>
  crate; the record \<open>chrono\<close> names the calls they make and the locale \<open>utc_calendar\<close> what its
  documentation promises of them for \<open>DateTime<Utc>\<close>. The model takes the record as an argument, and
  the facts about buckets hold for every calendar with these laws. Theory \<open>Gregorian\<close> shows that the
  proleptic Gregorian calendar over the library's range of years has them.
\<close>

section \<open>The calls of the calendar library\<close>

text \<open>
  \<open>c_year\<close>, \<open>c_month\<close> and \<open>c_day\<close> are the \<open>Datelike\<close> accessors, \<open>c_with_ymd y m d\<close> is
  \<open>Utc.with_ymd_and_hms(y, m, d, 0, 0, 0).single()\<close>, \<open>c_add_months\<close> and \<open>c_add_days\<close> are
  \<open>checked_add_months\<close> and \<open>checked_add_days\<close>, \<open>c_sub_nanos t n\<close> is
  \<open>t.checked_sub_signed(Duration::nanoseconds(n))\<close>, and \<open>c_rep\<close> holds of the instants that a
  \<open>DateTime<Utc>\<close> represents.
\<close>

record chrono =
  c_year :: "datetime \<Rightarrow> int"
  c_month :: "datetime \<Rightarrow> nat"
  c_day :: "datetime \<Rightarrow> nat"
  c_with_ymd :: "int \<Rightarrow> nat \<Rightarrow> nat \<Rightarrow> datetime option"
  c_add_months :: "datetime \<Rightarrow> nat \<Rightarrow> datetime option"
  c_add_days :: "datetime \<Rightarrow> nat \<Rightarrow> datetime option"
  c_sub_nanos :: "datetime \<Rightarrow> nat \<Rightarrow> datetime option"
  c_rep :: "datetime \<Rightarrow> bool"

definition DAY :: int where
  "DAY = 86400 * 1000000000"

lemma DAY_pos [simp]: "0 < DAY"
  by (simp add: DAY_def)

abbreviation c_date :: "chrono \<Rightarrow> datetime \<Rightarrow> int \<times> nat \<times> nat" where
  "c_date C t \<equiv> (c_year C t, c_month C t, c_day C t)"

locale utc_calendar =
  fixes C :: chrono
  assumes rep_convex: "\<lbrakk> c_rep C a; c_rep C b; a \<le> t; t \<le> b \<rbrakk> \<Longrightarrow> c_rep C t"
    and ymd_date: "c_with_ymd C y m d = Some t \<Longrightarrow> c_rep C t \<and> c_date C t = (y, m, d)"
    and ymd_aligned: "c_with_ymd C y m d = Some t \<Longrightarrow> t mod DAY = 0"
    and midnight: "c_rep C t \<Longrightarrow>
      \<exists>s. c_with_ymd C (c_year C t) (c_month C t) (c_day C t) = Some s \<and> s \<le> t \<and> t < s + DAY"
    and date_mono: "\<lbrakk> c_rep C t; c_rep C u; t \<le> u \<rbrakk> \<Longrightarrow> c_date C t \<le> c_date C u"
    and date_range: "c_rep C t \<Longrightarrow>
      1 \<le> c_month C t \<and> c_month C t \<le> 12 \<and> 1 \<le> c_day C t \<and> c_day C t \<le> 31"
    and first_of_month: "c_rep C t \<Longrightarrow> \<exists>s. c_with_ymd C (c_year C t) (c_month C t) 1 = Some s"
    and first_of_year: "c_rep C t \<Longrightarrow> \<exists>s. c_with_ymd C (c_year C t) 1 1 = Some s"
    and ymd_between: "\<lbrakk> c_rep C t; c_rep C u; c_date C t \<le> (y, m, 1); (y, m, 1) \<le> c_date C u; 1 \<le> m; m \<le> 12 \<rbrakk>
      \<Longrightarrow> \<exists>s. c_with_ymd C y m 1 = Some s"
    and add_months_first: "c_with_ymd C y m 1 = Some s \<Longrightarrow>
      c_add_months C s k = c_with_ymd C (y + int ((m - 1 + k) div 12)) ((m - 1 + k) mod 12 + 1) 1"
    and add_days: "c_rep C t \<Longrightarrow>
      c_add_days C t k = (if c_rep C (t + int k * DAY) then Some (t + int k * DAY) else None)"
    and sub_nanos: "c_rep C t \<Longrightarrow>
      c_sub_nanos C t k = (if c_rep C (t - int k) then Some (t - int k) else None)"
begin

text \<open>The start of a date is below an instant exactly when the date is.\<close>

lemma ymd_le_iff:
  assumes s: "c_with_ymd C y m d = Some s" and t: "c_rep C t"
  shows "s \<le> t \<longleftrightarrow> (y, m, d) \<le> c_date C t"
proof
  assume "s \<le> t"
  then show "(y, m, d) \<le> c_date C t"
    using date_mono ymd_date [OF s] t by metis
next
  assume le: "(y, m, d) \<le> c_date C t"
  show "s \<le> t"
  proof (rule ccontr)
    assume "\<not> s \<le> t"
    then have "c_date C t \<le> (y, m, d)"
      using date_mono ymd_date [OF s] t by (metis linear)
    with le have "c_date C t = (y, m, d)" by (rule antisym [rotated])
    with midnight [OF t] s have "s \<le> t" by auto
    with \<open>\<not> s \<le> t\<close> show False by simp
  qed
qed

lemma ymd_rep: "c_with_ymd C y m d = Some s \<Longrightarrow> c_rep C s"
  using ymd_date by blast

lemma midnight_div:
  assumes "c_rep C t"
  shows "c_with_ymd C (c_year C t) (c_month C t) (c_day C t) = Some (t div DAY * DAY)"
proof -
  from midnight [OF assms] obtain s
    where s: "c_with_ymd C (c_year C t) (c_month C t) (c_day C t) = Some s" "s \<le> t" "t < s + DAY"
    by blast
  from ymd_aligned [OF s(1)] obtain q where q: "s = q * DAY"
    by (metis mod_0_imp_dvd dvd_def mult.commute)
  have "t div DAY = q"
  proof (rule int_div_pos_eq)
    show "t = DAY * q + (t - s)" by (simp add: q)
  qed (use s in auto)
  then show ?thesis using s(1) q by simp
qed

end

end
