(* ===== verification/Gregorian.thy ===== *)
theory Gregorian
  imports Calendar
begin

text \<open>
  The proleptic Gregorian calendar over the years -262143 to 262142, the range the calendar library
  documents for \<open>DateTime<Utc>\<close>: day numbers, their inverse, and the interpretation of
  \<open>utc_calendar\<close> that makes every calendar hypothesis of the development satisfiable.
\<close>

section \<open>Years\<close>

definition leap :: "int \<Rightarrow> bool" where
  "leap y \<longleftrightarrow> 4 dvd y \<and> (\<not> 100 dvd y \<or> 400 dvd y)"

definition days_before_year :: "int \<Rightarrow> int" where
  "days_before_year y = 365 * (y - 1) + (y - 1) div 4 - (y - 1) div 100 + (y - 1) div 400"

definition year_of :: "int \<Rightarrow> int" where
  "year_of n = (let e = 400 * n div 146097 + 1 in
     if n < days_before_year e then e - 1 else if days_before_year (e + 1) \<le> n then e + 1 else e)"

lemma div_pred:
  assumes "(0 :: int) < n"
  shows "y div n = (y - 1) div n + (if n dvd y then 1 else 0)"
proof (cases "n dvd y")
  case True
  then obtain q where "y = n * q" by (rule dvdE)
  moreover have "(n * q - 1) div n = q - 1"
    by (rule int_div_pos_eq [of _ _ _ "n - 1"]) (use assms in \<open>auto simp: algebra_simps\<close>)
  ultimately show ?thesis using assms True by simp
next
  case False
  then have r: "0 < y mod n" "y mod n < n"
    using pos_mod_sign [OF assms, of y] pos_mod_bound [OF assms, of y]
    by (auto simp: dvd_eq_mod_eq_0 le_less)
  have "(y - 1) div n = y div n"
    by (rule int_div_pos_eq [of _ _ _ "y mod n - 1"]) (use r in \<open>auto simp: algebra_simps\<close>)
  then show ?thesis using False by simp
qed

lemma days_before_year_step:
  "days_before_year (y + 1) = days_before_year y + 365 + (if leap y then 1 else 0)"
proof -
  obtain p q r where pqr: "p \<longleftrightarrow> 4 dvd y" "q \<longleftrightarrow> 100 dvd y" "r \<longleftrightarrow> 400 dvd y" by blast
  have imp: "r \<Longrightarrow> q" "q \<Longrightarrow> p"
    unfolding pqr using dvd_trans [of 100 400 y] dvd_trans [of 4 100 y] by simp_all
  obtain a b c where abc: "a = (y - 1) div 4" "b = (y - 1) div 100" "c = (y - 1) div 400" by blast
  have step: "y div 4 = a + (if p then 1 else 0)" "y div 100 = b + (if q then 1 else 0)"
    "y div 400 = c + (if r then 1 else 0)"
    unfolding abc pqr by (rule div_pred, simp)+
  have y: "y + 1 - 1 = y" by simp
  show ?thesis
    unfolding days_before_year_def leap_def abc [symmetric] pqr [symmetric] y step
    using imp by (cases p; cases q; cases r) simp_all
qed

lemma days_before_year_mono: "y \<le> z \<Longrightarrow> days_before_year y \<le> days_before_year z"
proof (induction z rule: int_ge_induct)
  case (step i)
  then show ?case using days_before_year_step [of i] by simp
qed simp

lemma year_bracket:
  assumes "days_before_year y \<le> n" and "n < days_before_year (y + 1)"
    and "days_before_year z \<le> n" and "n < days_before_year (z + 1)"
  shows "y = z"
proof (rule ccontr)
  assume "y \<noteq> z"
  then consider "y + 1 \<le> z" | "z + 1 \<le> y" by linarith
  then show False
    using days_before_year_mono assms by cases fastforce+
qed

lemma days_before_year_bounds:
  "400 * days_before_year y < 146097 * (y - 1) + 400"
  "146097 * (y - 1) - 800 < 400 * days_before_year y"
proof -
  obtain a b c where abc: "a = (y - 1) div 4" "b = (y - 1) div 100" "c = (y - 1) div 400" by blast
  have "4 * a \<le> y - 1" "y - 1 < 4 * a + 4" "100 * b \<le> y - 1" "y - 1 < 100 * b + 100"
    "400 * c \<le> y - 1" "y - 1 < 400 * c + 400"
    unfolding abc using div_bounds [of 4 "y - 1"] div_bounds [of 100 "y - 1"] div_bounds [of 400 "y - 1"]
    by simp_all
  note b = this
  show "400 * days_before_year y < 146097 * (y - 1) + 400"
    unfolding days_before_year_def abc [symmetric] using b by simp
  show "146097 * (y - 1) - 800 < 400 * days_before_year y"
    unfolding days_before_year_def abc [symmetric] using b by simp
qed

lemma year_of_correct:
  "days_before_year (year_of n) \<le> n \<and> n < days_before_year (year_of n + 1)"
proof -
  obtain k where k: "k = 400 * n div 146097" by blast
  then have "146097 * k \<le> 400 * n" "400 * n < 146097 * k + 146097"
    using div_bounds [of 146097 "400 * n"] by simp_all
  then have "days_before_year k \<le> n \<and> n < days_before_year (k + 3)"
    using days_before_year_bounds [of k] days_before_year_bounds [of "k + 3"] by simp
  moreover have "k + 1 - 1 = k" "k + 1 + 1 = k + 2" "k + 2 + 1 = k + 3" by simp_all
  ultimately show ?thesis
    unfolding year_of_def k [symmetric] Let_def by (simp only: split: if_split) auto
qed

lemma year_of_unique:
  "days_before_year y \<le> n \<Longrightarrow> n < days_before_year (y + 1) \<Longrightarrow> year_of n = y"
  using year_bracket year_of_correct by blast

section \<open>Months\<close>

definition days_before_month :: "bool \<Rightarrow> nat \<Rightarrow> int" where
  "days_before_month l m = (if m \<le> 1 then 0 else if m = 2 then 31
     else [59, 90, 120, 151, 181, 212, 243, 273, 304, 334, 365] ! min (m - 3) 10 + (if l then 1 else 0))"

definition month_of :: "bool \<Rightarrow> int \<Rightarrow> nat" where
  "month_of l n =
     (if n < days_before_month l 2 then 1 else if n < days_before_month l 3 then 2
      else if n < days_before_month l 4 then 3 else if n < days_before_month l 5 then 4
      else if n < days_before_month l 6 then 5 else if n < days_before_month l 7 then 6
      else if n < days_before_month l 8 then 7 else if n < days_before_month l 9 then 8
      else if n < days_before_month l 10 then 9 else if n < days_before_month l 11 then 10
      else if n < days_before_month l 12 then 11 else 12)"

lemma days_before_month_values:
  "days_before_month l 1 = 0" "days_before_month l (Suc 0) = 0" "days_before_month l 2 = 31"
  "days_before_month l (Suc (Suc 0)) = 31"
  "days_before_month l 3 = 59 + (if l then 1 else 0)"
  "days_before_month l 4 = 90 + (if l then 1 else 0)"
  "days_before_month l 5 = 120 + (if l then 1 else 0)"
  "days_before_month l 6 = 151 + (if l then 1 else 0)"
  "days_before_month l 7 = 181 + (if l then 1 else 0)"
  "days_before_month l 8 = 212 + (if l then 1 else 0)"
  "days_before_month l 9 = 243 + (if l then 1 else 0)"
  "days_before_month l 10 = 273 + (if l then 1 else 0)"
  "days_before_month l 11 = 304 + (if l then 1 else 0)"
  "days_before_month l 12 = 334 + (if l then 1 else 0)"
  "days_before_month l 13 = 365 + (if l then 1 else 0)"
  by (simp_all add: days_before_month_def)

lemma month_cases:
  assumes "1 \<le> m" and "m \<le> (12 :: nat)"
  obtains "m = 1" | "m = 2" | "m = 3" | "m = 4" | "m = 5" | "m = 6" | "m = 7" | "m = 8" | "m = 9"
    | "m = 10" | "m = 11" | "m = 12"
proof -
  have "m \<in> set [1..<13]" using assms by simp
  then show thesis using that by (auto simp: upt_rec)
qed

lemma month_of_correct:
  assumes "0 \<le> n" and "n < 365 + (if l then 1 else 0)"
  shows "1 \<le> month_of l n \<and> month_of l n \<le> 12 \<and> days_before_month l (month_of l n) \<le> n
    \<and> n < days_before_month l (month_of l n + 1)"
  using assms by (auto simp: month_of_def days_before_month_values)

lemma month_of_unique:
  assumes "1 \<le> m" "m \<le> 12" and "days_before_month l m \<le> n" and "n < days_before_month l (m + 1)"
  shows "month_of l n = m"
  using assms(1,2)
  by (cases rule: month_cases)
    (use assms(3,4) in \<open>auto simp: month_of_def days_before_month_values split: if_splits\<close>)

lemma month_length:
  assumes "1 \<le> m" "m \<le> 12"
  shows "1 \<le> days_before_month l (m + 1) - days_before_month l m
    \<and> days_before_month l (m + 1) - days_before_month l m \<le> 31
    \<and> 0 \<le> days_before_month l m \<and> days_before_month l (m + 1) \<le> 365 + (if l then 1 else 0)"
  using assms by (cases rule: month_cases) (auto simp: days_before_month_values)

lemma days_before_month_mono:
  assumes "1 \<le> m" "m \<le> 12" and "m \<le> m'" "m' \<le> 12"
  shows "days_before_month l m \<le> days_before_month l m'"
  using assms(3,4)
proof (induction m' rule: dec_induct)
  case (step k)
  then show ?case using month_length [of k l] assms(1) by simp
qed simp

section \<open>Dates\<close>

definition valid_date :: "int \<Rightarrow> nat \<Rightarrow> nat \<Rightarrow> bool" where
  "valid_date y m d \<longleftrightarrow> 1 \<le> m \<and> m \<le> 12 \<and> 1 \<le> d
     \<and> int d \<le> days_before_month (leap y) (m + 1) - days_before_month (leap y) m"

definition day_number :: "int \<Rightarrow> nat \<Rightarrow> nat \<Rightarrow> int" where
  "day_number y m d = days_before_year y + days_before_month (leap y) m + int d - 1"

definition date_of :: "int \<Rightarrow> int \<times> nat \<times> nat" where
  "date_of n = (let y = year_of n; r = n - days_before_year y; m = month_of (leap y) r
     in (y, m, nat (r - days_before_month (leap y) m) + 1))"

lemma date_of_day_number:
  assumes v: "valid_date y m d"
  shows "date_of (day_number y m d) = (y, m, d)"
proof -
  have m: "1 \<le> m" "m \<le> 12" and d: "1 \<le> d"
    "int d \<le> days_before_month (leap y) (m + 1) - days_before_month (leap y) m"
    using v by (auto simp: valid_date_def)
  note len = month_length [OF m, of "leap y"]
  have y: "year_of (day_number y m d) = y"
    by (rule year_of_unique) (use len d days_before_year_step [of y] in \<open>auto simp: day_number_def\<close>)
  have "month_of (leap y) (days_before_month (leap y) m + int d - 1) = m"
    by (rule month_of_unique) (use m d in auto)
  then show ?thesis
    using d unfolding date_of_def y Let_def by (simp add: day_number_def algebra_simps)
qed

lemma day_number_date_of:
  assumes "date_of n = (y, m, d)"
  shows "valid_date y m d \<and> day_number y m d = n"
proof -
  define r where "r = n - days_before_year (year_of n)"
  have r: "0 \<le> r" "r < 365 + (if leap (year_of n) then 1 else 0)"
    using year_of_correct [of n] days_before_year_step [of "year_of n"] by (auto simp: r_def)
  have y: "y = year_of n" and m: "m = month_of (leap y) r"
    and d: "d = nat (r - days_before_month (leap y) m) + 1"
    using assms by (auto simp: date_of_def Let_def r_def)
  show ?thesis
    using month_of_correct [OF r] unfolding y [symmetric] m [symmetric]
    by (auto simp: valid_date_def day_number_def d r_def y [symmetric])
qed

lemma day_number_mono:
  assumes "valid_date y m d" and "valid_date y' m' d'" and "(y, m, d) < (y', m', d')"
  shows "day_number y m d < day_number y' m' d'"
proof -
  have v: "1 \<le> m" "m \<le> 12" "1 \<le> d" "1 \<le> m'" "m' \<le> 12" "1 \<le> d'"
    "int d \<le> days_before_month (leap y) (m + 1) - days_before_month (leap y) m"
    using assms by (auto simp: valid_date_def)
  note len = month_length [OF v(1,2), of "leap y"] month_length [OF v(4,5), of "leap y'"]
  consider "y < y'" | "y = y'" "m < m'" | "y = y'" "m = m'" "d < d'"
    using assms(3) by (auto simp: le_less)
  then show ?thesis
  proof cases
    case 1
    then have "days_before_year (y + 1) \<le> days_before_year y'"
      by (intro days_before_year_mono) simp
    then show ?thesis
      using len v days_before_year_step [of y] by (auto simp: day_number_def)
  next
    case 2
    have "days_before_month (leap y) (m + 1) \<le> days_before_month (leap y) m'"
      by (rule days_before_month_mono) (use 2 v in auto)
    then show ?thesis
      using 2 v by (auto simp: day_number_def)
  next
    case 3
    then show ?thesis by (simp add: day_number_def)
  qed
qed

lemma date_of_mono: "n \<le> n' \<Longrightarrow> date_of n \<le> date_of n'"
proof (rule ccontr)
  assume le: "n \<le> n'" and "\<not> date_of n \<le> date_of n'"
  then have lt: "date_of n' < date_of n" by simp
  obtain y m d y' m' d' where d: "date_of n = (y, m, d)" "date_of n' = (y', m', d')"
    by (metis surj_pair)
  have "day_number y' m' d' < day_number y m d"
    using day_number_date_of [OF d(1)] day_number_date_of [OF d(2)] lt
    by (intro day_number_mono) (auto simp: d)
  then show False
    using day_number_date_of [OF d(1)] day_number_date_of [OF d(2)] le by simp
qed

section \<open>The calendar\<close>

text \<open>Instants are nanoseconds since 1 January 1970, day number 719162.\<close>

definition EPOCH :: int where
  "EPOCH = 719162"

definition in_years :: "int \<Rightarrow> bool" where
  "in_years y \<longleftrightarrow> - 262143 \<le> y \<and> y \<le> 262142"

definition greg_date :: "datetime \<Rightarrow> int \<times> nat \<times> nat" where
  "greg_date t = date_of (t div DAY + EPOCH)"

definition greg_rep :: "datetime \<Rightarrow> bool" where
  "greg_rep t \<longleftrightarrow> in_years (fst (greg_date t))"

definition greg_start :: "int \<Rightarrow> nat \<Rightarrow> nat \<Rightarrow> datetime" where
  "greg_start y m d = (day_number y m d - EPOCH) * DAY"

definition greg_with_ymd :: "int \<Rightarrow> nat \<Rightarrow> nat \<Rightarrow> datetime option" where
  "greg_with_ymd y m d = (if valid_date y m d \<and> in_years y then Some (greg_start y m d) else None)"

definition greg_add_months :: "datetime \<Rightarrow> nat \<Rightarrow> datetime option" where
  "greg_add_months t k =
     (case greg_date t of (y, m, d) \<Rightarrow>
        let y' = y + int ((m - 1 + k) div 12); m' = (m - 1 + k) mod 12 + 1;
            len = nat (days_before_month (leap y') (m' + 1) - days_before_month (leap y') m')
        in if in_years y' then Some (greg_start y' m' (min d len) + t mod DAY) else None)"

definition gregorian :: chrono where
  "gregorian = \<lparr>
     c_year = \<lambda>t. fst (greg_date t),
     c_month = \<lambda>t. fst (snd (greg_date t)),
     c_day = \<lambda>t. snd (snd (greg_date t)),
     c_with_ymd = greg_with_ymd,
     c_add_months = greg_add_months,
     c_add_days = \<lambda>t k. if greg_rep (t + int k * DAY) then Some (t + int k * DAY) else None,
     c_sub_nanos = \<lambda>t k. if greg_rep (t - int k) then Some (t - int k) else None,
     c_rep = greg_rep \<rparr>"

lemma greg_date_start:
  assumes "valid_date y m d" and "0 \<le> r" and "r < DAY"
  shows "greg_date (greg_start y m d + r) = (y, m, d)"
proof -
  have "(greg_start y m d + r) div DAY = day_number y m d - EPOCH"
    using assms(2,3) by (intro int_div_pos_eq [of _ _ _ r]) (auto simp: greg_start_def)
  then show ?thesis
    using date_of_day_number [OF assms(1)] by (simp add: greg_date_def)
qed

lemmas greg_date_start_0 = greg_date_start [where r = 0, simplified]

lemma greg_date_mono: "t \<le> u \<Longrightarrow> greg_date t \<le> greg_date u"
  unfolding greg_date_def by (intro date_of_mono add_right_mono zdiv_mono1) auto

lemma greg_midnight:
  assumes "greg_date t = (y, m, d)"
  shows "valid_date y m d \<and> greg_start y m d \<le> t \<and> t < greg_start y m d + DAY"
proof -
  have v: "valid_date y m d" and n: "day_number y m d = t div DAY + EPOCH"
    using day_number_date_of assms by (auto simp: greg_date_def)
  have "greg_start y m d = DAY * (t div DAY)"
    by (simp add: greg_start_def n)
  then show ?thesis
    using v div_bounds [OF DAY_pos, of t] by simp
qed

lemma valid_first: "1 \<le> m \<Longrightarrow> m \<le> 12 \<Longrightarrow> valid_date y m 1"
  using month_length [of m "leap y"] by (auto simp: valid_date_def)

lemma valid_date_range: "valid_date y m d \<Longrightarrow> 1 \<le> m \<and> m \<le> 12 \<and> 1 \<le> d \<and> d \<le> 31"
  using month_length [of m "leap y"] by (auto simp: valid_date_def)

lemma greg_add_months_first:
  assumes "greg_with_ymd y m 1 = Some s"
  shows "greg_add_months s k
    = greg_with_ymd (y + int ((m - 1 + k) div 12)) ((m - 1 + k) mod 12 + 1) 1"
proof -
  have v: "valid_date y m 1" and s: "s = greg_start y m 1"
    using assms by (auto simp: greg_with_ymd_def split: if_splits)
  let ?y = "y + int ((m - 1 + k) div 12)" and ?m = "(m - 1 + k) mod 12 + 1"
  have m: "1 \<le> ?m" "?m \<le> 12" by auto
  have "1 \<le> L \<Longrightarrow> min 1 (nat L) = 1" for L by simp
  with month_length [OF m, of "leap ?y"]
  have "min 1 (nat (days_before_month (leap ?y) (?m + 1) - days_before_month (leap ?y) ?m)) = 1"
    by blast
  moreover have "s mod DAY = 0" by (simp add: s greg_start_def)
  ultimately show ?thesis
    using greg_date_start_0 [OF v] valid_first [OF m, of ?y]
    by (simp add: greg_add_months_def greg_with_ymd_def s)
qed

interpretation greg: utc_calendar gregorian
proof
  fix a b t u y m d s k
  show "\<lbrakk> c_rep gregorian a; c_rep gregorian b; a \<le> t; t \<le> b \<rbrakk> \<Longrightarrow> c_rep gregorian t"
    using greg_date_mono [of a t] greg_date_mono [of t b]
    by (auto simp: gregorian_def greg_rep_def in_years_def less_eq_prod_def)
  show "c_with_ymd gregorian y m d = Some t \<Longrightarrow>
      c_rep gregorian t \<and> c_date gregorian t = (y, m, d)"
    by (auto simp: gregorian_def greg_with_ymd_def greg_rep_def greg_date_start_0 split: if_splits)
  show "c_with_ymd gregorian y m d = Some t \<Longrightarrow> t mod DAY = 0"
    by (auto simp: gregorian_def greg_with_ymd_def greg_start_def split: if_splits)
  show "\<lbrakk> c_rep gregorian t; c_rep gregorian u; t \<le> u \<rbrakk> \<Longrightarrow> c_date gregorian t \<le> c_date gregorian u"
    using greg_date_mono [of t u] by (simp add: gregorian_def)
  show "\<lbrakk> c_rep gregorian t; c_rep gregorian u; c_date gregorian t \<le> (y, m, 1);
      (y, m, 1) \<le> c_date gregorian u; 1 \<le> m; m \<le> 12 \<rbrakk> \<Longrightarrow> \<exists>s. c_with_ymd gregorian y m 1 = Some s"
    using valid_first [of m y]
    by (auto simp: gregorian_def greg_rep_def greg_with_ymd_def in_years_def less_eq_prod_def)
  show "c_with_ymd gregorian y m 1 = Some s \<Longrightarrow> c_add_months gregorian s k
      = c_with_ymd gregorian (y + int ((m - 1 + k) div 12)) ((m - 1 + k) mod 12 + 1) 1"
    by (simp add: gregorian_def greg_add_months_first)
next
  fix t k
  assume rep: "c_rep gregorian t"
  obtain y m d where ymd: "greg_date t = (y, m, d)" by (metis surj_pair)
  have y: "in_years y" and v: "valid_date y m d"
    using rep greg_midnight [OF ymd] ymd by (auto simp: gregorian_def greg_rep_def)
  show "\<exists>s. c_with_ymd gregorian (c_year gregorian t) (c_month gregorian t) (c_day gregorian t)
      = Some s \<and> s \<le> t \<and> t < s + DAY"
    using y greg_midnight [OF ymd] by (simp add: gregorian_def greg_with_ymd_def ymd)
  show "1 \<le> c_month gregorian t \<and> c_month gregorian t \<le> 12
      \<and> 1 \<le> c_day gregorian t \<and> c_day gregorian t \<le> 31"
    using valid_date_range [OF v] by (simp add: gregorian_def ymd)
  show "\<exists>s. c_with_ymd gregorian (c_year gregorian t) (c_month gregorian t) 1 = Some s"
    using y valid_first valid_date_range [OF v] by (simp add: gregorian_def greg_with_ymd_def ymd)
  show "\<exists>s. c_with_ymd gregorian (c_year gregorian t) 1 1 = Some s"
    using y valid_first [of 1 y] by (simp add: gregorian_def greg_with_ymd_def ymd)
  show "c_add_days gregorian t k = (if c_rep gregorian (t + int k * DAY) then Some (t + int k * DAY) else None)"
    by (simp add: gregorian_def)
  show "c_sub_nanos gregorian t k = (if c_rep gregorian (t - int k) then Some (t - int k) else None)"
    by (simp add: gregorian_def)
qed

text \<open>Evaluation at the start of a date, for concrete instants.\<close>

lemma gregorian_start:
  assumes "valid_date y m d" and "in_years y" and "0 \<le> r" and "r < DAY"
  shows "c_rep gregorian (greg_start y m d + r)" "c_year gregorian (greg_start y m d + r) = y"
    "c_month gregorian (greg_start y m d + r) = m" "c_day gregorian (greg_start y m d + r) = d"
    "c_with_ymd gregorian y m d = Some (greg_start y m d)"
  using assms by (simp_all add: gregorian_def greg_rep_def greg_date_start greg_with_ymd_def)

end
