(* ===== verification/Model.thy ===== *)
theory Model
  imports Gregorian "HOL-Library.Monad_Syntax"
begin

text \<open>
  The domain model, \<open>src/src/domain/model.rs\<close>: the opaque keys with their derived orders, the
  calendar strategies with the bucket key and the bucket bounds they derive from an event time,
  buckets, records, cursors and time ranges. A call that panics (\<open>expect\<close>) is \<open>None\<close>. The lemmas
  show that the buckets of a strategy partition the representable instants, that a bucket key
  identifies its bucket, and that the end of a bucket is the start of the next one.
\<close>

section \<open>Keys\<close>

datatype PartitionKey = PartitionKey (pk_bytes: "byte list")
datatype SortKey = SortKey (sk_bytes: "byte list")
datatype TableId = TableId (tid_str: string)
datatype BucketKey = BucketKey (bk_str: string)

text \<open>The derived orders compare the single field.\<close>

instantiation PartitionKey :: linorder
begin

definition less_eq_PartitionKey :: "PartitionKey \<Rightarrow> PartitionKey \<Rightarrow> bool" where
  "less_eq_PartitionKey a b \<longleftrightarrow> pk_bytes a \<le> pk_bytes b"

definition less_PartitionKey :: "PartitionKey \<Rightarrow> PartitionKey \<Rightarrow> bool" where
  "less_PartitionKey a b \<longleftrightarrow> pk_bytes a < pk_bytes b"

instance
  by standard (auto simp: less_eq_PartitionKey_def less_PartitionKey_def PartitionKey.expand)

end

instantiation SortKey :: linorder
begin

definition less_eq_SortKey :: "SortKey \<Rightarrow> SortKey \<Rightarrow> bool" where
  "less_eq_SortKey a b \<longleftrightarrow> sk_bytes a \<le> sk_bytes b"

definition less_SortKey :: "SortKey \<Rightarrow> SortKey \<Rightarrow> bool" where
  "less_SortKey a b \<longleftrightarrow> sk_bytes a < sk_bytes b"

instance
  by standard (auto simp: less_eq_SortKey_def less_SortKey_def SortKey.expand)

end

instantiation TableId :: linorder
begin

definition less_eq_TableId :: "TableId \<Rightarrow> TableId \<Rightarrow> bool" where
  "less_eq_TableId a b \<longleftrightarrow> tid_str a \<le> tid_str b"

definition less_TableId :: "TableId \<Rightarrow> TableId \<Rightarrow> bool" where
  "less_TableId a b \<longleftrightarrow> tid_str a < tid_str b"

instance
  by standard (auto simp: less_eq_TableId_def less_TableId_def TableId.expand)

end

instantiation BucketKey :: linorder
begin

definition less_eq_BucketKey :: "BucketKey \<Rightarrow> BucketKey \<Rightarrow> bool" where
  "less_eq_BucketKey a b \<longleftrightarrow> bk_str a \<le> bk_str b"

definition less_BucketKey :: "BucketKey \<Rightarrow> BucketKey \<Rightarrow> bool" where
  "less_BucketKey a b \<longleftrightarrow> bk_str a < bk_str b"

instance
  by standard (auto simp: less_eq_BucketKey_def less_BucketKey_def BucketKey.expand)

end

datatype BucketKeyError = EmptyBucketKey

definition BucketKey_new :: "string \<Rightarrow> (BucketKeyError, BucketKey) result" where
  "BucketKey_new value = (if trim value = [] then Err EmptyBucketKey else Ok (BucketKey value))"

section \<open>Calendar strategies\<close>

datatype BucketStrategy = CalendarYearUtc | CalendarMonthUtc | CalendarDayUtc

fun strategy_rank :: "BucketStrategy \<Rightarrow> nat" where
  "strategy_rank CalendarYearUtc = 0"
| "strategy_rank CalendarMonthUtc = 1"
| "strategy_rank CalendarDayUtc = 2"

lemma strategy_rank_inject: "strategy_rank a = strategy_rank b \<longleftrightarrow> a = b"
  by (cases a; cases b) auto

instantiation BucketStrategy :: linorder
begin

definition less_eq_BucketStrategy :: "BucketStrategy \<Rightarrow> BucketStrategy \<Rightarrow> bool" where
  "less_eq_BucketStrategy a b \<longleftrightarrow> strategy_rank a \<le> strategy_rank b"

definition less_BucketStrategy :: "BucketStrategy \<Rightarrow> BucketStrategy \<Rightarrow> bool" where
  "less_BucketStrategy a b \<longleftrightarrow> strategy_rank a < strategy_rank b"

instance
  by standard (auto simp: less_eq_BucketStrategy_def less_BucketStrategy_def strategy_rank_inject)

end

fun strategy_as_str :: "BucketStrategy \<Rightarrow> string" where
  "strategy_as_str CalendarYearUtc = ''calendar_year_utc''"
| "strategy_as_str CalendarMonthUtc = ''calendar_month_utc''"
| "strategy_as_str CalendarDayUtc = ''calendar_day_utc''"

datatype BucketStrategyParseError = BucketStrategyParseError string

definition strategy_from_str :: "string \<Rightarrow> (BucketStrategyParseError, BucketStrategy) result" where
  "strategy_from_str value =
     (if value = ''calendar_year_utc'' then Ok CalendarYearUtc
      else if value = ''calendar_month_utc'' then Ok CalendarMonthUtc
      else if value = ''calendar_day_utc'' then Ok CalendarDayUtc
      else Err (BucketStrategyParseError value))"

definition bucket_key_text :: "chrono \<Rightarrow> BucketStrategy \<Rightarrow> datetime \<Rightarrow> string" where
  "bucket_key_text C s event_time =
     (case s of
        CalendarYearUtc \<Rightarrow> ''year:'' @ fmt_int 4 (c_year C event_time)
      | CalendarMonthUtc \<Rightarrow>
          ''month:'' @ fmt_int 4 (c_year C event_time) @ ''-'' @ fmt_nat 2 (c_month C event_time)
      | CalendarDayUtc \<Rightarrow>
          ''day:'' @ fmt_int 4 (c_year C event_time) @ ''-'' @ fmt_nat 2 (c_month C event_time)
          @ ''-'' @ fmt_nat 2 (c_day C event_time))"

definition bucket_key :: "chrono \<Rightarrow> BucketStrategy \<Rightarrow> datetime \<Rightarrow> BucketKey option" where
  "bucket_key C s event_time =
     (case BucketKey_new (bucket_key_text C s event_time) of Inl _ \<Rightarrow> None | Inr k \<Rightarrow> Some k)"

definition utc_date :: "chrono \<Rightarrow> int \<Rightarrow> nat \<Rightarrow> nat \<Rightarrow> datetime option" where
  "utc_date C year month day = c_with_ymd C year month day"

definition bucket_bounds ::
    "chrono \<Rightarrow> BucketStrategy \<Rightarrow> datetime \<Rightarrow> (datetime \<times> datetime) option" where
  "bucket_bounds C s event_time = do {
     start \<leftarrow> (case s of
         CalendarYearUtc \<Rightarrow> utc_date C (c_year C event_time) 1 1
       | CalendarMonthUtc \<Rightarrow> utc_date C (c_year C event_time) (c_month C event_time) 1
       | CalendarDayUtc \<Rightarrow>
           utc_date C (c_year C event_time) (c_month C event_time) (c_day C event_time));
     end \<leftarrow> (case s of
         CalendarYearUtc \<Rightarrow> c_add_months C start 12
       | CalendarMonthUtc \<Rightarrow> c_add_months C start 1
       | CalendarDayUtc \<Rightarrow> c_add_days C start 1);
     Some (start, end)
   }"

section \<open>Buckets, records and ranges\<close>

record BucketId =
  bid_table_id :: TableId
  bid_partition_key :: PartitionKey
  bid_strategy :: BucketStrategy
  bid_key :: BucketKey
  bid_start :: datetime
  bid_end :: datetime

text \<open>The derived order on buckets compares the fields in the order of their declaration.\<close>

definition bid_ord ::
    "BucketId \<Rightarrow> TableId \<times> PartitionKey \<times> BucketStrategy \<times> BucketKey \<times> datetime \<times> datetime" where
  "bid_ord b = (bid_table_id b, bid_partition_key b, bid_strategy b, bid_key b, bid_start b, bid_end b)"

definition for_event_time_with_strategy ::
    "chrono \<Rightarrow> TableId \<Rightarrow> PartitionKey \<Rightarrow> BucketStrategy \<Rightarrow> datetime \<Rightarrow> BucketId option" where
  "for_event_time_with_strategy C table_id partition_key s event_time = do {
     (start, end) \<leftarrow> bucket_bounds C s event_time;
     key \<leftarrow> bucket_key C s event_time;
     Some \<lparr> bid_table_id = table_id, bid_partition_key = partition_key, bid_strategy = s,
            bid_key = key, bid_start = start, bid_end = end \<rparr>
   }"

definition bid_contains :: "BucketId \<Rightarrow> datetime \<Rightarrow> bool" where
  "bid_contains b event_time \<longleftrightarrow> bid_start b \<le> event_time \<and> event_time < bid_end b"

record Record =
  rec_partition_key :: PartitionKey
  rec_event_time :: datetime
  rec_sort_key :: SortKey
  rec_value :: "byte list"

record Cursor =
  cur_event_time :: datetime
  cur_sort_key :: SortKey

definition cursor_of :: "Record \<Rightarrow> Cursor" where
  "cursor_of r = \<lparr> cur_event_time = rec_event_time r, cur_sort_key = rec_sort_key r \<rparr>"

record TimeRange =
  tr_start :: datetime
  tr_end :: datetime

definition tr_contains :: "TimeRange \<Rightarrow> datetime \<Rightarrow> bool" where
  "tr_contains rng timestamp \<longleftrightarrow> tr_start rng \<le> timestamp \<and> timestamp < tr_end rng"

text \<open>The declared order of records and of continuation tokens.\<close>

definition ckey :: "Record \<Rightarrow> datetime \<times> SortKey" where
  "ckey r = (rec_event_time r, rec_sort_key r)"

definition cursor_key :: "Cursor \<Rightarrow> datetime \<times> SortKey" where
  "cursor_key c = (cur_event_time c, cur_sort_key c)"

lemma cursor_key_of [simp]: "cursor_key (cursor_of r) = ckey r"
  by (simp add: cursor_key_def cursor_of_def ckey_def)

lemma bid_ord_inject: "bid_ord a = bid_ord b \<longleftrightarrow> a = b"
  by (cases a; cases b) (auto simp: bid_ord_def)

section \<open>The calendar period of an instant\<close>

text \<open>
  The abstract view of the strategies: an instant belongs to the period its date is truncated to,
  and a bucket is the set of representable instants of one period.
\<close>

definition period :: "chrono \<Rightarrow> BucketStrategy \<Rightarrow> datetime \<Rightarrow> int \<times> nat \<times> nat" where
  "period C s t =
     (case s of
        CalendarYearUtc \<Rightarrow> (c_year C t, 1, 1)
      | CalendarMonthUtc \<Rightarrow> (c_year C t, c_month C t, 1)
      | CalendarDayUtc \<Rightarrow> (c_year C t, c_month C t, c_day C t))"

lemma bucket_bounds_period:
  "period C s t = period C s u \<Longrightarrow> bucket_bounds C s t = bucket_bounds C s u"
  by (cases s) (simp_all add: period_def bucket_bounds_def)

lemma bucket_key_text_period:
  "period C s t = period C s u \<Longrightarrow> bucket_key_text C s t = bucket_key_text C s u"
  by (cases s) (simp_all add: period_def bucket_key_text_def)

lemma last_pad_dec: "\<not> ws_byte (last (pad w (dec n)))"
  using digits_only [of "last (pad w (dec n))" w n] not_ws_ascii by auto

lemma last_fmt_int: "\<not> ws_byte (last (fmt_int w n))" "fmt_int w n \<noteq> []"
  using last_pad_dec by (auto simp: fmt_int_def)

lemma last_fmt_nat: "\<not> ws_byte (last (fmt_nat w n))" "fmt_nat w n \<noteq> []"
  using last_pad_dec by (auto simp: fmt_nat_def)

text \<open>The \<open>expect\<close> on the constructed key never fails.\<close>

lemma bucket_key_eq: "bucket_key C s t = Some (BucketKey (bucket_key_text C s t))"
proof -
  let ?k = "bucket_key_text C s t"
  have "?k \<noteq> []" and "\<not> ws_byte (hd ?k)" and "\<not> ws_byte (last ?k)"
    by (cases s; simp add: bucket_key_text_def last_fmt_int last_fmt_nat not_ws_ascii)+
  then have "trim ?k = ?k" by (rule trim_plain)
  with \<open>?k \<noteq> []\<close> show ?thesis by (simp add: bucket_key_def BucketKey_new_def)
qed

text \<open>A key determines the strategy and the period: the three prefixes differ, and inside one
  strategy the padded fields have a fixed width from the right.\<close>

lemma bucket_key_text_strategy:
  "bucket_key_text C s t = bucket_key_text C s' u \<Longrightarrow> s = s'"
  by (cases s; cases s') (auto simp: bucket_key_text_def)

lemma fmt_nat_no_minus: "CHR ''-'' \<notin> set (fmt_nat w n)"
  using minus_not_digit by (simp add: fmt_nat_def)

lemma key_fields_inject:
  assumes "x @ CHR ''-'' # fmt_nat 2 m = x' @ CHR ''-'' # fmt_nat 2 m'"
  shows "x = x' \<and> m = m'"
  using append_sep_inject_right [OF fmt_nat_no_minus fmt_nat_no_minus assms] by simp

lemma bucket_key_text_period_iff:
  "bucket_key_text C s t = bucket_key_text C s' u \<longleftrightarrow> s = s' \<and> period C s t = period C s u"
proof
  assume eq: "bucket_key_text C s t = bucket_key_text C s' u"
  then have s: "s' = s" by (rule bucket_key_text_strategy [symmetric])
  show "s = s' \<and> period C s t = period C s u"
  proof (cases s)
    case CalendarYearUtc
    then show ?thesis using eq s by (simp add: bucket_key_text_def period_def)
  next
    case CalendarMonthUtc
    then have "fmt_int 4 (c_year C t) @ CHR ''-'' # fmt_nat 2 (c_month C t)
        = fmt_int 4 (c_year C u) @ CHR ''-'' # fmt_nat 2 (c_month C u)"
      using eq s by (simp add: bucket_key_text_def)
    then show ?thesis
      using CalendarMonthUtc s by (auto simp: period_def dest!: key_fields_inject)
  next
    case CalendarDayUtc
    then have "(fmt_int 4 (c_year C t) @ CHR ''-'' # fmt_nat 2 (c_month C t)) @ CHR ''-'' # fmt_nat 2 (c_day C t)
        = (fmt_int 4 (c_year C u) @ CHR ''-'' # fmt_nat 2 (c_month C u)) @ CHR ''-'' # fmt_nat 2 (c_day C u)"
      using eq s by (simp add: bucket_key_text_def)
    from key_fields_inject [OF this]
    have "fmt_int 4 (c_year C t) @ CHR ''-'' # fmt_nat 2 (c_month C t)
        = fmt_int 4 (c_year C u) @ CHR ''-'' # fmt_nat 2 (c_month C u)" and "c_day C t = c_day C u"
      by blast+
    with key_fields_inject [OF this(1)] show ?thesis
      using CalendarDayUtc s by (simp add: period_def)
  qed
qed (auto intro: bucket_key_text_period)

context utc_calendar
begin

lemma period_mono:
  assumes "c_rep C t" and "c_rep C u" and "t \<le> u"
  shows "period C s t \<le> period C s u"
  using date_mono [OF assms] date_range [OF assms(1)] date_range [OF assms(2)]
  by (cases s) (auto simp: period_def)

lemma bounds_month:
  assumes "c_with_ymd C y m 1 = Some a" and "c_with_ymd C y' m' 1 = Some b" and "c_rep C u"
    and "(y', m') = (if m = 12 then (y + 1, 1) else (y, m + 1))" and "m \<le> 12"
  shows "a \<le> u \<and> u < b \<longleftrightarrow> c_year C u = y \<and> c_month C u = m"
  using ymd_le_iff [OF assms(1,3)] ymd_le_iff [OF assms(2,3)] date_range [OF assms(3)] assms(4,5)
  by (simp only: linorder_not_le [symmetric, of b u]) (auto split: if_splits)

lemma bounds_year:
  assumes "c_with_ymd C y 1 1 = Some a" and "c_with_ymd C (y + 1) 1 1 = Some b" and "c_rep C u"
  shows "a \<le> u \<and> u < b \<longleftrightarrow> c_year C u = y"
  using ymd_le_iff [OF assms(1,3)] ymd_le_iff [OF assms(2,3)] date_range [OF assms(3)]
  by (simp only: linorder_not_le [symmetric, of b u]) auto

lemma bounds_day:
  assumes t: "c_rep C t" and u: "c_rep C u"
  shows "t div DAY * DAY \<le> u \<and> u < t div DAY * DAY + DAY \<longleftrightarrow> c_date C u = c_date C t"
proof
  assume "t div DAY * DAY \<le> u \<and> u < t div DAY * DAY + DAY"
  then have "u div DAY = t div DAY"
    by (intro int_div_pos_eq [of _ _ _ "u - t div DAY * DAY"]) auto
  then show "c_date C u = c_date C t"
    using ymd_date [OF midnight_div [OF t]] ymd_date [OF midnight_div [OF u]] by simp
next
  assume eq: "c_date C u = c_date C t"
  then have "t div DAY * DAY = u div DAY * DAY"
    using midnight_div [OF t] midnight_div [OF u] by simp
  moreover have "u div DAY * DAY \<le> u" "u < u div DAY * DAY + DAY"
    using div_bounds [OF DAY_pos, of u] by (simp_all add: mult.commute)
  ultimately show "t div DAY * DAY \<le> u \<and> u < t div DAY * DAY + DAY" by simp
qed

lemma next_month:
  assumes "c_with_ymd C y m (Suc 0) = Some a" and "1 \<le> m" and "m \<le> 12"
  shows "c_add_months C a (Suc 0)
    = c_with_ymd C (if m = 12 then y + 1 else y) (if m = 12 then Suc 0 else Suc m) (Suc 0)"
  using add_months_first [of y m a "Suc 0"] assms by auto

lemma next_year:
  "c_with_ymd C y 1 1 = Some a \<Longrightarrow> c_add_months C a 12 = c_with_ymd C (y + 1) 1 1"
  using add_months_first [of y 1 a 12] by simp

text \<open>A bucket holds exactly the representable instants of its period.\<close>

lemma bounds_iff:
  assumes b: "bucket_bounds C s t = Some (a, b)" and t: "c_rep C t" and u: "c_rep C u"
  shows "a \<le> u \<and> u < b \<longleftrightarrow> period C s u = period C s t"
proof (cases s)
  case CalendarYearUtc
  then have "c_with_ymd C (c_year C t) 1 1 = Some a" "c_with_ymd C (c_year C t + 1) 1 1 = Some b"
    using b by (auto simp: bucket_bounds_def utc_date_def bind_eq_Some_conv next_year)
  from bounds_year [OF this u] show ?thesis using CalendarYearUtc by (auto simp: period_def)
next
  case CalendarMonthUtc
  let ?y = "c_year C t" and ?m = "c_month C t"
  have m: "1 \<le> ?m" "?m \<le> 12" using date_range [OF t] by auto
  have a: "c_with_ymd C ?y ?m (Suc 0) = Some a" and "c_add_months C a (Suc 0) = Some b"
    using b CalendarMonthUtc by (auto simp: bucket_bounds_def utc_date_def bind_eq_Some_conv)
  then have e: "c_with_ymd C (if ?m = 12 then ?y + 1 else ?y) (if ?m = 12 then Suc 0 else Suc ?m) (Suc 0) = Some b"
    using next_month [OF a m] by simp
  have "a \<le> u \<and> u < b \<longleftrightarrow> c_year C u = ?y \<and> c_month C u = ?m"
    by (rule bounds_month [OF _ _ u]) (use a e m in auto)
  then show ?thesis
    using CalendarMonthUtc by (auto simp: period_def)
next
  case CalendarDayUtc
  then have a: "a = t div DAY * DAY" and e: "c_add_days C a 1 = Some b"
    using b midnight_div [OF t] by (auto simp: bucket_bounds_def utc_date_def bind_eq_Some_conv)
  moreover have "b = a + DAY"
    using e add_days [OF ymd_rep [OF midnight_div [OF t]], of 1] a by (simp split: if_splits)
  ultimately show ?thesis
    using bounds_day [OF t u] CalendarDayUtc by (simp add: period_def)
qed

lemma bounds_rep:
  assumes b: "bucket_bounds C s t = Some (a, b)" and t: "c_rep C t"
  shows "c_rep C a \<and> c_rep C b"
proof -
  have a: "c_rep C a"
    using b ymd_rep by (auto simp: bucket_bounds_def utc_date_def bind_eq_Some_conv split: BucketStrategy.splits)
  moreover have "c_rep C b"
  proof (cases s)
    case CalendarYearUtc
    then show ?thesis
      using b ymd_rep by (auto simp: bucket_bounds_def utc_date_def bind_eq_Some_conv next_year)
  next
    case CalendarMonthUtc
    have m: "1 \<le> c_month C t" "c_month C t \<le> 12" using date_range [OF t] by auto
    have "c_with_ymd C (c_year C t) (c_month C t) (Suc 0) = Some a" "c_add_months C a (Suc 0) = Some b"
      using CalendarMonthUtc b by (auto simp: bucket_bounds_def utc_date_def bind_eq_Some_conv)
    with next_month [OF _ m] ymd_rep show ?thesis by metis
  next
    case CalendarDayUtc
    then show ?thesis
      using b add_days [OF a, of 1] by (auto simp: bucket_bounds_def bind_eq_Some_conv split: if_splits)
  qed
  ultimately show ?thesis ..
qed

lemma bounds_contains:
  "\<lbrakk> bucket_bounds C s t = Some (a, b); c_rep C t \<rbrakk> \<Longrightarrow> a \<le> t \<and> t < b"
  using bounds_iff by blast

text \<open>The end of a bucket is the start of the bucket it falls into, and the instant before the start
  of a bucket falls into the bucket that ends there.\<close>

lemma bounds_next:
  assumes b: "bucket_bounds C s t = Some (a, b)" and t: "c_rep C t"
    and c: "bucket_bounds C s b = Some (a', b')"
  shows "a' = b"
proof (rule ccontr)
  assume "a' \<noteq> b"
  have rep: "c_rep C a" "c_rep C b" using bounds_rep [OF b t] by auto
  have "a' \<le> b" "b < b'" using bounds_contains [OF c rep(2)] by auto
  have "a \<le> b - 1" using bounds_contains [OF b t] by simp
  then have r: "c_rep C (b - 1)" using rep_convex [OF rep] by simp
  have "period C s (b - 1) = period C s t"
    using bounds_iff [OF b t r] \<open>a \<le> b - 1\<close> by simp
  moreover have "period C s (b - 1) = period C s b"
    using bounds_iff [OF c rep(2) r] \<open>a' \<noteq> b\<close> \<open>a' \<le> b\<close> \<open>b < b'\<close> by simp
  ultimately show False
    using bounds_iff [OF b t rep(2)] by simp
qed

lemma bounds_previous:
  assumes b: "bucket_bounds C s t = Some (a, b)" and t: "c_rep C t"
    and r: "c_rep C (a - 1)" and c: "bucket_bounds C s (a - 1) = Some (a', b')"
  shows "b' = a"
proof -
  have rep: "c_rep C a" using bounds_rep [OF b t] by auto
  have "a \<le> b'" using bounds_contains [OF c r] by simp
  have ab: "a \<le> t" "t < b" using bounds_contains [OF b t] by auto
  have "\<not> a < b'"
  proof
    assume "a < b'"
    then have "period C s a = period C s (a - 1)"
      using bounds_iff [OF c r rep] bounds_contains [OF c r] by simp
    moreover have "period C s a = period C s t"
      using bounds_iff [OF b t rep] ab by simp
    ultimately show False using bounds_iff [OF b t r] by simp
  qed
  with \<open>a \<le> b'\<close> show ?thesis by simp
qed

text \<open>The bounds are representable as soon as a later period is.\<close>

lemma bounds_Some:
  assumes t: "c_rep C t" and w: "c_rep C w" and lt: "period C s t < period C s w"
  shows "\<exists>a b. bucket_bounds C s t = Some (a, b)"
proof (cases s)
  case CalendarYearUtc
  from first_of_year [OF t] obtain a where a: "c_with_ymd C (c_year C t) 1 1 = Some a" ..
  have "\<exists>b. c_with_ymd C (c_year C t + 1) 1 1 = Some b"
    by (rule ymd_between [OF t w])
      (use lt date_range [OF t] date_range [OF w] CalendarYearUtc in \<open>auto simp: period_def\<close>)
  then show ?thesis
    using a CalendarYearUtc by (auto simp: bucket_bounds_def utc_date_def next_year [OF a])
next
  case CalendarMonthUtc
  let ?y = "c_year C t" and ?m = "c_month C t"
  have m: "1 \<le> ?m" "?m \<le> 12" using date_range [OF t] by auto
  from first_of_month [OF t] obtain a where a: "c_with_ymd C ?y ?m (Suc 0) = Some a" by auto
  have "\<exists>b. c_with_ymd C (if ?m = 12 then ?y + 1 else ?y) (if ?m = 12 then Suc 0 else Suc ?m) 1 = Some b"
    by (rule ymd_between [OF t w])
      (use lt m date_range [OF t] date_range [OF w] CalendarMonthUtc in \<open>auto simp: period_def\<close>)
  then have "\<exists>b. c_add_months C a (Suc 0) = Some b"
    using next_month [OF a m] by simp
  then show ?thesis
    using a CalendarMonthUtc by (auto simp: bucket_bounds_def utc_date_def)
next
  case CalendarDayUtc
  have a: "c_with_ymd C (c_year C t) (c_month C t) (c_day C t) = Some (t div DAY * DAY)"
    by (rule midnight_div [OF t])
  have "\<not> w < t div DAY * DAY + DAY"
    using bounds_day [OF t w] ymd_le_iff [OF a w] lt CalendarDayUtc
    by (auto simp: period_def less_le)
  then have "c_rep C (t div DAY * DAY + DAY)"
    by (intro rep_convex [OF ymd_rep [OF a] w]) (simp_all add: DAY_pos [THEN less_imp_le])
  then show ?thesis
    using CalendarDayUtc a add_days [OF ymd_rep [OF a], of 1]
    by (auto simp: bucket_bounds_def utc_date_def)
qed

end

end
