(* ===== verification/Schema.thy ===== *)
theory Schema
  imports Model
begin

text \<open>
  Table definitions, \<open>src/src/domain/schema.rs\<close>: validation, the bucket of a record, the buckets
  that intersect a range and the most recent buckets of a partition, which are the write window. The
  loop over the buckets of a range has no bound in the source and is a partial function here; the
  lemmas show that it returns, that it returns exactly the buckets of the instants of the range in
  order, and that the backward walk of \<open>recent_buckets\<close> agrees with it.
\<close>

section \<open>Definitions of tables\<close>

datatype SortDirection = Ascending | Descending

record ClusteringColumn =
  cc_field :: string
  cc_direction :: SortDirection

record TableDefinition =
  td_name :: string
  td_table_id :: TableId
  td_partition_key :: string
  td_bucket_time_key :: string
  td_bucket_strategy :: BucketStrategy
  td_clustering_key :: "ClusteringColumn list"
  td_writable_buckets :: byte

datatype DefinitionError =
    EmptyName
  | EmptyTableId
  | UnsupportedBucketTimeKey string
  | UnsupportedClusteringKey
  | InvalidWriteWindow

definition TableId_new :: "string \<Rightarrow> (DefinitionError, TableId) result" where
  "TableId_new value = (if trim value = [] then Err EmptyTableId else Ok (TableId value))"

definition required_clustering_key :: "ClusteringColumn list" where
  "required_clustering_key =
     [\<lparr> cc_field = ''event_time'', cc_direction = Ascending \<rparr>,
      \<lparr> cc_field = ''sort_key'', cc_direction = Ascending \<rparr>]"

definition validate :: "TableDefinition \<Rightarrow> (DefinitionError, unit) result" where
  "validate td =
     (if trim (td_name td) = [] then Err EmptyName
      else if trim (tid_str (td_table_id td)) = [] then Err EmptyTableId
      else if td_bucket_time_key td \<noteq> ''event_time''
        then Err (UnsupportedBucketTimeKey (td_bucket_time_key td))
      else if td_writable_buckets td = 0 then Err InvalidWriteWindow
      else if td_clustering_key td \<noteq> required_clustering_key then Err UnsupportedClusteringKey
      else Ok ())"

definition new_with_bucket_strategy ::
    "string \<Rightarrow> TableId \<Rightarrow> string \<Rightarrow> string \<Rightarrow> BucketStrategy \<Rightarrow> ClusteringColumn list \<Rightarrow> byte
     \<Rightarrow> (DefinitionError, TableDefinition) result" where
  "new_with_bucket_strategy name table_id partition_key bucket_time_key bucket_strategy
       clustering_key writable_buckets =
     (let definition =
        \<lparr> td_name = name, td_table_id = table_id, td_partition_key = partition_key,
          td_bucket_time_key = bucket_time_key, td_bucket_strategy = bucket_strategy,
          td_clustering_key = clustering_key, td_writable_buckets = writable_buckets \<rparr>
      in and_then (validate definition) (\<lambda>_. Ok definition))"

definition TableDefinition_new ::
    "string \<Rightarrow> TableId \<Rightarrow> string \<Rightarrow> string \<Rightarrow> ClusteringColumn list \<Rightarrow> byte
     \<Rightarrow> (DefinitionError, TableDefinition) result" where
  "TableDefinition_new name table_id partition_key bucket_time_key clustering_key writable_buckets =
     new_with_bucket_strategy name table_id partition_key bucket_time_key CalendarYearUtc
       clustering_key writable_buckets"

definition chat_messages :: "string \<Rightarrow> TableId \<Rightarrow> TableDefinition option" where
  "chat_messages name table_id =
     (case TableDefinition_new name table_id ''channel_id'' ''event_time''
        [\<lparr> cc_field = ''event_time'', cc_direction = Ascending \<rparr>,
         \<lparr> cc_field = ''sort_key'', cc_direction = Ascending \<rparr>] 2
      of Inl _ \<Rightarrow> None | Inr td \<Rightarrow> Some td)"

section \<open>Buckets of a table\<close>

definition bucket_for_event_time ::
    "chrono \<Rightarrow> TableDefinition \<Rightarrow> PartitionKey \<Rightarrow> datetime \<Rightarrow> BucketId option" where
  "bucket_for_event_time C td partition_key event_time =
     for_event_time_with_strategy C (td_table_id td) partition_key (td_bucket_strategy td) event_time"

definition bucket_for :: "chrono \<Rightarrow> TableDefinition \<Rightarrow> Record \<Rightarrow> BucketId option" where
  "bucket_for C td r = bucket_for_event_time C td (rec_partition_key r) (rec_event_time r)"

partial_function (option) buckets_loop ::
    "chrono \<Rightarrow> TableDefinition \<Rightarrow> PartitionKey \<Rightarrow> datetime \<Rightarrow> BucketId \<Rightarrow> BucketId list
     \<Rightarrow> BucketId list option" where
  [code]: "buckets_loop C td partition_key range_end bucket buckets =
     (if bid_start bucket < range_end then
        Option.bind (bucket_for_event_time C td partition_key (bid_end bucket))
          (\<lambda>next_bucket. buckets_loop C td partition_key range_end next_bucket (buckets @ [bucket]))
      else Some buckets)"

definition buckets_for_range ::
    "chrono \<Rightarrow> TableDefinition \<Rightarrow> PartitionKey \<Rightarrow> TimeRange \<Rightarrow> BucketId list option" where
  "buckets_for_range C td partition_key rng =
     (if tr_start rng \<ge> tr_end rng then Some []
      else Option.bind (bucket_for_event_time C td partition_key (tr_start rng))
        (\<lambda>bucket. buckets_loop C td partition_key (tr_end rng) bucket []))"

fun recent_loop ::
    "chrono \<Rightarrow> TableDefinition \<Rightarrow> PartitionKey \<Rightarrow> nat \<Rightarrow> BucketId \<Rightarrow> BucketId list
     \<Rightarrow> BucketId list option" where
  "recent_loop C td partition_key 0 bucket buckets = Some buckets"
| "recent_loop C td partition_key (Suc n) bucket buckets = do {
     previous_event_time \<leftarrow> c_sub_nanos C (bid_start bucket) 1;
     bucket' \<leftarrow> bucket_for_event_time C td partition_key previous_event_time;
     recent_loop C td partition_key n bucket' (buckets @ [bucket'])
   }"

definition recent_buckets ::
    "chrono \<Rightarrow> TableDefinition \<Rightarrow> PartitionKey \<Rightarrow> datetime \<Rightarrow> nat \<Rightarrow> BucketId list option" where
  "recent_buckets C td partition_key event_time bucket_count =
     (if bucket_count = 0 then Some []
      else do {
        bucket \<leftarrow> bucket_for_event_time C td partition_key event_time;
        buckets \<leftarrow> recent_loop C td partition_key (bucket_count - 1) bucket [bucket];
        Some (rev buckets)
      })"

definition writable_buckets_at ::
    "chrono \<Rightarrow> TableDefinition \<Rightarrow> PartitionKey \<Rightarrow> datetime \<Rightarrow> BucketId list option" where
  "writable_buckets_at C td partition_key event_time =
     recent_buckets C td partition_key event_time (unat (td_writable_buckets td))"

section \<open>Canonical buckets\<close>

text \<open>The buckets that a table definition derives from representable instants.\<close>

definition canonical :: "chrono \<Rightarrow> BucketId \<Rightarrow> bool" where
  "canonical C b \<longleftrightarrow> (\<exists>t. c_rep C t \<and>
     for_event_time_with_strategy C (bid_table_id b) (bid_partition_key b) (bid_strategy b) t = Some b)"

lemma for_event_time_Some:
  "for_event_time_with_strategy C tid pk s t = Some b \<longleftrightarrow>
     bucket_bounds C s t = Some (bid_start b, bid_end b)
     \<and> b = \<lparr> bid_table_id = tid, bid_partition_key = pk, bid_strategy = s,
             bid_key = BucketKey (bucket_key_text C s t), bid_start = bid_start b, bid_end = bid_end b \<rparr>"
  by (auto simp: for_event_time_with_strategy_def bucket_key_eq bind_eq_Some_conv)

lemma for_event_time_key:
  "for_event_time_with_strategy C tid pk s t = Some b \<Longrightarrow> bid_key b = BucketKey (bucket_key_text C s t)"
  by (auto simp: for_event_time_with_strategy_def bucket_key_eq bind_eq_Some_conv)

lemma bucket_for_event_time_fields:
  assumes "bucket_for_event_time C td pk t = Some b"
  shows "bucket_bounds C (td_bucket_strategy td) t = Some (bid_start b, bid_end b)"
    "bid_table_id b = td_table_id td" "bid_partition_key b = pk"
    "bid_strategy b = td_bucket_strategy td"
    "bid_key b = BucketKey (bucket_key_text C (td_bucket_strategy td) t)"
  using assms [unfolded bucket_for_event_time_def for_event_time_Some]
  by (cases b; auto)+

lemma bucket_for_event_time_period:
  "period C (td_bucket_strategy td) t = period C (td_bucket_strategy td) u \<Longrightarrow>
     bucket_for_event_time C td pk t = bucket_for_event_time C td pk u"
  using bucket_bounds_period [of C "td_bucket_strategy td" t u]
    bucket_key_text_period [of C "td_bucket_strategy td" t u]
  by (simp add: bucket_for_event_time_def for_event_time_with_strategy_def bucket_key_eq)

lemma bucket_for_event_time_bounds:
  "bucket_bounds C (td_bucket_strategy td) t \<noteq> None \<Longrightarrow> \<exists>b. bucket_for_event_time C td pk t = Some b"
  by (auto simp: bucket_for_event_time_def for_event_time_with_strategy_def bucket_key_eq)

lemma canonical_bucket_for:
  "bucket_for_event_time C td pk t = Some b \<Longrightarrow> c_rep C t \<Longrightarrow> canonical C b"
  using bucket_for_event_time_fields [of C td pk t b]
  by (auto simp: canonical_def bucket_for_event_time_def)

lemma canonical_eq_iff:
  assumes "canonical C b" and "canonical C b'"
  shows "b = b' \<longleftrightarrow> bid_table_id b = bid_table_id b' \<and> bid_partition_key b = bid_partition_key b'
    \<and> bid_key b = bid_key b'"
proof -
  obtain t u where t: "for_event_time_with_strategy C (bid_table_id b) (bid_partition_key b) (bid_strategy b) t = Some b"
    and u: "for_event_time_with_strategy C (bid_table_id b') (bid_partition_key b') (bid_strategy b') u = Some b'"
    using assms by (auto simp: canonical_def)
  show ?thesis
  proof
    assume eq: "bid_table_id b = bid_table_id b' \<and> bid_partition_key b = bid_partition_key b'
      \<and> bid_key b = bid_key b'"
    then have "bucket_key_text C (bid_strategy b) t = bucket_key_text C (bid_strategy b') u"
      using for_event_time_key [OF t] for_event_time_key [OF u] by simp
    then have st: "bid_strategy b = bid_strategy b'"
      and pe: "period C (bid_strategy b) t = period C (bid_strategy b) u"
      unfolding bucket_key_text_period_iff by blast+
    have "for_event_time_with_strategy C (bid_table_id b) (bid_partition_key b) (bid_strategy b) t
        = for_event_time_with_strategy C (bid_table_id b') (bid_partition_key b') (bid_strategy b') u"
      using eq bucket_bounds_period [OF pe] bucket_key_text_period [OF pe]
      unfolding for_event_time_with_strategy_def bucket_key_eq st by simp
    then show "b = b'" using t u by (metis option.inject)
  qed simp
qed

lemma canonical_key_plain: "canonical C b \<Longrightarrow> CHR ''/'' \<notin> set (bk_str (bid_key b))"
proof -
  assume "canonical C b"
  then obtain t where "bk_str (bid_key b) = bucket_key_text C (bid_strategy b) t"
    using for_event_time_key by (fastforce simp: canonical_def)
  moreover have "CHR ''/'' \<notin> set (bucket_key_text C st t)" for st
    using digits_only [of "CHR ''/''"] by (cases st) (auto simp: bucket_key_text_def fmt_int_def fmt_nat_def)
  ultimately show ?thesis by simp
qed

context utc_calendar
begin

lemma bucket_for_contains:
  assumes "bucket_for_event_time C td pk t = Some b" and "c_rep C t"
  shows "bid_contains b t" "bid_start b < bid_end b"
  using bounds_contains [OF bucket_for_event_time_fields(1) [OF assms(1)] assms(2)]
  by (auto simp: bid_contains_def)

lemma bucket_for_iff:
  assumes b: "bucket_for_event_time C td pk t = Some b" and t: "c_rep C t" and u: "c_rep C u"
  shows "bid_contains b u \<longleftrightarrow> bucket_for_event_time C td pk u = Some b"
proof
  assume "bid_contains b u"
  then have "period C (td_bucket_strategy td) u = period C (td_bucket_strategy td) t"
    using bounds_iff [OF bucket_for_event_time_fields(1) [OF b] t u] by (simp add: bid_contains_def)
  then show "bucket_for_event_time C td pk u = Some b"
    using bucket_for_event_time_period b by metis
qed (use bucket_for_contains u in blast)

lemma bucket_for_rep:
  assumes "bucket_for_event_time C td pk t = Some b" and "c_rep C t"
  shows "c_rep C (bid_start b)" "c_rep C (bid_end b)"
  using bounds_rep [OF bucket_for_event_time_fields(1) [OF assms(1)] assms(2)] by auto

lemma bucket_for_next:
  assumes "bucket_for_event_time C td pk t = Some b" and "c_rep C t"
    and "bucket_for_event_time C td pk (bid_end b) = Some b'"
  shows "bid_start b' = bid_end b"
  by (rule bounds_next) (use assms bucket_for_event_time_fields(1) in blast)+

lemma bucket_for_previous:
  assumes "bucket_for_event_time C td pk t = Some b" and "c_rep C t"
    and "c_rep C (bid_start b - 1)" and "bucket_for_event_time C td pk (bid_start b - 1) = Some b'"
  shows "bid_end b' = bid_start b"
  by (rule bounds_previous) (use assms bucket_for_event_time_fields(1) in blast)+

lemma period_before:
  assumes t: "c_rep C t" and b: "bucket_bounds C s t = Some (a, F)"
    and F: "bucket_bounds C s F \<noteq> None" and u: "c_rep C u" and "u < F"
  shows "period C s u < period C s F"
proof -
  have rF: "c_rep C F" using bounds_rep [OF b t] by simp
  obtain F' where F': "bucket_bounds C s F = Some (F, F')"
    using F bounds_next [OF b t] by fastforce
  have "period C s u \<noteq> period C s F"
    using bounds_iff [OF F' rF u] \<open>u < F\<close> by simp
  then show ?thesis using period_mono [OF u rF] \<open>u < F\<close> by (simp add: less_le)
qed

lemma bounds_upto:
  assumes "c_rep C t" and "bucket_bounds C s t = Some (a, F)" and "bucket_bounds C s F \<noteq> None"
    and "c_rep C u" and "u \<le> F"
  shows "bucket_bounds C s u \<noteq> None"
proof (cases "u = F")
  case False
  then have "period C s u < period C s F" using period_before assms by (simp add: less_le)
  then show ?thesis using bounds_Some [OF assms(4)] bounds_rep [OF assms(2,1)] by blast
qed (use assms in simp)

lemma bounds_end_le:
  assumes b: "bucket_bounds C s t = Some (a, F)" and t: "c_rep C t"
    and c: "bucket_bounds C s u = Some (a', b')" and u: "c_rep C u" and "a' \<le> t"
  shows "b' \<le> F"
proof (rule ccontr)
  assume "\<not> b' \<le> F"
  then have "F < b'" by simp
  have rF: "c_rep C F" using bounds_rep [OF b t] by simp
  have "t < F" using bounds_contains [OF b t] by simp
  then have "period C s F = period C s u" "period C s t = period C s u"
    using bounds_iff [OF c u rF] bounds_iff [OF c u t] \<open>F < b'\<close> \<open>a' \<le> t\<close> by auto
  then show False using bounds_iff [OF b t rF] by simp
qed

end

section \<open>Chains of buckets\<close>

text \<open>Consecutive buckets of one partition without gaps.\<close>

abbreviation adjacent :: "BucketId \<Rightarrow> BucketId \<Rightarrow> bool" where
  "adjacent b c \<equiv> bid_end b = bid_start c"

definition bucket_chain :: "chrono \<Rightarrow> TableDefinition \<Rightarrow> PartitionKey \<Rightarrow> BucketId list \<Rightarrow> bool" where
  "bucket_chain C td pk bs \<longleftrightarrow> successively adjacent bs
     \<and> (\<forall>b \<in> set bs. \<exists>t. c_rep C t \<and> bucket_for_event_time C td pk t = Some b)"

lemma bucket_chain_Cons:
  "bucket_chain C td pk (b # bs) \<longleftrightarrow> (\<exists>t. c_rep C t \<and> bucket_for_event_time C td pk t = Some b)
     \<and> (bs = [] \<or> adjacent b (hd bs)) \<and> bucket_chain C td pk bs"
  by (cases bs) (auto simp: bucket_chain_def)

lemma bucket_chain_snoc:
  "bucket_chain C td pk (bs @ [b]) \<longleftrightarrow> (\<exists>t. c_rep C t \<and> bucket_for_event_time C td pk t = Some b)
     \<and> (bs = [] \<or> adjacent (last bs) b) \<and> bucket_chain C td pk bs"
  by (auto simp: bucket_chain_def successively_append_iff)

lemma chain_cover:
  assumes "successively adjacent bs" and "bs \<noteq> []" and "bid_start (hd bs) \<le> t" and "t < bid_end (last bs)"
  shows "\<exists>b \<in> set bs. bid_contains b t"
  using assms
proof (induction bs)
  case (Cons b bs)
  then show ?case
    by (cases "t < bid_end b"; cases bs) (auto simp: bid_contains_def)
qed simp

context utc_calendar
begin

lemma buckets_loop_chain:
  assumes l: "c_rep C l" and lF: "bucket_bounds C (td_bucket_strategy td) l = Some (a, F)"
    and F: "bucket_bounds C (td_bucket_strategy td) F \<noteq> None"
    and t: "c_rep C t" and b: "bucket_for_event_time C td pk t = Some b"
  shows "\<exists>bs. buckets_loop C td pk (l + 1) b acc = Some (acc @ bs) \<and> bucket_chain C td pk bs
    \<and> (\<forall>c \<in> set bs. bid_start c \<le> l)
    \<and> (if bid_start b \<le> l then bs \<noteq> [] \<and> hd bs = b \<and> l < bid_end (last bs) else bs = [])"
  using t b
proof (induction "nat (l + 1 - bid_start b)" arbitrary: b t acc rule: less_induct)
  case less
  note t = less.prems(1) and b = less.prems(2)
  show ?case
  proof (cases "bid_start b \<le> l")
    case False
    then show ?thesis
      by (subst buckets_loop.simps) (auto simp: bucket_chain_def)
  next
    case True
    have rE: "c_rep C (bid_end b)" using bucket_for_rep [OF b t] by simp
    have "bid_end b \<le> F"
      using bounds_end_le [OF lF l bucket_for_event_time_fields(1) [OF b] t True] .
    then obtain n where n: "bucket_for_event_time C td pk (bid_end b) = Some n"
      using bounds_upto [OF l lF F rE] bucket_for_event_time_bounds by blast
    have start: "bid_start n = bid_end b" by (rule bucket_for_next [OF b t n])
    have lt: "bid_start b < bid_end b" using bucket_for_contains [OF b t] by simp
    obtain bs where bs: "buckets_loop C td pk (l + 1) n (acc @ [b]) = Some ((acc @ [b]) @ bs)"
        "bucket_chain C td pk bs" "\<forall>c \<in> set bs. bid_start c \<le> l"
        "if bid_start n \<le> l then bs \<noteq> [] \<and> hd bs = n \<and> l < bid_end (last bs) else bs = []"
      using less.hyps [OF _ rE n, of "acc @ [b]"] start lt True by auto
    have "bucket_chain C td pk (b # bs)"
      using bs(2,4) t b start by (auto simp: bucket_chain_Cons split: if_splits)
    moreover have "l < bid_end (last (b # bs))"
      using bs(4) start by (auto split: if_splits)
    ultimately show ?thesis
      using bs(1,3) n True by (intro exI [of _ "b # bs"]) (subst buckets_loop.simps, simp)
  qed
qed

text \<open>The result of \<open>buckets_for_range\<close>: a chain that starts with the bucket of the first instant
  of the range and ends with the bucket of the last one.\<close>

lemma buckets_for_range_chain:
  assumes t: "c_rep C (tr_start rng)" and l: "c_rep C (tr_end rng - 1)" and "tr_start rng < tr_end rng"
    and lF: "bucket_bounds C (td_bucket_strategy td) (tr_end rng - 1) = Some (a, F)"
    and F: "bucket_bounds C (td_bucket_strategy td) F \<noteq> None"
  shows "\<exists>bs. buckets_for_range C td pk rng = Some bs \<and> bucket_chain C td pk bs \<and> bs \<noteq> []
    \<and> bid_contains (hd bs) (tr_start rng) \<and> bid_contains (last bs) (tr_end rng - 1)"
proof -
  have "tr_start rng \<le> F"
    using bounds_contains [OF lF l] assms(3) by simp
  then obtain b where b: "bucket_for_event_time C td pk (tr_start rng) = Some b"
    using bounds_upto [OF l lF F t] bucket_for_event_time_bounds by blast
  have "bid_start b \<le> tr_end rng - 1"
    using bucket_for_contains [OF b t] assms(3) by (simp add: bid_contains_def)
  then show ?thesis
    using buckets_loop_chain [OF l lF F t b, of "[]"] b bucket_for_contains [OF b t] assms(3)
    by (auto simp: buckets_for_range_def bid_contains_def not_le)
qed

lemma chain_lt: "bucket_chain C td pk bs \<Longrightarrow> b \<in> set bs \<Longrightarrow> bid_start b < bid_end b"
  using bucket_for_contains by (auto simp: bucket_chain_def)

lemma chain_sorted:
  "bucket_chain C td pk bs \<Longrightarrow> sorted_wrt (\<lambda>b c. bid_end b \<le> bid_start c) bs"
proof (induction bs)
  case (Cons c bs)
  then have IH: "sorted_wrt (\<lambda>b c. bid_end b \<le> bid_start c) bs" and ch: "bucket_chain C td pk bs"
    by (auto simp: bucket_chain_Cons)
  have "bid_end c \<le> bid_start e" if "e \<in> set bs" for e
  proof (cases bs)
    case (Cons d ds)
    have "bid_end c = bid_start d" using \<open>bucket_chain C td pk (c # bs)\<close> Cons
      by (simp add: bucket_chain_Cons)
    moreover have "bid_start d < bid_end d" using chain_lt [OF ch] Cons by simp
    ultimately show ?thesis using that IH Cons by auto
  qed (use that in simp)
  then show ?case using IH by simp
qed simp

lemma chain_bounds:
  assumes ch: "bucket_chain C td pk bs" and b: "b \<in> set bs"
  shows "bid_end (hd bs) \<le> bid_end b \<and> bid_start b \<le> bid_start (last bs)"
proof -
  obtain xs ys where bs: "bs = xs @ b # ys" using b by (meson split_list)
  have lt: "bid_start b < bid_end b" by (rule chain_lt [OF ch b])
  have "bid_end (hd bs) \<le> bid_end b"
    using chain_sorted [OF ch] lt unfolding bs by (cases xs) (auto simp: sorted_wrt_append)
  moreover have "bid_start b \<le> bid_start (last bs)"
  proof (cases "ys = []")
    case False
    then have "bid_end b \<le> bid_start (last ys)"
      using chain_sorted [OF ch] unfolding bs by (auto simp: sorted_wrt_append)
    then show ?thesis using lt False bs by simp
  qed (simp add: bs)
  ultimately show ?thesis ..
qed

lemma chain_distinct: "bucket_chain C td pk bs \<Longrightarrow> sorted_wrt (<) (map bid_start bs)"
  unfolding sorted_wrt_map
  by (rule sorted_wrt_mono_rel [OF _ chain_sorted]) (use chain_lt in fastforce)+

text \<open>The chain holds exactly the buckets of the instants of the range.\<close>

lemma chain_set:
  assumes ch: "bucket_chain C td pk bs" and ne: "bs \<noteq> []" and "u \<le> v" and u: "c_rep C u" and v: "c_rep C v"
    and hd: "bid_contains (hd bs) u" and la: "bid_contains (last bs) v"
  shows "set bs = {b. \<exists>t. u \<le> t \<and> t \<le> v \<and> bucket_for_event_time C td pk t = Some b}"
proof (intro set_eqI iffI)
  fix b
  assume "b \<in> set bs"
  then obtain t where t: "c_rep C t" "bucket_for_event_time C td pk t = Some b"
    using ch by (auto simp: bucket_chain_def)
  define w where "w = max u (bid_start b)"
  have "u \<le> w" "w \<le> v" "bid_contains b w"
    using chain_bounds [OF ch \<open>b \<in> set bs\<close>] chain_lt [OF ch \<open>b \<in> set bs\<close>] hd la \<open>u \<le> v\<close>
    by (auto simp: w_def bid_contains_def)
  moreover from this have "c_rep C w" using rep_convex [OF u v] by simp
  ultimately show "b \<in> {b. \<exists>t. u \<le> t \<and> t \<le> v \<and> bucket_for_event_time C td pk t = Some b}"
    using bucket_for_iff [OF t(2,1)] by blast
next
  fix b
  assume "b \<in> {b. \<exists>t. u \<le> t \<and> t \<le> v \<and> bucket_for_event_time C td pk t = Some b}"
  then obtain t where t: "u \<le> t" "t \<le> v" "bucket_for_event_time C td pk t = Some b" by auto
  have r: "c_rep C t" using rep_convex [OF u v] t by simp
  obtain c where c: "c \<in> set bs" "bid_contains c t"
    using chain_cover [of bs t] ch ne hd la t by (auto simp: bucket_chain_def bid_contains_def)
  then obtain x where "c_rep C x" "bucket_for_event_time C td pk x = Some c"
    using ch by (auto simp: bucket_chain_def)
  then have "bucket_for_event_time C td pk t = Some c"
    using bucket_for_iff r c(2) by blast
  with t c show "b \<in> set bs" by simp
qed

section \<open>Recent buckets\<close>

lemma recent_loop_chain:
  assumes "bucket_chain C td pk (bs @ [b])" and "n \<le> length bs"
  shows "recent_loop C td pk n b acc = Some (acc @ rev (drop (length bs - n) bs))"
  using assms
proof (induction n arbitrary: bs b acc)
  case (Suc n)
  then obtain cs c where bs: "bs = cs @ [c]" by (cases bs rule: rev_cases) auto
  have ch: "bucket_chain C td pk (cs @ [c])" and adj: "bid_end c = bid_start b"
    using bucket_chain_snoc [of C td pk "cs @ [c]" b] Suc.prems(1) by (auto simp: bs)
  obtain t u where t: "c_rep C t" "bucket_for_event_time C td pk t = Some b"
    and u: "c_rep C u" "bucket_for_event_time C td pk u = Some c"
    using Suc.prems(1) by (auto simp: bs bucket_chain_def)
  have r: "c_rep C (bid_start b)" using bucket_for_rep [OF t(2,1)] by simp
  have lt: "bid_start c < bid_end c" using bucket_for_contains [OF u(2,1)] by simp
  have r': "c_rep C (bid_start b - 1)"
    by (rule rep_convex [OF bucket_for_rep(1) [OF u(2,1)] r]) (use lt adj in auto)
  have "c_sub_nanos C (bid_start b) 1 = Some (bid_start b - 1)"
    using sub_nanos [OF r, of 1] r' by simp
  moreover have "bucket_for_event_time C td pk (bid_start b - 1) = Some c"
    using bucket_for_iff [OF u(2,1) r'] lt adj by (simp add: bid_contains_def)
  moreover have "recent_loop C td pk n c (acc @ [c])
      = Some ((acc @ [c]) @ rev (drop (length cs - n) cs))"
    by (rule Suc.IH [OF ch]) (use Suc.prems(2) bs in simp)
  ultimately show ?case using Suc.prems(2) by (simp add: bs Suc_diff_le)
qed simp

lemma recent_buckets_chain:
  assumes "bucket_chain C td pk (bs @ [b])" and "bucket_for_event_time C td pk t = Some b"
    and "1 \<le> n" and "n \<le> Suc (length bs)"
  shows "recent_buckets C td pk t n = Some (drop (Suc (length bs) - n) (bs @ [b]))"
  using recent_loop_chain [OF assms(1), of "n - 1" "[b]"] assms(2-4)
  by (auto simp: recent_buckets_def Suc_diff_le le_Suc_eq split: nat.splits)

end

section \<open>The properties of the buckets of a table\<close>

text \<open>C14. The buckets of a partition divide the time line: a bucket derived from one instant contains
  another instant exactly when the other instant derives the same bucket.\<close>

theorem buckets_partition_time:
  assumes "utc_calendar C" and "c_rep C t" and "c_rep C u"
    and "bucket_for_event_time C td pk t = Some b"
  shows "bid_contains b t \<and> (bid_contains b u \<longleftrightarrow> bucket_for_event_time C td pk u = Some b)"
  using utc_calendar.bucket_for_iff [OF assms(1,4,2,3)] utc_calendar.bucket_for_contains(1) [OF assms(1,4,2)]
  by simp

text \<open>The definition used in the witnesses: chat messages in yearly buckets.\<close>

definition chat_example :: TableDefinition where
  "chat_example = \<lparr> td_name = ''messages'', td_table_id = TableId ''chat'', td_partition_key = ''channel_id'',
     td_bucket_time_key = ''event_time'', td_bucket_strategy = CalendarYearUtc,
     td_clustering_key = required_clustering_key, td_writable_buckets = 2 \<rparr>"

definition year_bucket :: "int \<Rightarrow> BucketId" where
  "year_bucket y = \<lparr> bid_table_id = TableId ''chat'', bid_partition_key = PartitionKey [7],
     bid_strategy = CalendarYearUtc, bid_key = BucketKey (''year:'' @ fmt_int 4 y),
     bid_start = greg_start y 1 1, bid_end = greg_start (y + 1) 1 1 \<rparr>"

lemma year_bucket_bounds:
  assumes "valid_date y m d" and "0 \<le> r" and "r < DAY" and "in_years y" and "in_years (y + 1)"
  shows "bucket_bounds gregorian CalendarYearUtc (greg_start y m d + r)
    = Some (greg_start y 1 1, greg_start (y + 1) 1 1)"
proof -
  note gregorian_start(5) [OF _ _ order_refl DAY_pos]
  then have "c_with_ymd gregorian y 1 1 = Some (greg_start y 1 1)"
    "c_with_ymd gregorian (y + 1) 1 1 = Some (greg_start (y + 1) 1 1)"
    using valid_first [of 1] assms(4,5) by simp_all
  then show ?thesis
    using gregorian_start(2) [OF assms(1,4,2,3)]
    by (simp add: bucket_bounds_def utc_date_def greg.next_year)
qed

lemma year_bucket_for:
  assumes "valid_date y m d" and "0 \<le> r" and "r < DAY" and "in_years y" and "in_years (y + 1)"
  shows "bucket_for_event_time gregorian chat_example (PartitionKey [7]) (greg_start y m d + r)
    = Some (year_bucket y)"
  using year_bucket_bounds [OF assms] gregorian_start(2) [OF assms(1,4,2,3)]
  by (simp add: bucket_for_event_time_def for_event_time_with_strategy_def bucket_key_eq
      bucket_key_text_def chat_example_def year_bucket_def)

lemmas date_simps = valid_date_def days_before_month_def leap_def in_years_def DAY_def

lemma year_bucket_canonical:
  "in_years y \<Longrightarrow> in_years (y + 1) \<Longrightarrow> canonical gregorian (year_bucket y)"
  by (rule canonical_bucket_for [OF year_bucket_for [of y 1 1 0] gregorian_start(1)])
    (use valid_first [of 1 y] in simp_all)

theorem buckets_partition_time_witness:
  "bid_contains (year_bucket 2024) (greg_start 2024 3 5 + 77)
   \<and> (bid_contains (year_bucket 2024) (greg_start 2024 12 31 + 5) \<longleftrightarrow>
       bucket_for_event_time gregorian chat_example (PartitionKey [7]) (greg_start 2024 12 31 + 5)
         = Some (year_bucket 2024))"
  by (rule buckets_partition_time [OF greg.utc_calendar_axioms gregorian_start(1) gregorian_start(1)
        year_bucket_for]) (simp_all add: date_simps)

text \<open>C15. A bucket key identifies its bucket: two buckets that a table definition derives are equal as
  soon as they have the same table, partition and key, whatever strategies derived them. The triple is
  the primary key of the durable store and determines the path of the archive.\<close>

theorem bucket_key_identifies_bucket:
  assumes "canonical C b" and "canonical C b'"
  shows "b = b' \<longleftrightarrow> bid_table_id b = bid_table_id b' \<and> bid_partition_key b = bid_partition_key b'
    \<and> bid_key b = bid_key b'"
  by (rule canonical_eq_iff [OF assms])

theorem bucket_key_identifies_bucket_witness:
  "year_bucket 2024 = year_bucket 2025 \<longleftrightarrow>
     bid_table_id (year_bucket 2024) = bid_table_id (year_bucket 2025)
     \<and> bid_partition_key (year_bucket 2024) = bid_partition_key (year_bucket 2025)
     \<and> bid_key (year_bucket 2024) = bid_key (year_bucket 2025)"
  by (rule bucket_key_identifies_bucket [OF year_bucket_canonical
        year_bucket_canonical]) (simp_all add: in_years_def)

text \<open>C13. \<open>buckets_for_range\<close> returns exactly the buckets of the instants of the range, in strictly
  increasing order and each ending where the next one starts, whenever the bucket of the last instant
  and the bucket after it are representable.\<close>

theorem buckets_for_range_exact:
  assumes "utc_calendar C" and "c_rep C (tr_start rng)" and "c_rep C (tr_end rng - 1)"
    and "tr_start rng < tr_end rng"
    and "bucket_bounds C (td_bucket_strategy td) (tr_end rng - 1) = Some (a, F)"
    and "bucket_bounds C (td_bucket_strategy td) F \<noteq> None"
  shows "\<exists>bs. buckets_for_range C td pk rng = Some bs
    \<and> set bs = {b. \<exists>t. tr_contains rng t \<and> bucket_for_event_time C td pk t = Some b}
    \<and> sorted_wrt (<) (map bid_start bs) \<and> successively (\<lambda>b c. bid_end b = bid_start c) bs"
proof -
  from utc_calendar.buckets_for_range_chain [OF assms] obtain bs
    where bs: "buckets_for_range C td pk rng = Some bs" "bucket_chain C td pk bs" "bs \<noteq> []"
      "bid_contains (hd bs) (tr_start rng)" "bid_contains (last bs) (tr_end rng - 1)"
    by blast
  have "set bs = {b. \<exists>t. tr_start rng \<le> t \<and> t \<le> tr_end rng - 1 \<and> bucket_for_event_time C td pk t = Some b}"
    by (rule utc_calendar.chain_set [OF assms(1) bs(2,3) _ assms(2,3) bs(4,5)]) (use assms(4) in simp)
  then show ?thesis
    using bs(1,2) utc_calendar.chain_distinct [OF assms(1) bs(2)]
    by (auto simp: tr_contains_def bucket_chain_def)
qed

lemma greg_start_less:
  "valid_date y m d \<Longrightarrow> valid_date y' m' d' \<Longrightarrow> (y, m, d) < (y', m', d') \<Longrightarrow>
     greg_start y m d + DAY \<le> greg_start y' m' d'"
proof -
  assume "valid_date y m d" "valid_date y' m' d'" "(y, m, d) < (y', m', d')"
  then have "day_number y m d - EPOCH + 1 \<le> day_number y' m' d' - EPOCH"
    using day_number_mono by fastforce
  then have "(day_number y m d - EPOCH + 1) * DAY \<le> (day_number y' m' d' - EPOCH) * DAY"
    using mult_right_mono [OF _ less_imp_le [OF DAY_pos]] by blast
  then show ?thesis by (simp add: greg_start_def distrib_right)
qed

theorem buckets_for_range_exact_witness:
  "\<exists>bs. buckets_for_range gregorian chat_example (PartitionKey [7])
       \<lparr> tr_start = greg_start 2023 11 5 + 1, tr_end = greg_start 2025 2 1 + 1 \<rparr> = Some bs
    \<and> set bs = {b. \<exists>t. tr_contains \<lparr> tr_start = greg_start 2023 11 5 + 1, tr_end = greg_start 2025 2 1 + 1 \<rparr> t
         \<and> bucket_for_event_time gregorian chat_example (PartitionKey [7]) t = Some b}
    \<and> sorted_wrt (<) (map bid_start bs) \<and> successively (\<lambda>b c. bid_end b = bid_start c) bs"
proof (rule buckets_for_range_exact [OF greg.utc_calendar_axioms])
  let ?r = "\<lparr> tr_start = greg_start 2023 11 5 + 1, tr_end = greg_start 2025 2 1 + 1 \<rparr>"
  show "c_rep gregorian (tr_start ?r)"
    using gregorian_start(1) [of 2023 11 5 1] by (simp add: date_simps)
  show "c_rep gregorian (tr_end ?r - 1)"
    using gregorian_start(1) [of 2025 2 1 0] by (simp add: date_simps)
  show "tr_start ?r < tr_end ?r"
    using greg_start_less [of 2023 11 5 2025 2 1] DAY_pos by (simp add: date_simps)
  show "bucket_bounds gregorian (td_bucket_strategy chat_example) (tr_end ?r - 1)
      = Some (greg_start 2025 1 1, greg_start 2026 1 1)"
    using year_bucket_bounds [of 2025 2 1 0] by (simp add: chat_example_def date_simps)
  show "bucket_bounds gregorian (td_bucket_strategy chat_example) (greg_start 2026 1 1) \<noteq> None"
    using year_bucket_bounds [of 2026 1 1 0] by (simp add: chat_example_def date_simps)
qed

text \<open>C16. The backward walk of \<open>recent_buckets\<close> agrees with the forward walk of \<open>buckets_for_range\<close>:
  the \<open>n\<close> most recent buckets at an instant are the last \<open>n\<close> buckets of any range that ends with the
  bucket of that instant and spans at least \<open>n\<close> buckets.\<close>

theorem recent_buckets_suffix:
  assumes cal: "utc_calendar C" and w: "c_rep C w" and t: "c_rep C t" and "w \<le> t"
    and b: "bucket_for_event_time C td pk t = Some b"
    and nxt: "bucket_bounds C (td_bucket_strategy td) (bid_end b) \<noteq> None"
    and bs: "buckets_for_range C td pk \<lparr> tr_start = w, tr_end = bid_end b \<rparr> = Some bs"
    and n: "n \<le> length bs"
  shows "recent_buckets C td pk t n = Some (drop (length bs - n) bs)"
proof (cases "n = 0")
  case False
  have bt: "bid_start b \<le> t" "t < bid_end b"
    using utc_calendar.bucket_for_contains [OF cal b t] by (auto simp: bid_contains_def)
  have l: "c_rep C (bid_end b - 1)"
    using utc_calendar.rep_convex [OF cal t utc_calendar.bucket_for_rep(2) [OF cal b t]] bt by simp
  have bl: "bucket_for_event_time C td pk (bid_end b - 1) = Some b"
    using utc_calendar.bucket_for_iff [OF cal b t l] bt by (simp add: bid_contains_def)
  from utc_calendar.buckets_for_range_chain [of C "\<lparr> tr_start = w, tr_end = bid_end b \<rparr>" td
      "bid_start b" "bid_end b" pk, OF cal] w l nxt bs bt \<open>w \<le> t\<close> bucket_for_event_time_fields(1) [OF bl]
  have ch: "bucket_chain C td pk bs" "bs \<noteq> []" "bid_contains (last bs) (bid_end b - 1)" by auto
  then obtain u where u: "c_rep C u" "bucket_for_event_time C td pk u = Some (last bs)"
    unfolding bucket_chain_def using last_in_set by blast
  then have "last bs = b"
    using utc_calendar.bucket_for_iff [OF cal u(2,1) l] ch(3) bl by simp
  then have sp: "bs = butlast bs @ [b]" using ch(2) by (metis append_butlast_last_id)
  then have "bucket_chain C td pk (butlast bs @ [b])" using ch(1) by simp
  from utc_calendar.recent_buckets_chain [OF cal this b, of n] show ?thesis
    using False n ch(2) sp by (simp add: Suc_diff_le)
qed (simp add: recent_buckets_def)

text \<open>Evaluation of the walk on yearly buckets.\<close>

lemma year_bucket_next:
  assumes "in_years (y + 1)" and "in_years (y + 2)"
  shows "bucket_for_event_time gregorian chat_example (PartitionKey [7]) (bid_end (year_bucket y))
    = Some (year_bucket (y + 1))"
  using year_bucket_for [of "y + 1" 1 1 0] valid_first [of 1 "y + 1"] assms
  by (simp add: year_bucket_def add.assoc)

lemma greg_start_value:
  "greg_start 2023 1 1 = 1672531200000000000" "greg_start 2024 1 1 = 1704067200000000000"
  "greg_start 2024 3 5 = 1709596800000000000"
  "greg_start 2025 1 1 = 1735689600000000000" "greg_start 2026 1 1 = 1767225600000000000"
  by (simp_all add: greg_start_def day_number_def days_before_year_def days_before_month_def leap_def
      EPOCH_def DAY_def)

lemma two_years_range:
  "buckets_for_range gregorian chat_example (PartitionKey [7])
     \<lparr> tr_start = greg_start 2023 1 1, tr_end = greg_start 2025 1 1 \<rparr>
   = Some [year_bucket 2023, year_bucket 2024]"
proof -
  have 1: "bucket_for_event_time gregorian chat_example (PartitionKey [7]) (greg_start 2023 1 1)
      = Some (year_bucket 2023)"
    using year_bucket_for [of 2023 1 1 0] by (simp add: date_simps)
  have 2: "bucket_for_event_time gregorian chat_example (PartitionKey [7]) (bid_end (year_bucket 2023))
      = Some (year_bucket 2024)"
    "bucket_for_event_time gregorian chat_example (PartitionKey [7]) (bid_end (year_bucket 2024))
      = Some (year_bucket 2025)"
    using year_bucket_next [of 2023] year_bucket_next [of 2024] by (simp_all add: in_years_def)
  have 3: "bid_start (year_bucket y) = greg_start y 1 1" for y by (simp add: year_bucket_def)
  show ?thesis
    using 1 by (simp add: buckets_for_range_def 2 3 buckets_loop.simps [of _ _ _ _ "year_bucket _"] greg_start_value
        del: One_nat_def)
qed

theorem recent_buckets_suffix_witness:
  "recent_buckets gregorian chat_example (PartitionKey [7]) (greg_start 2024 3 5 + 77) 2
   = Some (drop (length [year_bucket 2023, year_bucket 2024] - 2) [year_bucket 2023, year_bucket 2024])"
proof (rule recent_buckets_suffix [OF greg.utc_calendar_axioms])
  show "c_rep gregorian (greg_start 2023 1 1)"
    using gregorian_start(1) [of 2023 1 1 0] by (simp add: date_simps)
  show "c_rep gregorian (greg_start 2024 3 5 + 77)"
    by (rule gregorian_start) (simp_all add: date_simps)
  show "greg_start 2023 1 1 \<le> greg_start 2024 3 5 + 77"
    by (simp add: greg_start_value del: One_nat_def)
  show "bucket_for_event_time gregorian chat_example (PartitionKey [7]) (greg_start 2024 3 5 + 77)
      = Some (year_bucket 2024)"
    by (rule year_bucket_for) (simp_all add: date_simps)
  show "bucket_bounds gregorian (td_bucket_strategy chat_example) (bid_end (year_bucket 2024)) \<noteq> None"
    using year_bucket_bounds [of 2025 1 1 0] by (simp add: chat_example_def year_bucket_def date_simps)
  show "buckets_for_range gregorian chat_example (PartitionKey [7])
      \<lparr> tr_start = greg_start 2023 1 1, tr_end = bid_end (year_bucket 2024) \<rparr>
      = Some [year_bucket 2023, year_bucket 2024]"
    using two_years_range by (simp add: year_bucket_def)
qed simp


end
