(* ===== verification/Ports.thy ===== *)
theory Ports
  imports Schema
begin

text \<open>
  The storage ports, \<open>src/src/ports/storage.rs\<close>: the states and errors of a durable bucket, and the
  traits \<open>DurableBucketStore\<close> and \<open>ArchiveStore\<close> as records of operations. An operation is a function
  of its environment (what it reads from clocks, from the generator of tokens and from the services it
  calls), its arguments and the state of the store, and returns its result with the next state. The
  locales \<open>bucket_store\<close> and \<open>archive_store\<close> state what the documentation of the traits promises of
  every implementation, over an abstract view of one bucket.
\<close>

section \<open>States and errors\<close>

datatype BucketState =
    Hot
  | Archiving
  | Archived (object_key: string) (hot_deleted: bool)

datatype StoreError =
    MissingBucket BucketId
  | Other string

datatype DurableBucketStoreError =
    Unavailable
  | OperationFailed
  | CommitOutcomeUnknown
  | BucketReadOnly BucketState
  | ArchiveNotAllowed BucketState
  | BucketStrategyMismatch
  | StaleArchiveSession

datatype DurableBucketRead =
    HotRead "Record list"
  | ArchiveRead string

record ArchiveSession =
  ses_bucket :: BucketId
  ses_owner_token :: string
  ses_generation :: nat

datatype ArchiveWork =
    Cutover (work_bucket: BucketId)
  | Cleanup (work_bucket: BucketId)

record ArchiveScan =
  scan_eligible_before :: datetime
  scan_limit :: nat

section \<open>The ports\<close>

type_synonym 'a dur_result = "(DurableBucketStoreError, 'a) result"

record ('e, 's) DurableBucketStore =
  ds_append :: "'e \<Rightarrow> BucketId \<Rightarrow> Record \<Rightarrow> 's \<Rightarrow> unit dur_result \<times> 's"
  ds_state :: "'e \<Rightarrow> BucketId \<Rightarrow> 's \<Rightarrow> BucketState dur_result \<times> 's"
  ds_discover_archive_work :: "'e \<Rightarrow> ArchiveScan \<Rightarrow> 's \<Rightarrow> ArchiveWork list dur_result \<times> 's"
  ds_claim_archive :: "'e \<Rightarrow> BucketId \<Rightarrow> duration \<Rightarrow> 's \<Rightarrow> ArchiveSession option dur_result \<times> 's"
  ds_claim_cleanup :: "'e \<Rightarrow> BucketId \<Rightarrow> duration \<Rightarrow> 's \<Rightarrow> ArchiveSession option dur_result \<times> 's"
  ds_renew_archive_lease :: "'e \<Rightarrow> ArchiveSession \<Rightarrow> duration \<Rightarrow> 's \<Rightarrow> unit dur_result \<times> 's"
  ds_defer_archive :: "'e \<Rightarrow> ArchiveSession \<Rightarrow> duration \<Rightarrow> 's \<Rightarrow> unit dur_result \<times> 's"
  ds_defer_cleanup :: "'e \<Rightarrow> ArchiveSession \<Rightarrow> duration \<Rightarrow> 's \<Rightarrow> unit dur_result \<times> 's"
  ds_read_range ::
    "'e \<Rightarrow> BucketId \<Rightarrow> TimeRange \<Rightarrow> Cursor option \<Rightarrow> nat \<Rightarrow> 's \<Rightarrow> DurableBucketRead dur_result \<times> 's"
  ds_begin_archive :: "'e \<Rightarrow> BucketId \<Rightarrow> 's \<Rightarrow> ArchiveSession dur_result \<times> 's"
  ds_snapshot :: "'e \<Rightarrow> ArchiveSession \<Rightarrow> 's \<Rightarrow> Record list dur_result \<times> 's"
  ds_publish_archive :: "'e \<Rightarrow> ArchiveSession \<Rightarrow> string \<Rightarrow> 's \<Rightarrow> unit dur_result \<times> 's"
  ds_delete_hot_bucket :: "'e \<Rightarrow> ArchiveSession \<Rightarrow> 's \<Rightarrow> unit dur_result \<times> 's"
  ds_abort_archive :: "'e \<Rightarrow> ArchiveSession \<Rightarrow> 's \<Rightarrow> unit dur_result \<times> 's"

record ('f, 'a) ArchiveStore =
  as_put_bucket :: "'f \<Rightarrow> BucketId \<Rightarrow> Record list \<Rightarrow> 'a \<Rightarrow> (StoreError, string) result \<times> 'a"
  as_put_bucket_generation ::
    "'f \<Rightarrow> BucketId \<Rightarrow> nat \<Rightarrow> Record list \<Rightarrow> 'a \<Rightarrow> (StoreError, string) result \<times> 'a"
  as_get_bucket :: "'f \<Rightarrow> BucketId \<Rightarrow> string \<Rightarrow> 'a \<Rightarrow> (StoreError, Record list) result \<times> 'a"

text \<open>The provided method of the trait, for stores that do not override it.\<close>

definition default_put_bucket_generation ::
    "'f \<Rightarrow> BucketId \<Rightarrow> nat \<Rightarrow> Record list \<Rightarrow> 'a \<Rightarrow> (StoreError, string) result \<times> 'a" where
  "default_put_bucket_generation env bucket generation records a =
     (Err (Other ''archive store does not support generation-addressed uploads''), a)"

section \<open>The contract of a bucket store\<close>

text \<open>
  The view of a bucket: its routing state, its fencing generation and its mutable records in the
  declared order.
\<close>

record bucket_view =
  v_state :: BucketState
  v_gen :: nat
  v_recs :: "Record list"

text \<open>The filter, order and bound of a page of one bucket.\<close>

definition after_cursor :: "Cursor option \<Rightarrow> Record \<Rightarrow> bool" where
  "after_cursor after r = (case after of None \<Rightarrow> True | Some c \<Rightarrow> cursor_key c < ckey r)"

definition page_of :: "TimeRange \<Rightarrow> Cursor option \<Rightarrow> nat \<Rightarrow> Record list \<Rightarrow> Record list" where
  "page_of rng after limit rs =
     take limit (filter (after_cursor after) (filter (\<lambda>r. tr_contains rng (rec_event_time r)) rs))"

definition fits :: "BucketId \<Rightarrow> Record \<Rightarrow> bool" where
  "fits bucket r \<longleftrightarrow> rec_partition_key r = bid_partition_key bucket
     \<and> bid_contains bucket (rec_event_time r)"

text \<open>The transitions of a bucket.\<close>

definition v_append :: "Record \<Rightarrow> bucket_view \<Rightarrow> bucket_view" where
  "v_append r v = v\<lparr> v_recs := sort_key ckey (v_recs v @ [r]) \<rparr>"

definition v_claim :: "bucket_view \<Rightarrow> bucket_view" where
  "v_claim v = v\<lparr> v_state := Archiving, v_gen := v_gen v + 1 \<rparr>"

definition v_claim_cleanup :: "bucket_view \<Rightarrow> bucket_view" where
  "v_claim_cleanup v = v\<lparr> v_gen := v_gen v + 1 \<rparr>"

definition v_reopen :: "bucket_view \<Rightarrow> bucket_view" where
  "v_reopen v = v\<lparr> v_state := Hot \<rparr>"

definition v_publish :: "string \<Rightarrow> bucket_view \<Rightarrow> bucket_view" where
  "v_publish key v = v\<lparr> v_state := Archived key False \<rparr>"

definition v_delete :: "bucket_view \<Rightarrow> bucket_view" where
  "v_delete v = v\<lparr> v_state := Archived (object_key (v_state v)) True, v_recs := [] \<rparr>"

lemmas view_defs = v_append_def v_claim_def v_claim_cleanup_def v_reopen_def v_publish_def v_delete_def

text \<open>
  An operation performs a guarded transition when it succeeds. When it fails it changed nothing, or,
  its commit being unknown to the caller, it performed the transition.
\<close>

definition cleanup_pending :: "BucketState \<Rightarrow> bool" where
  "cleanup_pending st = (case st of Archived _ deleted \<Rightarrow> \<not> deleted | _ \<Rightarrow> False)"

definition performs ::
    "(bucket_view \<Rightarrow> bool) \<Rightarrow> (bucket_view \<Rightarrow> bucket_view) \<Rightarrow> bucket_view \<Rightarrow> 'r dur_result \<Rightarrow> bucket_view
     \<Rightarrow> bool" where
  "performs guard f v res v' \<longleftrightarrow>
     (case res of
        Inr _ \<Rightarrow> guard v \<and> v' = f v
      | Inl _ \<Rightarrow> v' = v \<or> guard v \<and> v' = f v)"

definition claims ::
    "(bucket_view \<Rightarrow> bool) \<Rightarrow> (bucket_view \<Rightarrow> bucket_view) \<Rightarrow> BucketId \<Rightarrow> bucket_view
     \<Rightarrow> ArchiveSession option dur_result \<Rightarrow> bucket_view \<Rightarrow> bool" where
  "claims guard f b v res v' \<longleftrightarrow>
     (case res of
        Inr (Some ses) \<Rightarrow> guard v \<and> v' = f v \<and> ses_bucket ses = b \<and> ses_generation ses = v_gen v'
      | Inr None \<Rightarrow> v' = v
      | Inl _ \<Rightarrow> v' = v \<or> guard v \<and> v' = f v)"

definition holds_session :: "ArchiveSession \<Rightarrow> BucketState \<Rightarrow> bucket_view \<Rightarrow> bool" where
  "holds_session ses st v \<longleftrightarrow> v_state v = st \<and> v_gen v = ses_generation ses"

definition open_or_archiving :: "bucket_view \<Rightarrow> bool" where
  "open_or_archiving v \<longleftrightarrow> v_state v = Hot \<or> v_state v = Archiving"

text \<open>
  A store keeps the contract on the buckets that satisfy \<open>valid\<close>, the records that satisfy
  \<open>storable\<close> and the pages that satisfy \<open>readable\<close>, while \<open>inv\<close> holds of its state: an operation touches one bucket, a session acts only on
  the generation it was issued for, and a read selects its tier and its records from one state.
\<close>

locale bucket_store =
  fixes S :: "('e, 's) DurableBucketStore"
    and view :: "'s \<Rightarrow> BucketId \<Rightarrow> bucket_view"
    and inv :: "'s \<Rightarrow> bool"
    and valid :: "BucketId \<Rightarrow> bool"
    and storable :: "Record \<Rightarrow> bool"
    and readable :: "TimeRange \<Rightarrow> Cursor option \<Rightarrow> nat \<Rightarrow> bool"
  assumes view_sorted: "\<lbrakk> inv s; valid b \<rbrakk> \<Longrightarrow> sorted_by ckey (v_recs (view s b))"
    and append_inv: "\<lbrakk> inv s; valid b; fits b r; storable r; ds_append S e b r s = (res, s') \<rbrakk> \<Longrightarrow> inv s'"
    and append_frame: "\<lbrakk> inv s; valid b; fits b r; storable r; ds_append S e b r s = (res, s'); valid b'; b' \<noteq> b \<rbrakk>
      \<Longrightarrow> view s' b' = view s b'"
    and append_view: "\<lbrakk> inv s; valid b; fits b r; storable r; ds_append S e b r s = (res, s') \<rbrakk>
      \<Longrightarrow> performs (\<lambda>v. v_state v = Hot) (v_append r) (view s b) res (view s' b)"
    and state_inv: "\<lbrakk> inv s; valid b; ds_state S e b s = (tres, s') \<rbrakk> \<Longrightarrow> inv s'"
    and state_view: "\<lbrakk> inv s; valid b; ds_state S e b s = (tres, s'); valid b' \<rbrakk> \<Longrightarrow> view s' b' = view s b'"
    and state_ok: "\<lbrakk> inv s; valid b; ds_state S e b s = (Ok st, s') \<rbrakk> \<Longrightarrow> st = v_state (view s b)"
    and discover_inv: "\<lbrakk> inv s; ds_discover_archive_work S e sc s = (dres, s') \<rbrakk> \<Longrightarrow> inv s'"
    and discover_view: "\<lbrakk> inv s; ds_discover_archive_work S e sc s = (dres, s'); valid b' \<rbrakk>
      \<Longrightarrow> view s' b' = view s b'"
    and discover_ok: "\<lbrakk> inv s; ds_discover_archive_work S e sc s = (Ok ws, s'); w \<in> set ws \<rbrakk>
      \<Longrightarrow> valid (work_bucket w)"
    and claim_inv: "\<lbrakk> inv s; valid b; ds_claim_archive S e b d s = (cres, s') \<rbrakk> \<Longrightarrow> inv s'"
    and claim_frame: "\<lbrakk> inv s; valid b; ds_claim_archive S e b d s = (cres, s'); valid b'; b' \<noteq> b \<rbrakk>
      \<Longrightarrow> view s' b' = view s b'"
    and claim_view: "\<lbrakk> inv s; valid b; ds_claim_archive S e b d s = (cres, s') \<rbrakk>
      \<Longrightarrow> claims open_or_archiving v_claim b (view s b) cres (view s' b)"
    and claim_cleanup_inv: "\<lbrakk> inv s; valid b; ds_claim_cleanup S e b d s = (cres, s') \<rbrakk> \<Longrightarrow> inv s'"
    and claim_cleanup_frame: "\<lbrakk> inv s; valid b; ds_claim_cleanup S e b d s = (cres, s'); valid b'; b' \<noteq> b \<rbrakk>
      \<Longrightarrow> view s' b' = view s b'"
    and claim_cleanup_view: "\<lbrakk> inv s; valid b; ds_claim_cleanup S e b d s = (cres, s') \<rbrakk>
      \<Longrightarrow> claims (\<lambda>v. cleanup_pending (v_state v)) v_claim_cleanup b (view s b) cres (view s' b)"
    and renew_inv: "\<lbrakk> inv s; valid (ses_bucket ses); ds_renew_archive_lease S e ses d s = (res, s') \<rbrakk> \<Longrightarrow> inv s'"
    and renew_view: "\<lbrakk> inv s; valid (ses_bucket ses); ds_renew_archive_lease S e ses d s = (res, s'); valid b' \<rbrakk>
      \<Longrightarrow> view s' b' = view s b'"
    and defer_inv: "\<lbrakk> inv s; valid (ses_bucket ses); ds_defer_archive S e ses d s = (res, s') \<rbrakk> \<Longrightarrow> inv s'"
    and defer_frame: "\<lbrakk> inv s; valid (ses_bucket ses); ds_defer_archive S e ses d s = (res, s'); valid b';
        b' \<noteq> ses_bucket ses \<rbrakk> \<Longrightarrow> view s' b' = view s b'"
    and defer_view: "\<lbrakk> inv s; valid (ses_bucket ses); ds_defer_archive S e ses d s = (res, s') \<rbrakk>
      \<Longrightarrow> performs (holds_session ses Archiving) v_reopen (view s (ses_bucket ses)) res (view s' (ses_bucket ses))"
    and defer_cleanup_inv: "\<lbrakk> inv s; valid (ses_bucket ses); ds_defer_cleanup S e ses d s = (res, s') \<rbrakk> \<Longrightarrow> inv s'"
    and defer_cleanup_view: "\<lbrakk> inv s; valid (ses_bucket ses); ds_defer_cleanup S e ses d s = (res, s'); valid b' \<rbrakk>
      \<Longrightarrow> view s' b' = view s b'"
    and read_inv: "\<lbrakk> inv s; valid b; ds_read_range S e b rng after limit s = (rres, s') \<rbrakk> \<Longrightarrow> inv s'"
    and read_view: "\<lbrakk> inv s; valid b; ds_read_range S e b rng after limit s = (rres, s'); valid b' \<rbrakk>
      \<Longrightarrow> view s' b' = view s b'"
    and read_hot: "\<lbrakk> inv s; valid b; readable rng after limit;
        ds_read_range S e b rng after limit s = (Ok (HotRead rs), s') \<rbrakk>
      \<Longrightarrow> open_or_archiving (view s b) \<and> rs = page_of rng after limit (v_recs (view s b))"
    and read_archive: "\<lbrakk> inv s; valid b; ds_read_range S e b rng after limit s = (Ok (ArchiveRead key), s') \<rbrakk>
      \<Longrightarrow> \<exists>deleted. v_state (view s b) = Archived key deleted"
    and begin_inv: "\<lbrakk> inv s; valid b; ds_begin_archive S e b s = (bres, s') \<rbrakk> \<Longrightarrow> inv s'"
    and begin_frame: "\<lbrakk> inv s; valid b; ds_begin_archive S e b s = (bres, s'); valid b'; b' \<noteq> b \<rbrakk>
      \<Longrightarrow> view s' b' = view s b'"
    and begin_view: "\<lbrakk> inv s; valid b; ds_begin_archive S e b s = (bres, s') \<rbrakk>
      \<Longrightarrow> claims open_or_archiving v_claim b (view s b) (map_sum id Some bres) (view s' b)"
    and snapshot_inv: "\<lbrakk> inv s; valid (ses_bucket ses); ds_snapshot S e ses s = (sres, s') \<rbrakk> \<Longrightarrow> inv s'"
    and snapshot_view: "\<lbrakk> inv s; valid (ses_bucket ses); ds_snapshot S e ses s = (sres, s'); valid b' \<rbrakk>
      \<Longrightarrow> view s' b' = view s b'"
    and snapshot_ok: "\<lbrakk> inv s; valid (ses_bucket ses); ds_snapshot S e ses s = (Ok rs, s') \<rbrakk>
      \<Longrightarrow> holds_session ses Archiving (view s (ses_bucket ses)) \<and> rs = v_recs (view s (ses_bucket ses))"
    and publish_inv: "\<lbrakk> inv s; valid (ses_bucket ses); ds_publish_archive S e ses key s = (res, s') \<rbrakk> \<Longrightarrow> inv s'"
    and publish_frame: "\<lbrakk> inv s; valid (ses_bucket ses); ds_publish_archive S e ses key s = (res, s'); valid b';
        b' \<noteq> ses_bucket ses \<rbrakk> \<Longrightarrow> view s' b' = view s b'"
    and publish_view: "\<lbrakk> inv s; valid (ses_bucket ses); ds_publish_archive S e ses key s = (res, s') \<rbrakk>
      \<Longrightarrow> performs (holds_session ses Archiving) (v_publish key)
            (view s (ses_bucket ses)) res (view s' (ses_bucket ses))"
    and delete_inv: "\<lbrakk> inv s; valid (ses_bucket ses); ds_delete_hot_bucket S e ses s = (res, s') \<rbrakk> \<Longrightarrow> inv s'"
    and delete_frame: "\<lbrakk> inv s; valid (ses_bucket ses); ds_delete_hot_bucket S e ses s = (res, s'); valid b';
        b' \<noteq> ses_bucket ses \<rbrakk> \<Longrightarrow> view s' b' = view s b'"
    and delete_view: "\<lbrakk> inv s; valid (ses_bucket ses); ds_delete_hot_bucket S e ses s = (res, s') \<rbrakk>
      \<Longrightarrow> performs (\<lambda>v. cleanup_pending (v_state v) \<and> v_gen v = ses_generation ses) v_delete
            (view s (ses_bucket ses)) res (view s' (ses_bucket ses))"
    and abort_inv: "\<lbrakk> inv s; valid (ses_bucket ses); ds_abort_archive S e ses s = (res, s') \<rbrakk> \<Longrightarrow> inv s'"
    and abort_frame: "\<lbrakk> inv s; valid (ses_bucket ses); ds_abort_archive S e ses s = (res, s'); valid b';
        b' \<noteq> ses_bucket ses \<rbrakk> \<Longrightarrow> view s' b' = view s b'"
    and abort_view: "\<lbrakk> inv s; valid (ses_bucket ses); ds_abort_archive S e ses s = (res, s') \<rbrakk>
      \<Longrightarrow> performs (holds_session ses Archiving) v_reopen (view s (ses_bucket ses)) res (view s' (ses_bucket ses))"

section \<open>The contract of an archive store\<close>

text \<open>
  \<open>content a b k\<close> is what the object \<open>k\<close> holds for bucket \<open>b\<close>, and \<open>akey b g rs\<close> the key under which the
  records \<open>rs\<close> of generation \<open>g\<close> are published. An upload may replace only the object whose key it
  returns; everything else that is readable stays readable with the same records.
\<close>

locale archive_store =
  fixes A :: "('f, 'a) ArchiveStore"
    and content :: "'a \<Rightarrow> BucketId \<Rightarrow> string \<Rightarrow> Record list option"
    and ainv :: "'a \<Rightarrow> bool"
    and valid :: "BucketId \<Rightarrow> bool"
    and akey :: "BucketId \<Rightarrow> nat \<Rightarrow> Record list \<Rightarrow> string"
  assumes akey_inj: "\<lbrakk> valid b; valid b'; akey b g rs = akey b' g' rs' \<rbrakk> \<Longrightarrow> b = b' \<and> g = g'"
    and put_inv: "\<lbrakk> ainv a; valid b; list_all (fits b) rs; sorted_by ckey rs;
        as_put_bucket_generation A f b g rs a = (pres, a') \<rbrakk> \<Longrightarrow> ainv a'"
    and put_keeps: "\<lbrakk> ainv a; valid b; list_all (fits b) rs; sorted_by ckey rs;
        as_put_bucket_generation A f b g rs a = (pres, a'); valid b';
        k = akey b' g' rs'; content a b' k = Some x \<rbrakk>
      \<Longrightarrow> content a' b' k = Some x \<or> pres = Ok k"
    and put_ok: "\<lbrakk> ainv a; valid b; list_all (fits b) rs; sorted_by ckey rs;
        as_put_bucket_generation A f b g rs a = (Ok k, a') \<rbrakk>
      \<Longrightarrow> k = akey b g rs \<and> content a' b k = Some rs"
    and get_inv: "\<lbrakk> ainv a; valid b; as_get_bucket A f b k a = (gres, a') \<rbrakk> \<Longrightarrow> ainv a'"
    and get_keeps: "\<lbrakk> ainv a; valid b; as_get_bucket A f b k a = (gres, a') \<rbrakk> \<Longrightarrow> content a' = content a"
    and get_ok: "\<lbrakk> ainv a; valid b; k = akey b g rs'; as_get_bucket A f b k a = (Ok rs, a') \<rbrakk>
      \<Longrightarrow> content a b k = Some rs"

end
