(* ===== verification/Effects.thy ===== *)
theory Effects
  imports Ports
begin

text \<open>
  Asynchronous code as programs over the operations of the ports. A program is a tree: it is done, it
  panics, or it calls one operation and continues with the answer. Every \<open>.await\<close> on a port is one
  node, so that the programs of concurrent tasks interleave at the points where the code suspends.
  Three further nodes read what the environment decides: whether the lease renewer has reported a
  failure, the wall clock, and the choice of the task scheduler.
\<close>

section \<open>Programs\<close>

datatype 'r prog =
    Done 'r
  | Panic
  | Append BucketId Record "unit dur_result \<Rightarrow> 'r prog"
  | ReadState BucketId "BucketState dur_result \<Rightarrow> 'r prog"
  | Discover ArchiveScan "ArchiveWork list dur_result \<Rightarrow> 'r prog"
  | ClaimArchive BucketId duration "ArchiveSession option dur_result \<Rightarrow> 'r prog"
  | ClaimCleanup BucketId duration "ArchiveSession option dur_result \<Rightarrow> 'r prog"
  | RenewLease ArchiveSession duration "unit dur_result \<Rightarrow> 'r prog"
  | DeferArchive ArchiveSession duration "unit dur_result \<Rightarrow> 'r prog"
  | DeferCleanup ArchiveSession duration "unit dur_result \<Rightarrow> 'r prog"
  | ReadRange BucketId TimeRange "Cursor option" nat "DurableBucketRead dur_result \<Rightarrow> 'r prog"
  | BeginArchive BucketId "ArchiveSession dur_result \<Rightarrow> 'r prog"
  | Snapshot ArchiveSession "Record list dur_result \<Rightarrow> 'r prog"
  | PublishArchive ArchiveSession string "unit dur_result \<Rightarrow> 'r prog"
  | DeleteHotBucket ArchiveSession "unit dur_result \<Rightarrow> 'r prog"
  | AbortArchive ArchiveSession "unit dur_result \<Rightarrow> 'r prog"
  | PutGeneration BucketId nat "Record list" "(StoreError, string) result \<Rightarrow> 'r prog"
  | GetBucket BucketId string "(StoreError, Record list) result \<Rightarrow> 'r prog"
  | Renewal "DurableBucketStoreError option \<Rightarrow> 'r prog"
  | Now "datetime \<Rightarrow> 'r prog"
  | Choose "nat \<Rightarrow> 'r prog"

primrec bind_prog :: "'r prog \<Rightarrow> ('r \<Rightarrow> 'q prog) \<Rightarrow> 'q prog" where
  "bind_prog (Done r) h = h r"
| "bind_prog Panic h = Panic"
| "bind_prog (Append b r k) h = Append b r (\<lambda>x. bind_prog (k x) h)"
| "bind_prog (ReadState b k) h = ReadState b (\<lambda>x. bind_prog (k x) h)"
| "bind_prog (Discover sc k) h = Discover sc (\<lambda>x. bind_prog (k x) h)"
| "bind_prog (ClaimArchive b d k) h = ClaimArchive b d (\<lambda>x. bind_prog (k x) h)"
| "bind_prog (ClaimCleanup b d k) h = ClaimCleanup b d (\<lambda>x. bind_prog (k x) h)"
| "bind_prog (RenewLease ses d k) h = RenewLease ses d (\<lambda>x. bind_prog (k x) h)"
| "bind_prog (DeferArchive ses d k) h = DeferArchive ses d (\<lambda>x. bind_prog (k x) h)"
| "bind_prog (DeferCleanup ses d k) h = DeferCleanup ses d (\<lambda>x. bind_prog (k x) h)"
| "bind_prog (ReadRange b rng after limit k) h = ReadRange b rng after limit (\<lambda>x. bind_prog (k x) h)"
| "bind_prog (BeginArchive b k) h = BeginArchive b (\<lambda>x. bind_prog (k x) h)"
| "bind_prog (Snapshot ses k) h = Snapshot ses (\<lambda>x. bind_prog (k x) h)"
| "bind_prog (PublishArchive ses key k) h = PublishArchive ses key (\<lambda>x. bind_prog (k x) h)"
| "bind_prog (DeleteHotBucket ses k) h = DeleteHotBucket ses (\<lambda>x. bind_prog (k x) h)"
| "bind_prog (AbortArchive ses k) h = AbortArchive ses (\<lambda>x. bind_prog (k x) h)"
| "bind_prog (PutGeneration b g rs k) h = PutGeneration b g rs (\<lambda>x. bind_prog (k x) h)"
| "bind_prog (GetBucket b key k) h = GetBucket b key (\<lambda>x. bind_prog (k x) h)"
| "bind_prog (Renewal k) h = Renewal (\<lambda>x. bind_prog (k x) h)"
| "bind_prog (Now k) h = Now (\<lambda>x. bind_prog (k x) h)"
| "bind_prog (Choose k) h = Choose (\<lambda>x. bind_prog (k x) h)"

text \<open>The \<open>?\<close> operator inside a program: an error ends the function with that error.\<close>

definition try_prog :: "('e, 'x) result prog \<Rightarrow> ('x \<Rightarrow> ('e, 'y) result prog) \<Rightarrow> ('e, 'y) result prog" where
  "try_prog p h = bind_prog p (\<lambda>res. case res of Inl e \<Rightarrow> Done (Err e) | Inr x \<Rightarrow> h x)"

section \<open>Execution\<close>

text \<open>
  What the environment answers at each step of a run: the environments of the store and the archive,
  the failure the renewer has reported, the wall clock and the choice of the scheduler.
\<close>

record ('e, 'f) answers =
  w_store :: 'e
  w_archive :: 'f
  w_renewal :: "DurableBucketStoreError option"
  w_now :: datetime
  w_choice :: nat

text \<open>One step of a program on the state of the two stores.\<close>

fun step :: "('e, 's) DurableBucketStore \<Rightarrow> ('f, 'a) ArchiveStore \<Rightarrow> ('e, 'f) answers
    \<Rightarrow> 'r prog \<Rightarrow> 's \<Rightarrow> 'a \<Rightarrow> 'r prog \<times> 's \<times> 'a" where
  "step S A w (Done r) s a = (Done r, s, a)"
| "step S A w Panic s a = (Panic, s, a)"
| "step S A w (Append b r k) s a = (case ds_append S (w_store w) b r s of (x, s') \<Rightarrow> (k x, s', a))"
| "step S A w (ReadState b k) s a = (case ds_state S (w_store w) b s of (x, s') \<Rightarrow> (k x, s', a))"
| "step S A w (Discover sc k) s a = (case ds_discover_archive_work S (w_store w) sc s of (x, s') \<Rightarrow> (k x, s', a))"
| "step S A w (ClaimArchive b d k) s a = (case ds_claim_archive S (w_store w) b d s of (x, s') \<Rightarrow> (k x, s', a))"
| "step S A w (ClaimCleanup b d k) s a = (case ds_claim_cleanup S (w_store w) b d s of (x, s') \<Rightarrow> (k x, s', a))"
| "step S A w (RenewLease ses d k) s a = (case ds_renew_archive_lease S (w_store w) ses d s of (x, s') \<Rightarrow> (k x, s', a))"
| "step S A w (DeferArchive ses d k) s a = (case ds_defer_archive S (w_store w) ses d s of (x, s') \<Rightarrow> (k x, s', a))"
| "step S A w (DeferCleanup ses d k) s a = (case ds_defer_cleanup S (w_store w) ses d s of (x, s') \<Rightarrow> (k x, s', a))"
| "step S A w (ReadRange b rng after limit k) s a = (case ds_read_range S (w_store w) b rng after limit s of (x, s') \<Rightarrow> (k x, s', a))"
| "step S A w (BeginArchive b k) s a = (case ds_begin_archive S (w_store w) b s of (x, s') \<Rightarrow> (k x, s', a))"
| "step S A w (Snapshot ses k) s a = (case ds_snapshot S (w_store w) ses s of (x, s') \<Rightarrow> (k x, s', a))"
| "step S A w (PublishArchive ses key k) s a = (case ds_publish_archive S (w_store w) ses key s of (x, s') \<Rightarrow> (k x, s', a))"
| "step S A w (DeleteHotBucket ses k) s a = (case ds_delete_hot_bucket S (w_store w) ses s of (x, s') \<Rightarrow> (k x, s', a))"
| "step S A w (AbortArchive ses k) s a = (case ds_abort_archive S (w_store w) ses s of (x, s') \<Rightarrow> (k x, s', a))"
| "step S A w (PutGeneration b g rs k) s a = (case as_put_bucket_generation A (w_archive w) b g rs a of (x, a') \<Rightarrow> (k x, s, a'))"
| "step S A w (GetBucket b key k) s a = (case as_get_bucket A (w_archive w) b key a of (x, a') \<Rightarrow> (k x, s, a'))"
| "step S A w (Renewal k) s a = (k (w_renewal w), s, a)"
| "step S A w (Now k) s a = (k (w_now w), s, a)"
| "step S A w (Choose k) s a = (k (w_choice w), s, a)"

text \<open>A complete run; \<open>W n\<close> answers the \<open>n\<close>th call. A program is a well-founded tree, so every run ends: a
  panic is \<open>None\<close>.\<close>

primrec run :: "('e, 's) DurableBucketStore \<Rightarrow> ('f, 'a) ArchiveStore \<Rightarrow> (nat \<Rightarrow> ('e, 'f) answers)
    \<Rightarrow> 'r prog \<Rightarrow> nat \<Rightarrow> 's \<Rightarrow> 'a \<Rightarrow> 'r option \<times> nat \<times> 's \<times> 'a" where
  "run S A W (Done r) n s a = (Some r, n, s, a)"
| "run S A W Panic n s a = (None, n, s, a)"
| "run S A W (Append b r k) n s a = (case ds_append S (w_store (W n)) b r s of (x, s') \<Rightarrow> run S A W (k x) (n + 1) s' a)"
| "run S A W (ReadState b k) n s a = (case ds_state S (w_store (W n)) b s of (x, s') \<Rightarrow> run S A W (k x) (n + 1) s' a)"
| "run S A W (Discover sc k) n s a = (case ds_discover_archive_work S (w_store (W n)) sc s of (x, s') \<Rightarrow> run S A W (k x) (n + 1) s' a)"
| "run S A W (ClaimArchive b d k) n s a = (case ds_claim_archive S (w_store (W n)) b d s of (x, s') \<Rightarrow> run S A W (k x) (n + 1) s' a)"
| "run S A W (ClaimCleanup b d k) n s a = (case ds_claim_cleanup S (w_store (W n)) b d s of (x, s') \<Rightarrow> run S A W (k x) (n + 1) s' a)"
| "run S A W (RenewLease ses d k) n s a = (case ds_renew_archive_lease S (w_store (W n)) ses d s of (x, s') \<Rightarrow> run S A W (k x) (n + 1) s' a)"
| "run S A W (DeferArchive ses d k) n s a = (case ds_defer_archive S (w_store (W n)) ses d s of (x, s') \<Rightarrow> run S A W (k x) (n + 1) s' a)"
| "run S A W (DeferCleanup ses d k) n s a = (case ds_defer_cleanup S (w_store (W n)) ses d s of (x, s') \<Rightarrow> run S A W (k x) (n + 1) s' a)"
| "run S A W (ReadRange b rng after limit k) n s a = (case ds_read_range S (w_store (W n)) b rng after limit s of (x, s') \<Rightarrow> run S A W (k x) (n + 1) s' a)"
| "run S A W (BeginArchive b k) n s a = (case ds_begin_archive S (w_store (W n)) b s of (x, s') \<Rightarrow> run S A W (k x) (n + 1) s' a)"
| "run S A W (Snapshot ses k) n s a = (case ds_snapshot S (w_store (W n)) ses s of (x, s') \<Rightarrow> run S A W (k x) (n + 1) s' a)"
| "run S A W (PublishArchive ses key k) n s a = (case ds_publish_archive S (w_store (W n)) ses key s of (x, s') \<Rightarrow> run S A W (k x) (n + 1) s' a)"
| "run S A W (DeleteHotBucket ses k) n s a = (case ds_delete_hot_bucket S (w_store (W n)) ses s of (x, s') \<Rightarrow> run S A W (k x) (n + 1) s' a)"
| "run S A W (AbortArchive ses k) n s a = (case ds_abort_archive S (w_store (W n)) ses s of (x, s') \<Rightarrow> run S A W (k x) (n + 1) s' a)"
| "run S A W (PutGeneration b g rs k) n s a = (case as_put_bucket_generation A (w_archive (W n)) b g rs a of (x, a') \<Rightarrow> run S A W (k x) (n + 1) s a')"
| "run S A W (GetBucket b key k) n s a = (case as_get_bucket A (w_archive (W n)) b key a of (x, a') \<Rightarrow> run S A W (k x) (n + 1) s a')"
| "run S A W (Renewal k) n s a = run S A W (k (w_renewal (W n))) (n + 1) s a"
| "run S A W (Now k) n s a = run S A W (k (w_now (W n))) (n + 1) s a"
| "run S A W (Choose k) n s a = run S A W (k (w_choice (W n))) (n + 1) s a"

lemma run_bind:
  "run S A W (bind_prog p h) n s a =
     (case run S A W p n s a of
        (None, m, t, b) \<Rightarrow> (None, m, t, b)
      | (Some r, m, t, b) \<Rightarrow> run S A W (h r) m t b)"
  by (induction p arbitrary: n s a) (simp_all split: prod.splits)

text \<open>A run is the iteration of \<open>step\<close>.\<close>

fun finished :: "'r prog \<Rightarrow> 'r option option" where
  "finished (Done r) = Some (Some r)"
| "finished Panic = Some None"
| "finished p = None"

lemma run_finished: "finished p = Some r \<Longrightarrow> run S A W p n s a = (r, n, s, a)"
  by (cases p) auto

lemma run_step:
  "finished p = None \<Longrightarrow>
     run S A W p n s a = (case step S A (W n) p s a of (p', s', a') \<Rightarrow> run S A W p' (n + 1) s' a')"
  by (cases p) (auto split: prod.splits)

section \<open>What the programs of the library may do\<close>

text \<open>
  The discipline that makes concurrent programs safe. \<open>K\<close> collects the snapshots a program has read,
  \<open>U\<close> the uploads it has made. A program uploads under a bucket and generation only what it read from
  a snapshot of a session of that generation, publishes only a key it uploaded for that session, writes
  only records that belong to the bucket, and addresses only valid buckets.
\<close>

type_synonym snapshots = "(BucketId \<times> nat \<times> Record list) set"
type_synonym uploads = "(BucketId \<times> nat \<times> string) set"

primrec disciplined :: "(BucketId \<Rightarrow> bool) \<Rightarrow> (Record \<Rightarrow> bool) \<Rightarrow> 'r prog \<Rightarrow> snapshots \<Rightarrow> uploads \<Rightarrow> bool" where
  "disciplined V R (Done r) = (\<lambda>K U. True)"
| "disciplined V R Panic = (\<lambda>K U. True)"
| "disciplined V R (Append b r k) =
     (\<lambda>K U. V b \<and> fits b r \<and> R r \<and> (\<forall>x. disciplined V R (k x) K U))"
| "disciplined V R (ReadState b k) =
     (\<lambda>K U. V b \<and> (\<forall>x. disciplined V R (k x) K U))"
| "disciplined V R (Discover sc k) =
     (\<lambda>K U. \<forall>x. (case x of Inl _ \<Rightarrow> True | Inr ws \<Rightarrow> \<forall>w \<in> set ws. V (work_bucket w)) \<longrightarrow> disciplined V R (k x) K U)"
| "disciplined V R (ClaimArchive b d k) =
     (\<lambda>K U. V b \<and> (\<forall>x. (case x of Inr (Some ses) \<Rightarrow> ses_bucket ses = b | _ \<Rightarrow> True) \<longrightarrow> disciplined V R (k x) K U))"
| "disciplined V R (ClaimCleanup b d k) =
     (\<lambda>K U. V b \<and> (\<forall>x. (case x of Inr (Some ses) \<Rightarrow> ses_bucket ses = b | _ \<Rightarrow> True) \<longrightarrow> disciplined V R (k x) K U))"
| "disciplined V R (RenewLease ses d k) =
     (\<lambda>K U. V (ses_bucket ses) \<and> (\<forall>x. disciplined V R (k x) K U))"
| "disciplined V R (DeferArchive ses d k) =
     (\<lambda>K U. V (ses_bucket ses) \<and> (\<forall>x. disciplined V R (k x) K U))"
| "disciplined V R (DeferCleanup ses d k) =
     (\<lambda>K U. V (ses_bucket ses) \<and> (\<forall>x. disciplined V R (k x) K U))"
| "disciplined V R (ReadRange b rng after limit k) =
     (\<lambda>K U. V b \<and> (\<forall>x. disciplined V R (k x) K U))"
| "disciplined V R (BeginArchive b k) =
     (\<lambda>K U. V b \<and> (\<forall>x. (case x of Inr ses \<Rightarrow> ses_bucket ses = b | _ \<Rightarrow> True) \<longrightarrow> disciplined V R (k x) K U))"
| "disciplined V R (Snapshot ses k) =
     (\<lambda>K U. V (ses_bucket ses) \<and> (\<forall>x. disciplined V R (k x)
       (case x of Inl _ \<Rightarrow> K | Inr rs \<Rightarrow> insert (ses_bucket ses, ses_generation ses, rs) K) U))"
| "disciplined V R (PublishArchive ses key k) =
     (\<lambda>K U. V (ses_bucket ses) \<and> (ses_bucket ses, ses_generation ses, key) \<in> U
       \<and> (\<forall>x. disciplined V R (k x) K U))"
| "disciplined V R (DeleteHotBucket ses k) =
     (\<lambda>K U. V (ses_bucket ses) \<and> (\<forall>x. disciplined V R (k x) K U))"
| "disciplined V R (AbortArchive ses k) =
     (\<lambda>K U. V (ses_bucket ses) \<and> (\<forall>x. disciplined V R (k x) K U))"
| "disciplined V R (PutGeneration b g rs k) =
     (\<lambda>K U. V b \<and> (b, g, rs) \<in> K \<and> (\<forall>x. disciplined V R (k x) K
       (case x of Inl _ \<Rightarrow> U | Inr key \<Rightarrow> insert (b, g, key) U)))"
| "disciplined V R (GetBucket b key k) =
     (\<lambda>K U. V b \<and> (\<forall>x. disciplined V R (k x) K U))"
| "disciplined V R (Renewal k) =
     (\<lambda>K U. (\<forall>x. disciplined V R (k x) K U))"
| "disciplined V R (Now k) =
     (\<lambda>K U. (\<forall>x. disciplined V R (k x) K U))"
| "disciplined V R (Choose k) =
     (\<lambda>K U. (\<forall>x. disciplined V R (k x) K U))"

lemma disciplined_bind:
  assumes "disciplined V R p K U" and "\<And>r K' U'. \<lbrakk> K \<subseteq> K'; U \<subseteq> U' \<rbrakk> \<Longrightarrow> disciplined V R (h r) K' U'"
  shows "disciplined V R (bind_prog p h) K U"
  using assms
proof (induction p arbitrary: K U)
  case (Snapshot ses k)
  show ?case
    using Snapshot.prems by (auto intro!: Snapshot.IH split: sum.splits)
next
  case (PutGeneration b g rs k)
  show ?case
    using PutGeneration.prems by (auto intro!: PutGeneration.IH split: sum.splits)
qed auto

end
