(* ===== verification/Durable_Table.thy ===== *)
theory Durable_Table
  imports Effects
begin

text \<open>
  The table router, \<open>src/src/application/durable_table.rs\<close>: append with the write window, and range
  queries with pagination. \<open>read_buckets\<close> runs at most four bucket reads at a time; the set of running
  reads is a list of tasks, each at one of its two suspension points or finished, and the scheduler
  chooses at every step which task moves or, when it has finished, is joined. A task of the model does
  not panic. Telemetry and tracing have no effect on the state and are left out.
\<close>

section \<open>Queries and errors\<close>

definition MAX_PARALLEL_BUCKET_READS :: nat where
  "MAX_PARALLEL_BUCKET_READS = 4"

record Query =
  q_partition_key :: PartitionKey
  q_range :: TimeRange
  q_after :: "Cursor option"
  q_limit :: nat

record QueryPage =
  qp_records :: "Record list"
  qp_next :: "Cursor option"

datatype DurableTableError =
    TableBucketReadOnly BucketId BucketState
  | OutsideWriteWindow BucketId BucketKey BucketKey
  | InvalidTimeRange
  | TableDefinitionError DefinitionError
  | TableDurableStore DurableBucketStoreError
  | TableStore StoreError

definition with_definition :: "TableDefinition \<Rightarrow> (DurableTableError, TableDefinition) result" where
  "with_definition definition =
     and_then (map_err TableDefinitionError (validate definition)) (\<lambda>_. Ok definition)"

text \<open>\<open>DurableTable::new\<close>, which panics if the built-in definition is not valid.\<close>

definition default_table :: "TableDefinition option" where
  "default_table =
     (case TableId_new ''pulpitum.default.records'' of
        Inl _ \<Rightarrow> None
      | Inr table_id \<Rightarrow>
          (case chat_messages ''records'' table_id of
             None \<Rightarrow> None
           | Some definition \<Rightarrow>
               (case with_definition definition of Inl _ \<Rightarrow> None | Inr td \<Rightarrow> Some td)))"

section \<open>Append\<close>

definition append_error :: "BucketId \<Rightarrow> DurableBucketStoreError \<Rightarrow> DurableTableError" where
  "append_error bucket error =
     (case error of BucketReadOnly state \<Rightarrow> TableBucketReadOnly bucket state | _ \<Rightarrow> TableDurableStore error)"

definition table_append ::
    "chrono \<Rightarrow> TableDefinition \<Rightarrow> Record \<Rightarrow> (DurableTableError, unit) result prog" where
  "table_append C definition r =
     (case bucket_for C definition r of
        None \<Rightarrow> Panic
      | Some bucket \<Rightarrow> Now (\<lambda>now.
          case writable_buckets_at C definition (bid_partition_key bucket) now of
            None \<Rightarrow> Panic
          | Some [] \<Rightarrow> Panic
          | Some (oldest # others) \<Rightarrow>
              let newest = last (oldest # others) in
              if bid_start bucket < bid_start oldest \<or> bid_start bucket > bid_start newest
              then Done (Err (OutsideWriteWindow bucket (bid_key oldest) (bid_key newest)))
              else Append bucket r (\<lambda>res. Done (map_err (append_error bucket) res))))"

section \<open>Reading one bucket\<close>

datatype read_task =
    Route BucketId
  | Fetch BucketId string
  | Finished "(DurableTableError, Record list) result"

definition after_route :: "BucketId \<Rightarrow> DurableBucketRead dur_result \<Rightarrow> read_task" where
  "after_route bucket routed =
     (case routed of
        Inl error \<Rightarrow> Finished (Err (TableDurableStore error))
      | Inr (HotRead records) \<Rightarrow> Finished (Ok records)
      | Inr (ArchiveRead key) \<Rightarrow> Fetch bucket key)"

definition after_fetch ::
    "TimeRange \<Rightarrow> Cursor option \<Rightarrow> nat \<Rightarrow> (StoreError, Record list) result
     \<Rightarrow> (DurableTableError, Record list) result" where
  "after_fetch rng after limit fetched =
     (case fetched of
        Inl error \<Rightarrow> Err (TableStore error)
      | Inr records \<Rightarrow> Ok (take limit (sort_key ckey (filter (after_cursor after)
          (filter (\<lambda>r. tr_contains rng (rec_event_time r)) records)))))"

definition read_bucket ::
    "BucketId \<Rightarrow> TimeRange \<Rightarrow> Cursor option \<Rightarrow> nat \<Rightarrow> (DurableTableError, Record list) result prog" where
  "read_bucket bucket rng after limit = ReadRange bucket rng after limit (\<lambda>routed.
     case after_route bucket routed of
       Fetch b key \<Rightarrow> GetBucket b key (\<lambda>fetched. Done (after_fetch rng after limit fetched))
     | Finished res \<Rightarrow> Done res
     | Route _ \<Rightarrow> Panic)"

section \<open>Reading the buckets of a range\<close>

fun task_weight :: "read_task \<Rightarrow> nat" where
  "task_weight (Route b) = 3"
| "task_weight (Fetch b key) = 2"
| "task_weight (Finished res) = 1"

text \<open>
  The loop over \<open>join_next\<close>: the scheduler picks a running task. An unfinished task makes its next call;
  a finished task is joined, its records are appended and the next bucket is spawned. The first error
  ends the function, which drops the other tasks.
\<close>

definition drop_nth :: "nat \<Rightarrow> 'x list \<Rightarrow> 'x list" where
  "drop_nth j xs = take j xs @ drop (Suc j) xs"

lemma sum_list_drop_nth: "j < length xs \<Longrightarrow> sum_list (map f xs) = f (xs ! j) + sum_list (map f (drop_nth j xs))"
  for f :: "'x \<Rightarrow> nat"
  by (subst id_take_nth_drop [of j xs]) (simp_all add: drop_nth_def)

lemma sum_list_update:
  "j < length xs \<Longrightarrow> sum_list (map f (xs[j := y])) + f (xs ! j) = sum_list (map f xs) + f y"
  for f :: "'x \<Rightarrow> nat"
  using arg_cong [OF id_take_nth_drop [of j xs], of "\<lambda>l. sum_list (map f l)"]
  by (simp add: upd_conv_take_nth_drop)

lemma after_route_weight: "task_weight (after_route b routed) \<le> 2"
  by (auto simp: after_route_def split: sum.splits DurableBucketRead.splits)

function join_reads ::
    "TimeRange \<Rightarrow> Cursor option \<Rightarrow> nat \<Rightarrow> read_task list \<Rightarrow> BucketId list \<Rightarrow> Record list
     \<Rightarrow> (DurableTableError, Record list) result prog" where
  "join_reads rng after limit tasks buckets result =
     (if tasks = [] then Done (Ok result)
      else Choose (\<lambda>i.
        let j = i mod length tasks in
        case tasks ! j of
          Route b \<Rightarrow> ReadRange b rng after limit (\<lambda>routed.
            join_reads rng after limit (tasks[j := after_route b routed]) buckets result)
        | Fetch b key \<Rightarrow> GetBucket b key (\<lambda>fetched.
            join_reads rng after limit (tasks[j := Finished (after_fetch rng after limit fetched)]) buckets result)
        | Finished (Inl error) \<Rightarrow> Done (Err error)
        | Finished (Inr records) \<Rightarrow>
            (case buckets of
               [] \<Rightarrow> join_reads rng after limit (drop_nth j tasks) [] (result @ records)
             | b # bs \<Rightarrow> join_reads rng after limit (drop_nth j tasks @ [Route b]) bs (result @ records))))"
  by pat_completeness auto
termination
proof (relation "measure (\<lambda>(rng, after, limit, tasks, buckets, result).
    sum_list (map task_weight tasks) + 4 * length buckets)", goal_cases)
  case (2 rng after limit tasks buckets result i j b routed)
  then have "j < length tasks" by simp
  from sum_list_update [OF this, of task_weight "after_route b routed"] 2 after_route_weight [of b routed]
  show ?case by simp
next
  case (3 rng after limit tasks buckets result i j b key fetched)
  then have "j < length tasks" by simp
  from sum_list_update [OF this, of task_weight "Finished (after_fetch rng after limit fetched)"] 3
  show ?case by simp
next
  case (4 rng after limit tasks buckets result i j res records)
  then have "j < length tasks" by simp
  from sum_list_drop_nth [OF this, of task_weight] 4 show ?case by simp
next
  case (5 rng after limit tasks buckets result i j res records b bs)
  then have "j < length tasks" by simp
  from sum_list_drop_nth [OF this, of task_weight] 5 show ?case by simp
qed simp

declare join_reads.simps [simp del]

definition read_buckets ::
    "BucketId list \<Rightarrow> TimeRange \<Rightarrow> Cursor option \<Rightarrow> nat \<Rightarrow> (DurableTableError, Record list) result prog" where
  "read_buckets buckets rng after limit =
     (case buckets of
        [] \<Rightarrow> Done (Ok [])
      | [first] \<Rightarrow> read_bucket first rng after limit
      | first # second # rest \<Rightarrow>
          join_reads rng after limit
            (Route first # Route second # map Route (take (MAX_PARALLEL_BUCKET_READS - 2) rest))
            (drop (MAX_PARALLEL_BUCKET_READS - 2) rest) [])"

section \<open>Queries\<close>

definition query_page ::
    "chrono \<Rightarrow> TableDefinition \<Rightarrow> Query \<Rightarrow> (DurableTableError, QueryPage) result prog" where
  "query_page C definition query =
     (if tr_start (q_range query) \<ge> tr_end (q_range query) then Done (Err InvalidTimeRange)
      else if q_limit query = 0 then Done (Ok \<lparr> qp_records = [], qp_next = q_after query \<rparr>)
      else
        (case buckets_for_range C definition (q_partition_key query) (q_range query) of
           None \<Rightarrow> Panic
         | Some buckets \<Rightarrow>
             bind_prog (read_buckets buckets (q_range query) (q_after query) (saturating_add (q_limit query) 1))
               (\<lambda>res.
                  case res of
                    Inl error \<Rightarrow> Done (Err error)
                  | Inr records \<Rightarrow>
                      let result = sort_key ckey records;
                          has_more = length result > q_limit query;
                          page = take (q_limit query) result
                      in if has_more
                         then (if page = [] then Panic
                               else Done (Ok \<lparr> qp_records = page, qp_next = Some (cursor_of (last page)) \<rparr>))
                         else Done (Ok \<lparr> qp_records = page, qp_next = None \<rparr>))))"

definition query ::
    "chrono \<Rightarrow> TableDefinition \<Rightarrow> PartitionKey \<Rightarrow> TimeRange \<Rightarrow> (DurableTableError, Record list) result prog" where
  "query C definition partition_key rng =
     bind_prog (query_page C definition
         \<lparr> q_partition_key = partition_key, q_range = rng, q_after = None, q_limit = USIZE_MAX \<rparr>)
       (\<lambda>res. case res of Inl error \<Rightarrow> Done (Err error) | Inr page \<Rightarrow> Done (Ok (qp_records page)))"

end
