(* ===== verification/Durable_Archive.thy ===== *)
theory Durable_Archive
  imports Effects
begin

text \<open>
  The direct archival coordinator, \<open>src/src/application/durable_archive.rs\<close>, and the lease renewer it
  shares with the recovery runner. \<open>supervise\<close> runs an operation to its end and then reports the failure
  of the renewer, if it has one, instead of the result. Telemetry has no effect on the state and is
  left out.
\<close>

section \<open>The lease renewer\<close>

text \<open>
  The task that \<open>ArchiveLeaseRenewer::start\<close> spawns, for \<open>n\<close> intervals before the stop signal: it
  returns the failure that it sends through the channel, if a renewal fails.
\<close>

primrec renewer_task :: "ArchiveSession \<Rightarrow> duration \<Rightarrow> nat \<Rightarrow> DurableBucketStoreError option prog" where
  "renewer_task session lease_for 0 = Done None"
| "renewer_task session lease_for (Suc n) = RenewLease session lease_for (\<lambda>res.
     case res of
       Inl error \<Rightarrow> Done (Some error)
     | Inr _ \<Rightarrow> renewer_task session lease_for n)"

definition supervise :: "'x prog \<Rightarrow> 'x dur_result prog" where
  "supervise operation = bind_prog operation (\<lambda>result. Renewal (\<lambda>failure.
     case failure of
       Some error \<Rightarrow> Done (Err error)
     | None \<Rightarrow> Done (Ok result)))"

text \<open>\<open>renewer.supervise(operation).await?\<close> in a function whose error type converts from the store's.\<close>

definition supervised ::
    "(DurableBucketStoreError \<Rightarrow> 'e) \<Rightarrow> 'x prog \<Rightarrow> ('x \<Rightarrow> ('e, 'y) result prog) \<Rightarrow> ('e, 'y) result prog" where
  "supervised into operation h = bind_prog (supervise operation) (\<lambda>res.
     case res of Inl error \<Rightarrow> Done (Err (into error)) | Inr result \<Rightarrow> h result)"

section \<open>The coordinator\<close>

record ArchiveOutcome =
  out_bucket :: BucketId
  out_object_key :: string
  out_records_archived :: nat

datatype DurableArchiveError =
    DurableStore DurableBucketStoreError
  | Store StoreError

text \<open>\<open>renewer.supervise(self.store.abort_archive(session)).await??\<close> followed by the original error.\<close>

definition abort_then ::
    "ArchiveSession \<Rightarrow> DurableArchiveError \<Rightarrow> (DurableArchiveError, 'y) result prog" where
  "abort_then session error =
     supervised DurableStore (AbortArchive session Done) (\<lambda>aborted.
       case aborted of
         Inl e \<Rightarrow> Done (Err (DurableStore e))
       | Inr _ \<Rightarrow> Done (Err error))"

definition archive_claimed_bucket ::
    "BucketId \<Rightarrow> ArchiveSession \<Rightarrow> (DurableArchiveError, ArchiveOutcome) result prog" where
  "archive_claimed_bucket bucket session =
     supervised DurableStore (Snapshot session Done) (\<lambda>snapshot.
       case snapshot of
         Inl error \<Rightarrow> abort_then session (DurableStore error)
       | Inr records \<Rightarrow>
           supervised DurableStore (PutGeneration bucket (ses_generation session) records Done) (\<lambda>upload.
             case upload of
               Inl error \<Rightarrow> abort_then session (Store error)
             | Inr key \<Rightarrow>
                 supervised DurableStore (PublishArchive session key Done) (\<lambda>published.
                   case published of
                     Inl error \<Rightarrow> Done (Err (DurableStore error))
                   | Inr _ \<Rightarrow>
                       supervised DurableStore (DeleteHotBucket session Done) (\<lambda>deleted.
                         case deleted of
                           Inl error \<Rightarrow> Done (Err (DurableStore error))
                         | Inr _ \<Rightarrow> Done (Ok \<lparr> out_bucket = bucket, out_object_key = key,
                                            out_records_archived = length records \<rparr>)))))"

definition archive_bucket :: "BucketId \<Rightarrow> (DurableArchiveError, ArchiveOutcome) result prog" where
  "archive_bucket bucket = BeginArchive bucket (\<lambda>begun.
     case begun of
       Inl error \<Rightarrow> Done (Err (DurableStore error))
     | Inr session \<Rightarrow> archive_claimed_bucket bucket session)"

section \<open>The coordinator keeps the discipline\<close>

lemma disciplined_supervised:
  assumes "disciplined V R p K U"
    and "\<And>x K' U'. \<lbrakk> K \<subseteq> K'; U \<subseteq> U' \<rbrakk> \<Longrightarrow> disciplined V R (h x) K' U'"
  shows "disciplined V R (supervised into p h) K U"
  unfolding supervised_def supervise_def
  by (intro disciplined_bind assms(1)) (auto split: option.splits sum.splits intro: assms(2))

lemma renewer_task_disciplined: "V (ses_bucket session) \<Longrightarrow> disciplined V R (renewer_task session d n) K U"
  by (induction n arbitrary: K U) (auto split: sum.splits)

lemma supervised_simps [simp]:
  "supervised into (Snapshot ses Done) h = Snapshot ses (\<lambda>x. Renewal (\<lambda>f.
     case f of Some e \<Rightarrow> Done (Err (into e)) | None \<Rightarrow> h x))"
  "supervised into' (PutGeneration b g rs Done) h2 = PutGeneration b g rs (\<lambda>x. Renewal (\<lambda>f.
     case f of Some e \<Rightarrow> Done (Err (into' e)) | None \<Rightarrow> h2 x))"
  "supervised into (PublishArchive ses key Done) h3 = PublishArchive ses key (\<lambda>x. Renewal (\<lambda>f.
     case f of Some e \<Rightarrow> Done (Err (into e)) | None \<Rightarrow> h3 x))"
  "supervised into (DeleteHotBucket ses Done) h3 = DeleteHotBucket ses (\<lambda>x. Renewal (\<lambda>f.
     case f of Some e \<Rightarrow> Done (Err (into e)) | None \<Rightarrow> h3 x))"
  "supervised into (AbortArchive ses Done) h3 = AbortArchive ses (\<lambda>x. Renewal (\<lambda>f.
     case f of Some e \<Rightarrow> Done (Err (into e)) | None \<Rightarrow> h3 x))"
  "supervised into (DeferArchive ses d Done) h3 = DeferArchive ses d (\<lambda>x. Renewal (\<lambda>f.
     case f of Some e \<Rightarrow> Done (Err (into e)) | None \<Rightarrow> h3 x))"
  "supervised into (DeferCleanup ses d Done) h3 = DeferCleanup ses d (\<lambda>x. Renewal (\<lambda>f.
     case f of Some e \<Rightarrow> Done (Err (into e)) | None \<Rightarrow> h3 x))"
  "supervised into (ReadState b Done) h4 = ReadState b (\<lambda>x. Renewal (\<lambda>f.
     case f of Some e \<Rightarrow> Done (Err (into e)) | None \<Rightarrow> h4 x))"
  by (auto simp: supervised_def supervise_def fun_eq_iff split: option.splits)

lemma abort_then_disciplined:
  "V (ses_bucket session) \<Longrightarrow> disciplined V R (abort_then session error) K U"
  by (auto simp: abort_then_def split: option.splits sum.splits)

lemma archive_claimed_bucket_disciplined:
  "\<lbrakk> V bucket; ses_bucket session = bucket \<rbrakk>
     \<Longrightarrow> disciplined V R (archive_claimed_bucket bucket session) K U"
  by (auto simp: archive_claimed_bucket_def abort_then_disciplined split: option.splits sum.splits)

lemma archive_bucket_disciplined: "V bucket \<Longrightarrow> disciplined V R (archive_bucket bucket) K U"
  by (auto simp: archive_bucket_def archive_claimed_bucket_disciplined split: sum.splits)

end
