(* ===== verification/Archive_Recovery.thy ===== *)
theory Archive_Recovery
  imports Durable_Archive
begin

text \<open>
  The recovery runner, \<open>src/src/application/durable_archive_recovery.rs\<close>: one bounded cycle discovers
  work, claims each item with an expiring fence, and commits it or schedules a retry. The counters of
  the outcome travel with the result, since the source updates them through a mutable reference.
\<close>

section \<open>Configuration and errors\<close>

record ArchiveRecoveryConfig =
  rc_eligible_before :: datetime
  rc_scan_limit :: nat
  rc_lease_for :: duration
  rc_lease_renewal_interval :: duration
  rc_retry_backoff :: duration

datatype ArchiveRecoveryError =
    InvalidConfig
  | RecoveryStore DurableBucketStoreError
  | RecoveryArchive DurableArchiveError

definition recovery_validate :: "ArchiveRecoveryConfig \<Rightarrow> (ArchiveRecoveryError, unit) result" where
  "recovery_validate config =
     (if rc_scan_limit config = 0
       \<or> rc_lease_for config = 0
       \<or> rc_lease_renewal_interval config = 0
       \<or> rc_lease_renewal_interval config \<ge> rc_lease_for config
       \<or> rc_retry_backoff config = 0
      then Err InvalidConfig else Ok ())"

record ArchiveRecoveryOutcome =
  ro_discovered :: nat
  ro_claimed :: nat
  ro_completed :: nat
  ro_deferred :: nat

definition recovery_new :: "ArchiveRecoveryConfig \<Rightarrow> (ArchiveRecoveryError, ArchiveRecoveryConfig) result" where
  "recovery_new config = and_then (recovery_validate config) (\<lambda>_. Ok config)"

section \<open>One cycle\<close>

type_synonym recovery = "((ArchiveRecoveryError, unit) result \<times> ArchiveRecoveryOutcome) prog"

text \<open>\<open>renewer.supervise(operation).await?\<close> with the counters kept.\<close>

definition supervised_out ::
    "'x prog \<Rightarrow> ArchiveRecoveryOutcome \<Rightarrow> ('x \<Rightarrow> recovery) \<Rightarrow> recovery" where
  "supervised_out operation outcome h = bind_prog (supervise operation) (\<lambda>res.
     case res of Inl error \<Rightarrow> Done (Err (RecoveryStore error), outcome) | Inr result \<Rightarrow> h result)"

definition defer_cutover ::
    "ArchiveRecoveryConfig \<Rightarrow> ArchiveSession \<Rightarrow> ArchiveRecoveryOutcome \<Rightarrow> DurableBucketStoreError \<Rightarrow> recovery" where
  "defer_cutover config session outcome error =
     supervised_out (DeferArchive session (rc_retry_backoff config) Done) outcome (\<lambda>deferred.
       case deferred of
         Inl e \<Rightarrow> Done (Err (RecoveryStore e), outcome)
       | Inr _ \<Rightarrow> Done (Err (RecoveryStore error), outcome\<lparr> ro_deferred := ro_deferred outcome + 1 \<rparr>))"

definition finish_cleanup ::
    "ArchiveRecoveryConfig \<Rightarrow> ArchiveSession \<Rightarrow> ArchiveRecoveryOutcome \<Rightarrow> recovery" where
  "finish_cleanup config session outcome =
     supervised_out (DeleteHotBucket session Done) outcome (\<lambda>cleanup.
       case cleanup of
         Inr _ \<Rightarrow> Done (Ok (), outcome\<lparr> ro_completed := ro_completed outcome + 1 \<rparr>)
       | Inl error \<Rightarrow>
           supervised_out (DeferCleanup session (rc_retry_backoff config) Done) outcome (\<lambda>deferred.
             case deferred of
               Inl e \<Rightarrow> Done (Err (RecoveryStore e), outcome)
             | Inr _ \<Rightarrow> Done (Err (RecoveryStore error), outcome\<lparr> ro_deferred := ro_deferred outcome + 1 \<rparr>)))"

text \<open>After a failed publication the durable routing state decides what to do.\<close>

definition recover_after_publish ::
    "ArchiveRecoveryConfig \<Rightarrow> BucketId \<Rightarrow> ArchiveSession \<Rightarrow> ArchiveRecoveryOutcome \<Rightarrow> DurableBucketStoreError
     \<Rightarrow> recovery" where
  "recover_after_publish config bucket session outcome error =
     supervised_out (ReadState bucket Done) outcome (\<lambda>state.
       case state of
         Inl e \<Rightarrow> Done (Err (RecoveryStore e), outcome)
       | Inr (Archived _ False) \<Rightarrow> finish_cleanup config session outcome
       | Inr Archiving \<Rightarrow> defer_cutover config session outcome error
       | Inr _ \<Rightarrow> Done (Err (RecoveryStore error), outcome))"

definition recover_claimed_cutover ::
    "ArchiveRecoveryConfig \<Rightarrow> BucketId \<Rightarrow> ArchiveSession \<Rightarrow> ArchiveRecoveryOutcome \<Rightarrow> recovery" where
  "recover_claimed_cutover config bucket session outcome =
     supervised_out (Snapshot session Done) outcome (\<lambda>snapshot.
       case snapshot of
         Inl error \<Rightarrow> defer_cutover config session outcome error
       | Inr records \<Rightarrow>
           supervised_out (PutGeneration bucket (ses_generation session) records Done) outcome (\<lambda>upload.
             case upload of
               Inl error \<Rightarrow>
                 bind_prog (defer_cutover config session outcome OperationFailed) (\<lambda>(deferred, outcome).
                   case deferred of
                     Inl e \<Rightarrow> Done (Err e, outcome)
                   | Inr _ \<Rightarrow> Done (Err (RecoveryArchive (Store error)), outcome))
             | Inr key \<Rightarrow>
                 supervised_out (PublishArchive session key Done) outcome (\<lambda>published.
                   case published of
                     Inl error \<Rightarrow> recover_after_publish config bucket session outcome error
                   | Inr _ \<Rightarrow> finish_cleanup config session outcome)))"

definition recover_cutover ::
    "ArchiveRecoveryConfig \<Rightarrow> BucketId \<Rightarrow> ArchiveRecoveryOutcome \<Rightarrow> recovery" where
  "recover_cutover config bucket outcome = ClaimArchive bucket (rc_lease_for config) (\<lambda>claim.
     case claim of
       Inl e \<Rightarrow> Done (Err (RecoveryStore e), outcome)
     | Inr None \<Rightarrow> Done (Ok (), outcome)
     | Inr (Some session) \<Rightarrow>
         recover_claimed_cutover config bucket session (outcome\<lparr> ro_claimed := ro_claimed outcome + 1 \<rparr>))"

definition recover_cleanup ::
    "ArchiveRecoveryConfig \<Rightarrow> BucketId \<Rightarrow> ArchiveRecoveryOutcome \<Rightarrow> recovery" where
  "recover_cleanup config bucket outcome = ClaimCleanup bucket (rc_lease_for config) (\<lambda>claim.
     case claim of
       Inl e \<Rightarrow> Done (Err (RecoveryStore e), outcome)
     | Inr None \<Rightarrow> Done (Ok (), outcome)
     | Inr (Some session) \<Rightarrow>
         finish_cleanup config session (outcome\<lparr> ro_claimed := ro_claimed outcome + 1 \<rparr>))"

fun recover_items ::
    "ArchiveRecoveryConfig \<Rightarrow> ArchiveWork list \<Rightarrow> ArchiveRecoveryOutcome
     \<Rightarrow> (ArchiveRecoveryError, ArchiveRecoveryOutcome) result prog" where
  "recover_items config [] outcome = Done (Ok outcome)"
| "recover_items config (item # work) outcome =
     bind_prog
       (case item of
          Cleanup bucket \<Rightarrow> recover_cleanup config bucket outcome
        | Cutover bucket \<Rightarrow> recover_cutover config bucket outcome)
       (\<lambda>(result, outcome).
          case result of
            Inl error \<Rightarrow> Done (Err error)
          | Inr _ \<Rightarrow> recover_items config work outcome)"

definition run_once ::
    "ArchiveRecoveryConfig \<Rightarrow> (ArchiveRecoveryError, ArchiveRecoveryOutcome) result prog" where
  "run_once config =
     Discover \<lparr> scan_eligible_before = rc_eligible_before config, scan_limit = rc_scan_limit config \<rparr> (\<lambda>work.
       case work of
         Inl error \<Rightarrow> Done (Err (RecoveryStore error))
       | Inr items \<Rightarrow>
           recover_items config items
             \<lparr> ro_discovered = length items mod 2 ^ 32, ro_claimed = 0, ro_completed = 0, ro_deferred = 0 \<rparr>)"

text \<open>The loop of \<open>pulpitum-archiver\<close>, for \<open>n\<close> rounds: the outcome of a cycle is only logged, and the sleep between two
  cycles does nothing to the stores.\<close>

fun archiver_loop :: "nat \<Rightarrow> ArchiveRecoveryConfig \<Rightarrow> unit prog" where
  "archiver_loop 0 config = Done ()"
| "archiver_loop (Suc n) config = bind_prog (run_once config) (\<lambda>outcome. archiver_loop n config)"

section \<open>The runner keeps the discipline\<close>

lemma supervised_out_simps [simp]:
  "supervised_out (Snapshot ses Done) out h = Snapshot ses (\<lambda>x. Renewal (\<lambda>f.
     case f of Some e \<Rightarrow> Done (Err (RecoveryStore e), out) | None \<Rightarrow> h x))"
  "supervised_out (PutGeneration b g rs Done) out h2 = PutGeneration b g rs (\<lambda>x. Renewal (\<lambda>f.
     case f of Some e \<Rightarrow> Done (Err (RecoveryStore e), out) | None \<Rightarrow> h2 x))"
  "supervised_out (PublishArchive ses key Done) out h3 = PublishArchive ses key (\<lambda>x. Renewal (\<lambda>f.
     case f of Some e \<Rightarrow> Done (Err (RecoveryStore e), out) | None \<Rightarrow> h3 x))"
  "supervised_out (DeleteHotBucket ses Done) out h3 = DeleteHotBucket ses (\<lambda>x. Renewal (\<lambda>f.
     case f of Some e \<Rightarrow> Done (Err (RecoveryStore e), out) | None \<Rightarrow> h3 x))"
  "supervised_out (DeferArchive ses d Done) out h3 = DeferArchive ses d (\<lambda>x. Renewal (\<lambda>f.
     case f of Some e \<Rightarrow> Done (Err (RecoveryStore e), out) | None \<Rightarrow> h3 x))"
  "supervised_out (DeferCleanup ses d Done) out h3 = DeferCleanup ses d (\<lambda>x. Renewal (\<lambda>f.
     case f of Some e \<Rightarrow> Done (Err (RecoveryStore e), out) | None \<Rightarrow> h3 x))"
  "supervised_out (ReadState b Done) out h4 = ReadState b (\<lambda>x. Renewal (\<lambda>f.
     case f of Some e \<Rightarrow> Done (Err (RecoveryStore e), out) | None \<Rightarrow> h4 x))"
  by (auto simp: supervised_out_def supervise_def fun_eq_iff split: option.splits)

lemma defer_cutover_disciplined:
  "V (ses_bucket session) \<Longrightarrow> disciplined V R (defer_cutover config session outcome error) K U"
  by (auto simp: defer_cutover_def split: option.splits sum.splits)

lemma finish_cleanup_disciplined:
  "V (ses_bucket session) \<Longrightarrow> disciplined V R (finish_cleanup config session outcome) K U"
  by (auto simp: finish_cleanup_def split: option.splits sum.splits)

lemma recover_after_publish_disciplined:
  "\<lbrakk> V bucket; ses_bucket session = bucket \<rbrakk>
     \<Longrightarrow> disciplined V R (recover_after_publish config bucket session outcome error) K U"
  by (auto simp: recover_after_publish_def finish_cleanup_disciplined defer_cutover_disciplined
      split: option.splits sum.splits BucketState.splits bool.splits)

lemma recover_claimed_cutover_disciplined:
  assumes "V bucket" and "ses_bucket session = bucket"
  shows "disciplined V R (recover_claimed_cutover config bucket session outcome) K U"
  using assms
  by (auto simp: recover_claimed_cutover_def recover_after_publish_disciplined finish_cleanup_disciplined
      defer_cutover_disciplined intro!: disciplined_bind split: option.splits sum.splits prod.splits)

lemma recover_cutover_disciplined: "V bucket \<Longrightarrow> disciplined V R (recover_cutover config bucket outcome) K U"
  by (auto simp: recover_cutover_def recover_claimed_cutover_disciplined split: sum.splits option.splits)

lemma recover_cleanup_disciplined: "V bucket \<Longrightarrow> disciplined V R (recover_cleanup config bucket outcome) K U"
  by (auto simp: recover_cleanup_def finish_cleanup_disciplined split: sum.splits option.splits)

lemma recover_items_disciplined:
  "\<forall>w \<in> set work. V (work_bucket w) \<Longrightarrow> disciplined V R (recover_items config work outcome) K U"
  by (induction config work outcome arbitrary: K U rule: recover_items.induct)
    (auto intro!: disciplined_bind recover_cutover_disciplined recover_cleanup_disciplined
      split: ArchiveWork.splits sum.splits)

lemma run_once_disciplined: "disciplined V R (run_once config) K U"
  by (auto simp: run_once_def recover_items_disciplined split: sum.splits)

lemma archiver_loop_disciplined: "disciplined V R (archiver_loop n config) K U"
  by (induction n arbitrary: K U) (auto intro!: disciplined_bind run_once_disciplined)

end
