(* ===== verification/Archival_System.thy ===== *)
theory Archival_System
  imports Archive_Recovery "HOL-Library.Multiset"
begin

text \<open>
  The whole system: any number of tasks that share one bucket store and one archive store, interleaved
  at every \<open>await\<close>, each of which may disappear between two steps. \<open>T\<close> says which tasks are started. The ghost components count, for every
  bucket, the records whose append was attempted and those whose append was acknowledged. The locale
  \<open>archival_system\<close> combines the contracts of the two ports and proves once, for every pair of stores
  that keeps them, that an acknowledged record is never lost and that a read returns only records whose
  append was attempted.
\<close>

section \<open>Configurations and steps\<close>

record ('s, 'a) config =
  cf_store :: 's
  cf_archive :: 'a
  cf_tasks :: "nat \<Rightarrow> unit prog option"
  cf_attempted :: "BucketId \<Rightarrow> Record multiset"
  cf_acked :: "BucketId \<Rightarrow> Record multiset"

definition detach :: "'r prog \<Rightarrow> unit prog" where
  "detach p = bind_prog p (\<lambda>_. Done ())"

fun note_attempt :: "'r prog \<Rightarrow> (BucketId \<Rightarrow> Record multiset) \<Rightarrow> BucketId \<Rightarrow> Record multiset" where
  "note_attempt (Append b r k) f = f(b := add_mset r (f b))"
| "note_attempt p f = f"

fun note_ack :: "('e, 's) DurableBucketStore \<Rightarrow> 'e \<Rightarrow> 's \<Rightarrow> 'r prog \<Rightarrow> (BucketId \<Rightarrow> Record multiset)
    \<Rightarrow> BucketId \<Rightarrow> Record multiset" where
  "note_ack S e s (Append b r k) f =
     (case fst (ds_append S e b r s) of Inl _ \<Rightarrow> f | Inr _ \<Rightarrow> f(b := add_mset r (f b)))"
| "note_ack S e s p f = f"

inductive sys_step ::
    "('e, 's) DurableBucketStore \<Rightarrow> ('f, 'a) ArchiveStore \<Rightarrow> (unit prog \<Rightarrow> bool)
     \<Rightarrow> ('s, 'a) config \<Rightarrow> ('s, 'a) config \<Rightarrow> bool"
  for S A T where
  spawn: "\<lbrakk> cf_tasks c i = None; T p \<rbrakk>
    \<Longrightarrow> sys_step S A T c (c\<lparr> cf_tasks := (cf_tasks c)(i \<mapsto> p) \<rparr>)"
| vanish: "sys_step S A T c (c\<lparr> cf_tasks := (cf_tasks c)(i := None) \<rparr>)"
| advance: "\<lbrakk> cf_tasks c i = Some p; step S A w p (cf_store c) (cf_archive c) = (p', s', a') \<rbrakk>
    \<Longrightarrow> sys_step S A T c
          (c\<lparr> cf_store := s', cf_archive := a', cf_tasks := (cf_tasks c)(i \<mapsto> p'),
              cf_attempted := note_attempt p (cf_attempted c),
              cf_acked := note_ack S (w_store w) (cf_store c) p (cf_acked c) \<rparr>)"

text \<open>The system starts without tasks on an empty store.\<close>

definition sys_init :: "'s \<Rightarrow> 'a \<Rightarrow> ('s, 'a) config" where
  "sys_init s a = \<lparr> cf_store = s, cf_archive = a, cf_tasks = (\<lambda>_. None),
     cf_attempted = (\<lambda>_. {#}), cf_acked = (\<lambda>_. {#}) \<rparr>"

definition reachable ::
    "('e, 's) DurableBucketStore \<Rightarrow> ('f, 'a) ArchiveStore \<Rightarrow> (unit prog \<Rightarrow> bool)
     \<Rightarrow> 's \<Rightarrow> 'a \<Rightarrow> ('s, 'a) config \<Rightarrow> bool" where
  "reachable S A T s a c \<longleftrightarrow> (sys_step S A T)\<^sup>*\<^sup>* (sys_init s a) c"

text \<open>The records that a read of the bucket routes to.\<close>

definition logical :: "('a \<Rightarrow> BucketId \<Rightarrow> string \<Rightarrow> Record list option) \<Rightarrow> 'a \<Rightarrow> BucketId \<Rightarrow> bucket_view
    \<Rightarrow> Record list option" where
  "logical content a b v = (case v_state v of Archived k _ \<Rightarrow> content a b k | _ \<Rightarrow> Some (v_recs v))"

lemma detach_disciplined: "disciplined V R p {} {} \<Longrightarrow> disciplined V R (detach p) {} {}"
  unfolding detach_def by (rule disciplined_bind) auto

section \<open>The invariant\<close>

locale archival_system =
  bucket_store S view inv valid storable readable + archive_store A content ainv valid akey
  for S :: "('e, 's) DurableBucketStore" and view inv valid storable readable
    and A :: "('f, 'a) ArchiveStore" and content ainv akey
begin

text \<open>
  \<open>F b g\<close> is what bucket \<open>b\<close> held when generation \<open>g\<close> was claimed. While the bucket is archiving it
  still holds that; once it is archived its object holds the records frozen at the generation that
  published it.
\<close>

definition archived_ok where
  "archived_ok con F b v k rs \<longleftrightarrow>
     (\<exists>g \<le> v_gen v. rs = F b g \<and> k = akey b g rs \<and> con b k = Some rs) \<and> list_all (fits b) rs"

definition bucket_ok where
  "bucket_ok con F b v att ack \<longleftrightarrow>
     list_all (fits b) (v_recs v)
     \<and> (v_state v = Archiving \<longrightarrow> v_recs v = F b (v_gen v))
     \<and> (case v_state v of
          Archived k _ \<Rightarrow> (\<exists>rs. archived_ok con F b v k rs \<and> ack \<subseteq># mset rs \<and> mset rs \<subseteq># att)
        | _ \<Rightarrow> ack \<subseteq># mset (v_recs v) \<and> mset (v_recs v) \<subseteq># att)"

definition snap_fact where
  "snap_fact gen F b g rs \<longleftrightarrow> g \<le> gen b \<and> rs = F b g \<and> list_all (fits b) rs \<and> sorted_by ckey rs"

definition upload_fact where
  "upload_fact con gen F b g k \<longleftrightarrow> g \<le> gen b \<and> k = akey b g (F b g) \<and> con b k = Some (F b g)"

definition facts_ok where
  "facts_ok con gen F K U \<longleftrightarrow> (\<forall>b g rs. (b, g, rs) \<in> K \<longrightarrow> valid b \<longrightarrow> snap_fact gen F b g rs)
     \<and> (\<forall>b g k. (b, g, k) \<in> U \<longrightarrow> valid b \<longrightarrow> upload_fact con gen F b g k)"

definition task_ok where
  "task_ok con gen F p \<longleftrightarrow> (\<exists>K U. disciplined valid storable p K U \<and> facts_ok con gen F K U)"

definition env_ok where
  "env_ok vw con F att ack T \<longleftrightarrow>
     (\<forall>b. valid b \<longrightarrow> bucket_ok con F b (vw b) (att b) (ack b))
     \<and> (\<forall>p \<in> T. task_ok con (\<lambda>b. v_gen (vw b)) F p)"

definition sys_inv :: "('s, 'a) config \<Rightarrow> bool" where
  "sys_inv c \<longleftrightarrow> inv (cf_store c) \<and> ainv (cf_archive c)
     \<and> (\<exists>F. env_ok (view (cf_store c)) (content (cf_archive c)) F (cf_attempted c) (cf_acked c) (ran (cf_tasks c)))"

text \<open>What a step may change without disturbing the facts of the other tasks and buckets.\<close>

definition extends where
  "extends con gen F con' gen' F' \<longleftrightarrow> (\<forall>b. valid b \<longrightarrow> gen b \<le> (gen' b :: nat)
     \<and> (\<forall>g \<le> gen b. F' b g = F b g
        \<and> (con b (akey b g (F b g)) = Some (F b g) \<longrightarrow> con' b (akey b g (F b g)) = Some (F b g))))"

lemma extendsD:
  assumes "extends con gen F con' gen' F'" and "valid b"
  shows "gen b \<le> gen' b" "g \<le> gen b \<Longrightarrow> F' b g = F b g"
    "g \<le> gen b \<Longrightarrow> con b (akey b g (F b g)) = Some (F b g) \<Longrightarrow> con' b (akey b g (F b g)) = Some (F b g)"
  using assms by (auto simp: extends_def)

lemma extends_refl [simp]: "extends con gen F con gen F"
  by (simp add: extends_def)

lemma facts_ok_extends:
  assumes "facts_ok con gen F K U" and "extends con gen F con' gen' F'"
  shows "facts_ok con' gen' F' K U"
  unfolding facts_ok_def
proof (intro conjI allI impI)
  fix b g rs
  assume "(b, g, rs) \<in> K" "valid b"
  then have "snap_fact gen F b g rs" using assms(1) by (simp add: facts_ok_def)
  then show "snap_fact gen' F' b g rs"
    using extendsD(1) [OF assms(2) \<open>valid b\<close>] extendsD(2) [OF assms(2) \<open>valid b\<close>, of g]
    by (auto simp: snap_fact_def)
next
  fix b g k
  assume "(b, g, k) \<in> U" "valid b"
  then have "upload_fact con gen F b g k" using assms(1) by (simp add: facts_ok_def)
  then show "upload_fact con' gen' F' b g k"
    using extendsD(1) [OF assms(2) \<open>valid b\<close>] extendsD(2,3) [OF assms(2) \<open>valid b\<close>, of g]
    by (auto simp: upload_fact_def)
qed

lemma task_ok_extends:
  "task_ok con gen F p \<Longrightarrow> extends con gen F con' gen' F' \<Longrightarrow> task_ok con' gen' F' p"
  unfolding task_ok_def using facts_ok_extends by blast

lemma bucket_ok_extends:
  assumes ok: "bucket_ok con F b v att ack" and ex: "extends con gen F con' gen' F'" and "valid b"
    and "gen b = v_gen v"
  shows "bucket_ok con' F' b v att ack"
proof -
  have "archived_ok con' F' b v k rs" if ar: "archived_ok con F b v k rs" for k rs
  proof -
    from ar obtain g where g: "g \<le> v_gen v" "rs = F b g" "k = akey b g rs" "con b k = Some rs"
      "list_all (fits b) rs"
      by (auto simp: archived_ok_def)
    then show ?thesis
      using extendsD(2,3) [OF ex \<open>valid b\<close>, of g] assms(4) by (auto simp: archived_ok_def)
  qed
  moreover have "F' b (v_gen v) = F b (v_gen v)"
    using extendsD(2) [OF ex \<open>valid b\<close>] assms(4) by simp
  ultimately show ?thesis
    using ok unfolding bucket_ok_def by (fastforce split: BucketState.splits)
qed

text \<open>A step changes at most the bucket \<open>b0\<close>.\<close>

lemma env_ok_step:
  assumes env: "env_ok vw con F att ack T"
    and frame: "\<And>b. valid b \<Longrightarrow> b \<noteq> b0 \<Longrightarrow> vw' b = vw b \<and> att' b = att b \<and> ack' b = ack b"
    and ex: "extends con (\<lambda>b. v_gen (vw b)) F con' (\<lambda>b. v_gen (vw' b)) F'"
    and b0: "valid b0 \<Longrightarrow> bucket_ok con' F' b0 (vw' b0) (att' b0) (ack' b0)"
    and T: "\<And>q. q \<in> T' \<Longrightarrow> q \<in> T \<or> task_ok con' (\<lambda>b. v_gen (vw' b)) F' q"
  shows "env_ok vw' con' F' att' ack' T'"
  unfolding env_ok_def
proof (intro conjI allI impI ballI)
  fix b
  assume b: "valid b"
  show "bucket_ok con' F' b (vw' b) (att' b) (ack' b)"
  proof (cases "b = b0")
    case False
    then have "bucket_ok con F b (vw' b) (att' b) (ack' b)"
      using env frame [OF b False] b by (simp add: env_ok_def)
    then show ?thesis
      by (rule bucket_ok_extends [OF _ ex b]) (simp add: frame [OF b False])
  qed (use b b0 in simp)
next
  fix p
  assume "p \<in> T'"
  with T have "p \<in> T \<or> task_ok con' (\<lambda>b. v_gen (vw' b)) F' p" by blast
  then show "task_ok con' (\<lambda>b. v_gen (vw' b)) F' p"
    using env task_ok_extends [OF _ ex] by (auto simp: env_ok_def)
qed

section \<open>The steps of a task\<close>

lemma quiet_case:
  assumes "env_ok (view s) con F att ack T" and "\<And>b. valid b \<Longrightarrow> view s' b = view s b"
    and "disciplined valid storable p K U" and "facts_ok con (\<lambda>b. v_gen (view s b)) F K U"
  shows "env_ok (view s') con F att ack (insert p T)"
proof (rule env_ok_step [OF assms(1), where ?b0.0 = undefined])
  show ex: "extends con (\<lambda>b. v_gen (view s b)) F con (\<lambda>b. v_gen (view s' b)) F"
    using assms(2) by (simp add: extends_def)
  show "bucket_ok con F undefined (view s' undefined) (att undefined) (ack undefined)" if "valid undefined"
    using assms(1,2) that by (simp add: env_ok_def)
  fix q
  assume "q \<in> insert p T"
  then show "q \<in> T \<or> task_ok con (\<lambda>b. v_gen (view s' b)) F q"
    using assms(3) facts_ok_extends [OF assms(4) ex] by (auto simp: task_ok_def)
qed (use assms(2) in simp)

lemma performs_case:
  assumes env: "env_ok (view s) con F att ack T"
    and frame: "\<And>b. valid b \<Longrightarrow> b \<noteq> b0 \<Longrightarrow> view s' b = view s b \<and> att' b = att b \<and> ack' b = ack b"
    and p: "disciplined valid storable p K U" "facts_ok con (\<lambda>b. v_gen (view s b)) F K U"
    and gen: "v_gen (view s' b0) = v_gen (view s b0)"
    and b0: "valid b0 \<Longrightarrow> bucket_ok con F b0 (view s' b0) (att' b0) (ack' b0)"
  shows "env_ok (view s') con F att' ack' (insert p T)"
proof (rule env_ok_step [OF env frame _ b0])
  have "v_gen (view s' b) = v_gen (view s b)" if "valid b" for b
    using gen frame [OF that] by (cases "b = b0") auto
  then show ex: "extends con (\<lambda>b. v_gen (view s b)) F con (\<lambda>b. v_gen (view s' b)) F"
    by (simp add: extends_def)
  fix q
  assume "q \<in> insert p T"
  then show "q \<in> T \<or> task_ok con (\<lambda>b. v_gen (view s' b)) F q"
    using p(1) facts_ok_extends [OF p(2) ex] by (auto simp: task_ok_def)
qed

lemma archived_ok_mono: "archived_ok con F b v k rs \<Longrightarrow> v_gen v \<le> v_gen v' \<Longrightarrow> archived_ok con F b v' k rs"
  by (auto simp: archived_ok_def intro: le_trans)

text \<open>A claim opens a new generation and freezes the records that the bucket holds.\<close>

lemma claim_case:
  assumes env: "env_ok (view s) con F att ack T" and b0: "valid b0"
    and frame: "\<And>b. valid b \<Longrightarrow> b \<noteq> b0 \<Longrightarrow> view s' b = view s b"
    and p: "disciplined valid storable p K U" "facts_ok con (\<lambda>b. v_gen (view s b)) F K U"
    and v': "view s' b0 = v_claim (view s b0)" and guard: "open_or_archiving (view s b0)"
  shows "\<exists>F'. env_ok (view s') con F' att ack (insert p T)"
proof -
  define F' where "F' = F(b0 := (F b0)(v_gen (view s b0) + 1 := v_recs (view s b0)))"
  have ex: "extends con (\<lambda>b. v_gen (view s b)) F con (\<lambda>b. v_gen (view s' b)) F'"
    unfolding extends_def F'_def using frame v' by (auto simp: v_claim_def)
  have "bucket_ok con F b0 (view s b0) (att b0) (ack b0)"
    using env b0 by (simp add: env_ok_def)
  then have "bucket_ok con F' b0 (view s' b0) (att b0) (ack b0)"
    using guard by (auto simp: bucket_ok_def v' v_claim_def F'_def open_or_archiving_def)
  moreover have "task_ok con (\<lambda>b. v_gen (view s' b)) F' p"
    using p(1) facts_ok_extends [OF p(2) ex] by (auto simp: task_ok_def)
  ultimately have "env_ok (view s') con F' att ack (insert p T)"
    by (intro env_ok_step [OF env, where ?b0.0 = b0, OF _ ex]) (use frame in auto)
  then show ?thesis by blast
qed

lemma claim_cleanup_case:
  assumes env: "env_ok (view s) con F att ack T" and b0: "valid b0"
    and frame: "\<And>b. valid b \<Longrightarrow> b \<noteq> b0 \<Longrightarrow> view s' b = view s b"
    and p: "disciplined valid storable p K U" "facts_ok con (\<lambda>b. v_gen (view s b)) F K U"
    and v': "view s' b0 = v_claim_cleanup (view s b0)" and guard: "cleanup_pending (v_state (view s b0))"
  shows "env_ok (view s') con F att ack (insert p T)"
proof -
  have ex: "extends con (\<lambda>b. v_gen (view s b)) F con (\<lambda>b. v_gen (view s' b)) F"
  proof -
    have "v_gen (view s b) \<le> v_gen (view s' b)" if "valid b" for b
      using frame [OF that] v' by (cases "b = b0") (auto simp: v_claim_cleanup_def)
    then show ?thesis by (simp add: extends_def)
  qed
  have "bucket_ok con F b0 (view s b0) (att b0) (ack b0)"
    using env b0 by (simp add: env_ok_def)
  then have "bucket_ok con F b0 (view s' b0) (att b0) (ack b0)"
    using guard archived_ok_mono [of con F b0 "view s b0" _ _ "view s' b0"]
    by (cases "v_state (view s b0)") (auto simp: bucket_ok_def v' v_claim_cleanup_def cleanup_pending_def)
  moreover have "task_ok con (\<lambda>b. v_gen (view s' b)) F p"
    using p(1) facts_ok_extends [OF p(2) ex] by (auto simp: task_ok_def)
  ultimately show ?thesis
    by (intro env_ok_step [OF env, where ?b0.0 = b0, OF _ ex]) (use frame in auto)
qed

text \<open>The transitions on one bucket.\<close>

lemma subseteq_add_mset: "M \<subseteq># N \<Longrightarrow> M \<subseteq># add_mset x N"
  using mset_subset_eq_add_right [of N "{#x#}"] by (auto intro: subset_mset.order_trans)

lemma append_bucket_ok:
  assumes "bucket_ok con F b v att ack" and "v_state v = Hot" and "fits b r"
  shows "bucket_ok con F b (v_append r v) (add_mset r att) (add_mset r ack)"
    "bucket_ok con F b (v_append r v) (add_mset r att) ack"
  using assms by (auto simp: bucket_ok_def v_append_def list_all_iff intro: subseteq_add_mset)

lemma reopen_bucket_ok:
  "bucket_ok con F b v att ack \<Longrightarrow> v_state v = Archiving \<Longrightarrow> bucket_ok con F b (v_reopen v) att ack"
  by (auto simp: bucket_ok_def v_reopen_def)

lemma delete_bucket_ok:
  "bucket_ok con F b v att ack \<Longrightarrow> cleanup_pending (v_state v) \<Longrightarrow> bucket_ok con F b (v_delete v) att ack"
  by (auto simp: bucket_ok_def v_delete_def cleanup_pending_def archived_ok_def split: BucketState.splits)

lemma publish_bucket_ok:
  assumes "bucket_ok con F b v att ack" and "v_state v = Archiving"
    and "k = akey b (v_gen v) (F b (v_gen v))" and "con b k = Some (F b (v_gen v))"
  shows "bucket_ok con F b (v_publish k v) att ack"
  using assms by (auto simp: bucket_ok_def v_publish_def archived_ok_def)

text \<open>What holds after a step.\<close>

definition ok_after where
  "ok_after p s a att ack T \<longleftrightarrow> inv s \<and> ainv a \<and> (\<exists>F. env_ok (view s) (content a) F att ack (insert p T))"

lemma ok_afterI: "\<lbrakk> inv s; ainv a; env_ok (view s) (content a) F att ack (insert p T) \<rbrakk> \<Longrightarrow> ok_after p s a att ack T"
  by (auto simp: ok_after_def)

lemma env_bucket: "env_ok (view s) con F att ack T \<Longrightarrow> valid b \<Longrightarrow> bucket_ok con F b (view s b) (att b) (ack b)"
  by (simp add: env_ok_def)

lemma quiet_after:
  assumes "env_ok (view s) (content a) F att ack T" and "ainv a" and "inv s'"
    and "\<And>b. valid b \<Longrightarrow> view s' b = view s b"
    and "disciplined valid storable p K U" and "facts_ok (content a) (\<lambda>b. v_gen (view s b)) F K U"
  shows "ok_after p s' a att ack T"
  by (rule ok_afterI [OF assms(3,2) quiet_case [OF assms(1,4,5,6)]])

lemma append_after:
  assumes env: "env_ok (view s) (content a) F att ack T" and i: "inv s" "ainv a"
    and p: "disciplined valid storable p K U" "facts_ok (content a) (\<lambda>b. v_gen (view s b)) F K U"
    and b: "valid b" and r: "fits b r" "storable r" and op: "ds_append S e b r s = (res, s')"
  shows "ok_after p s' a (att(b := add_mset r (att b)))
    (case res of Inl _ \<Rightarrow> ack | Inr _ \<Rightarrow> ack(b := add_mset r (ack b))) T"
proof (rule ok_afterI [OF append_inv [OF i(1) b r op] i(2)], rule performs_case [OF env _ p])
  note per = append_view [OF i(1) b r op, unfolded performs_def]
  show "v_gen (view s' b) = v_gen (view s b)"
    using per by (auto simp: v_append_def split: sum.splits)
  have ok: "bucket_ok (content a) F b (view s b) (att b) (ack b)" by (rule env_bucket [OF env b])
  have "bucket_ok (content a) F b (view s b) (add_mset r (att b)) (ack b)"
    using ok by (fastforce simp: bucket_ok_def intro: subseteq_add_mset split: BucketState.splits)
  then show "bucket_ok (content a) F b (view s' b) ((att(b := add_mset r (att b))) b)
      ((case res of Inl _ \<Rightarrow> ack | Inr _ \<Rightarrow> ack(b := add_mset r (ack b))) b)"
    using per append_bucket_ok [OF ok _ r(1)] by (auto split: sum.splits)
  show "view s' b' = view s b' \<and> (att(b := add_mset r (att b))) b' = att b'
      \<and> (case res of Inl _ \<Rightarrow> ack | Inr _ \<Rightarrow> ack(b := add_mset r (ack b))) b' = ack b'"
    if "valid b'" "b' \<noteq> b" for b'
    using append_frame [OF i(1) b r op that] that by (auto split: sum.splits)
qed

lemma reopen_after:
  assumes env: "env_ok (view s) (content a) F att ack T" and i: "inv s'" "ainv a"
    and p: "disciplined valid storable p K U" "facts_ok (content a) (\<lambda>b. v_gen (view s b)) F K U"
    and b: "valid (ses_bucket ses)"
    and frame: "\<And>b'. valid b' \<Longrightarrow> b' \<noteq> ses_bucket ses \<Longrightarrow> view s' b' = view s b'"
    and per: "performs (holds_session ses Archiving) v_reopen (view s (ses_bucket ses)) (res :: 'r dur_result)
      (view s' (ses_bucket ses))"
  shows "ok_after p s' a att ack T"
proof (rule ok_afterI [OF i], rule performs_case [OF env _ p])
  note per = per [unfolded performs_def]
  show "v_gen (view s' (ses_bucket ses)) = v_gen (view s (ses_bucket ses))"
    using per by (auto simp: v_reopen_def split: sum.splits)
  show "bucket_ok (content a) F (ses_bucket ses) (view s' (ses_bucket ses)) (att (ses_bucket ses)) (ack (ses_bucket ses))"
    using per env_bucket [OF env b] reopen_bucket_ok by (auto simp: holds_session_def split: sum.splits)
qed (use frame in auto)

lemma delete_after:
  assumes env: "env_ok (view s) (content a) F att ack T" and i: "inv s" "ainv a"
    and p: "disciplined valid storable p K U" "facts_ok (content a) (\<lambda>b. v_gen (view s b)) F K U"
    and b: "valid (ses_bucket ses)" and op: "ds_delete_hot_bucket S e ses s = (res, s')"
  shows "ok_after p s' a att ack T"
proof (rule ok_afterI [OF delete_inv [OF i(1) b op] i(2)], rule performs_case [OF env _ p])
  note per = delete_view [OF i(1) b op, unfolded performs_def]
  show "v_gen (view s' (ses_bucket ses)) = v_gen (view s (ses_bucket ses))"
    using per by (auto simp: v_delete_def split: sum.splits)
  show "bucket_ok (content a) F (ses_bucket ses) (view s' (ses_bucket ses)) (att (ses_bucket ses)) (ack (ses_bucket ses))"
    using per env_bucket [OF env b] delete_bucket_ok by (auto split: sum.splits)
qed (use delete_frame [OF i(1) b op] in auto)

lemma publish_after:
  assumes env: "env_ok (view s) (content a) F att ack T" and i: "inv s" "ainv a"
    and p: "disciplined valid storable p K U" "facts_ok (content a) (\<lambda>b. v_gen (view s b)) F K U"
    and b: "valid (ses_bucket ses)" and op: "ds_publish_archive S e ses k s = (res, s')"
    and U: "(ses_bucket ses, ses_generation ses, k) \<in> U"
  shows "ok_after p s' a att ack T"
proof (rule ok_afterI [OF publish_inv [OF i(1) b op] i(2)], rule performs_case [OF env _ p])
  note per = publish_view [OF i(1) b op, unfolded performs_def]
  show "v_gen (view s' (ses_bucket ses)) = v_gen (view s (ses_bucket ses))"
    using per by (auto simp: v_publish_def split: sum.splits)
  have "upload_fact (content a) (\<lambda>b. v_gen (view s b)) F (ses_bucket ses) (ses_generation ses) k"
    using p(2) U b by (simp add: facts_ok_def)
  then have "bucket_ok (content a) F (ses_bucket ses) (v_publish k (view s (ses_bucket ses))) (att (ses_bucket ses))
      (ack (ses_bucket ses))" if "holds_session ses Archiving (view s (ses_bucket ses))"
    using that by (intro publish_bucket_ok [OF env_bucket [OF env b]]) (auto simp: holds_session_def upload_fact_def)
  then show "bucket_ok (content a) F (ses_bucket ses) (view s' (ses_bucket ses)) (att (ses_bucket ses)) (ack (ses_bucket ses))"
    using per env_bucket [OF env b] by (auto split: sum.splits)
qed (use publish_frame [OF i(1) b op] in auto)

lemma claim_after:
  assumes env: "env_ok (view s) (content a) F att ack T" and i: "inv s'" "ainv a"
    and p: "disciplined valid storable p K U" "facts_ok (content a) (\<lambda>b. v_gen (view s b)) F K U"
    and b: "valid b" and frame: "\<And>b'. valid b' \<Longrightarrow> b' \<noteq> b \<Longrightarrow> view s' b' = view s b'"
    and cl: "claims open_or_archiving v_claim b (view s b) res (view s' b)"
  shows "ok_after p s' a att ack T"
proof (cases "view s' b = view s b")
  case True
  then have "view s' b' = view s b'" if "valid b'" for b' using frame that by (cases "b' = b") auto
  then show ?thesis by (rule quiet_after [OF env i(2,1) _ p])
next
  case False
  then have "view s' b = v_claim (view s b)" "open_or_archiving (view s b)"
    using cl by (auto simp: claims_def split: sum.splits option.splits)
  from claim_case [OF env b frame p this] show ?thesis using i by (auto simp: ok_after_def)
qed

lemma claim_cleanup_after:
  assumes env: "env_ok (view s) (content a) F att ack T" and i: "inv s'" "ainv a"
    and p: "disciplined valid storable p K U" "facts_ok (content a) (\<lambda>b. v_gen (view s b)) F K U"
    and b: "valid b" and frame: "\<And>b'. valid b' \<Longrightarrow> b' \<noteq> b \<Longrightarrow> view s' b' = view s b'"
    and cl: "claims (\<lambda>v. cleanup_pending (v_state v)) v_claim_cleanup b (view s b) res (view s' b)"
  shows "ok_after p s' a att ack T"
proof (cases "view s' b = view s b")
  case True
  then have "view s' b' = view s b'" if "valid b'" for b' using frame that by (cases "b' = b") auto
  then show ?thesis by (rule quiet_after [OF env i(2,1) _ p])
next
  case False
  then have "view s' b = v_claim_cleanup (view s b)" "cleanup_pending (v_state (view s b))"
    using cl by (auto simp: claims_def split: sum.splits option.splits)
  from claim_cleanup_case [OF env b frame p this] show ?thesis using i by (auto simp: ok_after_def)
qed

lemma snapshot_after:
  assumes env: "env_ok (view s) (content a) F att ack T" and i: "inv s" "ainv a"
    and b: "valid (ses_bucket ses)" and op: "ds_snapshot S e ses s = (x, s')"
    and p: "disciplined valid storable p
      (case x of Inl _ \<Rightarrow> K | Inr rs \<Rightarrow> insert (ses_bucket ses, ses_generation ses, rs) K) U"
    and K: "facts_ok (content a) (\<lambda>b. v_gen (view s b)) F K U"
  shows "ok_after p s' a att ack T"
proof (rule quiet_after [OF env i(2) snapshot_inv [OF i(1) b op] snapshot_view [OF i(1) b op] p])
  have "snap_fact (\<lambda>b. v_gen (view s b)) F (ses_bucket ses) (ses_generation ses) rs" if "x = Ok rs" for rs
    using snapshot_ok [OF i(1) b, of e rs s'] op that env_bucket [OF env b] view_sorted [OF i(1) b]
    by (auto simp: snap_fact_def bucket_ok_def holds_session_def)
  then show "facts_ok (content a) (\<lambda>b. v_gen (view s b)) F
      (case x of Inl _ \<Rightarrow> K | Inr rs \<Rightarrow> insert (ses_bucket ses, ses_generation ses, rs) K) U"
    using K by (auto simp: facts_ok_def split: sum.splits)
qed

lemma put_extends:
  assumes "ainv a" and b: "valid b" and rs: "snap_fact gen F b g rs"
    and op: "as_put_bucket_generation A f b g rs a = (x, a')"
  shows "extends (content a) gen F (content a') gen F"
  unfolding extends_def
proof (intro allI impI conjI)
  fix b' g'
  assume b': "valid b'" and "g' \<le> gen b'"
    and con: "content a b' (akey b' g' (F b' g')) = Some (F b' g')"
  have fs: "list_all (fits b) rs" "sorted_by ckey rs" "rs = F b g" using rs by (auto simp: snap_fact_def)
  from put_keeps [OF assms(1) b fs(1,2) op b' refl con]
  show "content a' b' (akey b' g' (F b' g')) = Some (F b' g')"
  proof
    assume x: "x = Ok (akey b' g' (F b' g'))"
    from put_ok [OF assms(1) b fs(1,2) op [unfolded x]]
    have "akey b' g' (F b' g') = akey b g rs" "content a' b (akey b' g' (F b' g')) = Some rs" by auto
    with akey_inj [OF b' b] fs(3) show ?thesis by metis
  qed
qed simp_all

lemma put_after:
  assumes env: "env_ok (view s) (content a) F att ack T" and i: "inv s" "ainv a" and b: "valid b"
    and op: "as_put_bucket_generation A f b g rs a = (x, a')"
    and p: "disciplined valid storable p K (case x of Inl _ \<Rightarrow> U | Inr k \<Rightarrow> insert (b, g, k) U)"
    and K: "facts_ok (content a) (\<lambda>b. v_gen (view s b)) F K U" and bg: "(b, g, rs) \<in> K"
  shows "ok_after p s a' att ack T"
proof -
  have fact: "snap_fact (\<lambda>b. v_gen (view s b)) F b g rs" using K bg b by (simp add: facts_ok_def)
  note ex = put_extends [OF i(2) b fact op]
  have fs: "list_all (fits b) rs" "sorted_by ckey rs" "rs = F b g" "g \<le> v_gen (view s b)"
    using fact by (auto simp: snap_fact_def)
  have "upload_fact (content a') (\<lambda>b. v_gen (view s b)) F b g k" if "x = Ok k" for k
    using put_ok [OF i(2) b fs(1,2) op [unfolded that]] fs(3,4) by (auto simp: upload_fact_def)
  then have "facts_ok (content a') (\<lambda>b. v_gen (view s b)) F K
      (case x of Inl _ \<Rightarrow> U | Inr k \<Rightarrow> insert (b, g, k) U)"
    using facts_ok_extends [OF K ex] by (auto simp: facts_ok_def split: sum.splits)
  with p have "task_ok (content a') (\<lambda>b. v_gen (view s b)) F p" by (auto simp: task_ok_def)
  then have "env_ok (view s) (content a') F att ack (insert p T)"
    using bucket_ok_extends [OF env_bucket [OF env] ex]
    by (intro env_ok_step [OF env _ ex, where ?b0.0 = b]) (auto simp: b)
  then show ?thesis
    using put_inv [OF i(2) b fs(1,2) op] i(1) by (auto intro: ok_afterI)
qed

lemma get_after:
  assumes "env_ok (view s) (content a) F att ack T" and i: "inv s" "ainv a" and b: "valid b"
    and op: "as_get_bucket A f b k a = (x, a')"
    and p: "disciplined valid storable p K U" "facts_ok (content a) (\<lambda>b. v_gen (view s b)) F K U"
  shows "ok_after p s a' att ack T"
  using quiet_case [OF assms(1) refl p] get_keeps [OF i(2) b op] get_inv [OF i(2) b op] i(1)
  by (auto intro: ok_afterI)

text \<open>Every step of a disciplined task.\<close>

lemma advance_ok:
  assumes env: "env_ok (view s) (content a) F att ack T" and i: "inv s" "ainv a"
    and p: "disciplined valid storable p K U" and f: "facts_ok (content a) (\<lambda>b. v_gen (view s b)) F K U"
    and st: "step S A w p s a = (p', s', a')"
  shows "ok_after p' s' a' (note_attempt p att) (note_ack S (w_store w) s p ack) T"
proof (cases p)
  case (Append b r k)
  with p st have "ds_append S (w_store w) b r s = (fst (ds_append S (w_store w) b r s), s')" and a: "a' = a"
    by (auto split: prod.splits)
  then show ?thesis
    using append_after [OF env i _ f, of p'] p st Append
    by (auto split: prod.splits)
next
  case (Discover sc k)
  then obtain x where op: "ds_discover_archive_work S (w_store w) sc s = (x, s')" "p' = k x" "a' = a"
    using st by (auto split: prod.splits)
  have "\<forall>u \<in> set ws. valid (work_bucket u)" if "x = Ok ws" for ws
    using discover_ok [OF i(1)] op(1) that by blast
  then have "disciplined valid storable (k x) K U"
    using p Discover by (auto split: sum.splits)
  then show ?thesis
    using quiet_after [OF env i(2) discover_inv [OF i(1) op(1)] discover_view [OF i(1) op(1)] _ f]
    by (simp add: op Discover)
next
  case (ClaimArchive b d k)
  then obtain x where op: "ds_claim_archive S (w_store w) b d s = (x, s')" "p' = k x" "a' = a"
    using st by (auto split: prod.splits)
  have b: "valid b" using p ClaimArchive by simp
  have "disciplined valid storable (k x) K U"
    using p ClaimArchive claim_view [OF i(1) b op(1)]
    by (auto simp: claims_def split: sum.splits option.splits)
  then show ?thesis
    using claim_after [OF env claim_inv [OF i(1) b op(1)] i(2) _ f b claim_frame [OF i(1) b op(1)]
        claim_view [OF i(1) b op(1)]]
    by (simp add: op ClaimArchive)
next
  case (ClaimCleanup b d k)
  then obtain x where op: "ds_claim_cleanup S (w_store w) b d s = (x, s')" "p' = k x" "a' = a"
    using st by (auto split: prod.splits)
  have b: "valid b" using p ClaimCleanup by simp
  have "disciplined valid storable (k x) K U"
    using p ClaimCleanup claim_cleanup_view [OF i(1) b op(1)]
    by (auto simp: claims_def split: sum.splits option.splits)
  then show ?thesis
    using claim_cleanup_after [OF env claim_cleanup_inv [OF i(1) b op(1)] i(2) _ f b
        claim_cleanup_frame [OF i(1) b op(1)] claim_cleanup_view [OF i(1) b op(1)]]
    by (simp add: op ClaimCleanup)
next
  case (BeginArchive b k)
  then obtain x where op: "ds_begin_archive S (w_store w) b s = (x, s')" "p' = k x" "a' = a"
    using st by (auto split: prod.splits)
  have b: "valid b" using p BeginArchive by simp
  have "disciplined valid storable (k x) K U"
    using p BeginArchive begin_view [OF i(1) b op(1)]
    by (cases x) (auto simp: claims_def split: option.splits)
  then show ?thesis
    using claim_after [OF env begin_inv [OF i(1) b op(1)] i(2) _ f b begin_frame [OF i(1) b op(1)]
        begin_view [OF i(1) b op(1)]]
    by (simp add: op BeginArchive)
next
  case (Snapshot ses k)
  then show ?thesis
    using st p snapshot_after [OF env i _ _ _ f] by (auto split: prod.splits)
next
  case (PutGeneration b g rs k)
  then show ?thesis
    using st p put_after [OF env i _ _ _ f] by (auto split: prod.splits)
next
  case (GetBucket b key k)
  then show ?thesis
    using st p get_after [OF env i _ _ _ f] by (auto split: prod.splits)
next
  case (PublishArchive ses key k)
  then show ?thesis
    using st p publish_after [OF env i _ f] by (auto split: prod.splits)
next
  case (DeleteHotBucket ses k)
  then show ?thesis
    using st p delete_after [OF env i _ f] by (auto split: prod.splits)
next
  case (DeferArchive ses d k)
  then obtain x where op: "ds_defer_archive S (w_store w) ses d s = (x, s')" "p' = k x" "a' = a"
    using st by (auto split: prod.splits)
  have b: "valid (ses_bucket ses)" "disciplined valid storable (k x) K U" using p DeferArchive by auto
  then show ?thesis
    using reopen_after [OF env defer_inv [OF i(1) b(1) op(1)] i(2) b(2) f b(1) defer_frame [OF i(1) b(1) op(1)]
        defer_view [OF i(1) b(1) op(1)]]
    by (simp add: op DeferArchive)
next
  case (AbortArchive ses k)
  then obtain x where op: "ds_abort_archive S (w_store w) ses s = (x, s')" "p' = k x" "a' = a"
    using st by (auto split: prod.splits)
  have b: "valid (ses_bucket ses)" "disciplined valid storable (k x) K U" using p AbortArchive by auto
  then show ?thesis
    using reopen_after [OF env abort_inv [OF i(1) b(1) op(1)] i(2) b(2) f b(1) abort_frame [OF i(1) b(1) op(1)]
        abort_view [OF i(1) b(1) op(1)]]
    by (simp add: op AbortArchive)
next
  case (ReadState b k)
  then obtain x where op: "ds_state S (w_store w) b s = (x, s')" "p' = k x" "a' = a"
    using st by (auto split: prod.splits)
  have b: "valid b" "disciplined valid storable (k x) K U" using p ReadState by auto
  show ?thesis
    using quiet_after [OF env i(2) state_inv [OF i(1) b(1) op(1)] state_view [OF i(1) b(1) op(1)] b(2) f]
    by (simp add: op ReadState)
next
  case (RenewLease ses d k)
  then obtain x where op: "ds_renew_archive_lease S (w_store w) ses d s = (x, s')" "p' = k x" "a' = a"
    using st by (auto split: prod.splits)
  have b: "valid (ses_bucket ses)" "disciplined valid storable (k x) K U" using p RenewLease by auto
  show ?thesis
    using quiet_after [OF env i(2) renew_inv [OF i(1) b(1) op(1)] renew_view [OF i(1) b(1) op(1)] b(2) f]
    by (simp add: op RenewLease)
next
  case (DeferCleanup ses d k)
  then obtain x where op: "ds_defer_cleanup S (w_store w) ses d s = (x, s')" "p' = k x" "a' = a"
    using st by (auto split: prod.splits)
  have b: "valid (ses_bucket ses)" "disciplined valid storable (k x) K U" using p DeferCleanup by auto
  show ?thesis
    using quiet_after [OF env i(2) defer_cleanup_inv [OF i(1) b(1) op(1)] defer_cleanup_view [OF i(1) b(1) op(1)] b(2) f]
    by (simp add: op DeferCleanup)
next
  case (ReadRange b rng after limit k)
  then obtain x where op: "ds_read_range S (w_store w) b rng after limit s = (x, s')" "p' = k x" "a' = a"
    using st by (auto split: prod.splits)
  have b: "valid b" "disciplined valid storable (k x) K U" using p ReadRange by auto
  show ?thesis
    using quiet_after [OF env i(2) read_inv [OF i(1) b(1) op(1)] read_view [OF i(1) b(1) op(1)] b(2) f]
    by (simp add: op ReadRange)
qed (use st p quiet_after [OF env i(2,1) refl _ f] in auto)

lemma sys_inv_step:
  assumes "sys_step S A T c c'" and "sys_inv c" and "\<And>p. T p \<Longrightarrow> disciplined valid storable p {} {}"
  shows "sys_inv c'"
  using assms(1)
proof (cases rule: sys_step.cases)
  case (spawn i p)
  obtain F where "env_ok (view (cf_store c)) (content (cf_archive c)) F (cf_attempted c) (cf_acked c) (ran (cf_tasks c))"
    using assms(2) by (auto simp: sys_inv_def)
  from quiet_case [OF this refl assms(3) [OF spawn(3)]] show ?thesis
    using assms(2) spawn(1,2) by (auto simp: sys_inv_def facts_ok_def)
next
  case (vanish i)
  have "ran ((cf_tasks c)(i := None)) \<subseteq> ran (cf_tasks c)" by (auto simp: ran_def)
  then show ?thesis using assms(2) vanish by (auto simp: sys_inv_def env_ok_def)
next
  case (advance i p w p' s' a')
  obtain F where env: "env_ok (view (cf_store c)) (content (cf_archive c)) F (cf_attempted c) (cf_acked c) (ran (cf_tasks c))"
    and i: "inv (cf_store c)" "ainv (cf_archive c)"
    using assms(2) by (auto simp: sys_inv_def)
  have "p \<in> ran (cf_tasks c)" using advance(2) by (rule ranI)
  then obtain K U where "disciplined valid storable p K U"
    "facts_ok (content (cf_archive c)) (\<lambda>b. v_gen (view (cf_store c) b)) F K U"
    using env by (auto simp: env_ok_def task_ok_def)
  from advance_ok [OF env i this advance(3)]
  have "ok_after p' s' a' (cf_attempted c') (cf_acked c') (ran (cf_tasks c))"
    using advance(1) by simp
  moreover have "ran (cf_tasks c') \<subseteq> insert p' (ran (cf_tasks c))"
    using advance(1) by (auto simp: ran_def)
  ultimately show ?thesis
    using advance(1) by (auto simp: sys_inv_def ok_after_def env_ok_def)
qed

lemma sys_inv_reachable:
  assumes "reachable S A T s a c" and "\<And>p. T p \<Longrightarrow> disciplined valid storable p {} {}" and "inv s" and "ainv a"
    and "\<And>b. valid b \<Longrightarrow> view s b = \<lparr> v_state = Hot, v_gen = 0, v_recs = [] \<rparr>"
  shows "sys_inv c"
  using assms(1) unfolding reachable_def
proof (induction rule: rtranclp_induct)
  case base
  have "env_ok (view s) (content a) (\<lambda>_ _. []) (\<lambda>_. {#}) (\<lambda>_. {#}) {}"
    using assms(5) by (auto simp: env_ok_def bucket_ok_def)
  then show ?case using assms(3,4) by (auto simp: sys_inv_def sys_init_def)
next
  case (step c c')
  then show ?case using sys_inv_step assms(2) by blast
qed

text \<open>The records of a bucket, wherever they are, contain every acknowledged record and only attempted
  ones.\<close>

lemma logical_of_bucket_ok:
  "bucket_ok (content a) F b v att ack \<Longrightarrow>
     \<exists>rs. logical content a b v = Some rs \<and> ack \<subseteq># mset rs \<and> mset rs \<subseteq># att"
  by (auto simp: bucket_ok_def logical_def archived_ok_def split: BucketState.splits)

lemma no_record_lost:
  assumes "reachable S A T s a c" and "\<And>p. T p \<Longrightarrow> disciplined valid storable p {} {}" and "inv s" and "ainv a"
    and "\<And>b. valid b \<Longrightarrow> view s b = \<lparr> v_state = Hot, v_gen = 0, v_recs = [] \<rparr>" and "valid b"
  shows "\<exists>rs. logical content (cf_archive c) b (view (cf_store c) b) = Some rs
    \<and> cf_acked c b \<subseteq># mset rs \<and> mset rs \<subseteq># cf_attempted c b"
  using sys_inv_reachable [OF assms(1-5)] assms(6) logical_of_bucket_ok
  by (auto simp: sys_inv_def env_ok_def)

end

end
