(* ===== verification/Table_Reads.thy ===== *)
theory Table_Reads
  imports Durable_Table Archival_System
begin

text \<open>
  What the table router returns. While no other task changes the stores, a query returns the first
  records of its range after its cursor, in the declared order, whatever order the parallel bucket
  reads complete in; and following the cursors returns every record of the range exactly once. In every
  reachable configuration of the system a read of a bucket returns records that lie in its range, and
  an unbounded read returns every acknowledged record of the bucket in its range.
\<close>

section \<open>Merging the pages of the buckets\<close>

lemma take_concat_take:
  assumes "n \<le> m"
  shows "take n (concat (map (take m) xss)) = take n (concat xss)"
  using assms
proof (induction xss arbitrary: n)
  case (Cons xs xss)
  show ?case
  proof (cases "length xs \<le> m")
    case True
    then show ?thesis using Cons.IH [of "n - length xs"] Cons.prems by simp
  next
    case False
    then show ?thesis using Cons.prems by (simp add: min_def)
  qed
qed simp

lemma length_concat_take:
  "length (concat (map (take m) xss)) < m \<Longrightarrow> concat (map (take m) xss) = concat xss"
proof (induction xss)
  case (Cons xs xss)
  then have "length xs < m" by (auto simp: min_def split: if_splits)
  then show ?case using Cons by simp
qed simp

lemma length_concat_take_le:
  "length (concat xss) \<le> m \<Longrightarrow> concat (map (take m) xss) = concat xss"
  by (induction xss) auto

lemma filter_concat_map: "filter P (concat (map f bs)) = concat (map (\<lambda>b. filter P (f b)) bs)"
  by (induction bs) auto

text \<open>Records of buckets that follow each other in time: sorting a concatenation of sorted bucket
  pages, taken in any order, puts the pages in the order of the buckets.\<close>

definition time_ordered :: "BucketId list \<Rightarrow> bool" where
  "time_ordered bs \<longleftrightarrow> sorted_wrt (\<lambda>b c. bid_end b \<le> bid_start c) bs"

lemma time_ordered_apart:
  "\<lbrakk> time_ordered bs; b \<in> set bs; c \<in> set bs; b \<noteq> c \<rbrakk> \<Longrightarrow> bid_end b \<le> bid_start c \<or> bid_end c \<le> bid_start b"
  unfolding time_ordered_def by (induction bs) auto

lemma sorted_concat_buckets:
  assumes "time_ordered bs" and "\<And>b r. b \<in> set bs \<Longrightarrow> r \<in> set (f b) \<Longrightarrow> bid_contains b (rec_event_time r)"
    and "\<And>b. b \<in> set bs \<Longrightarrow> sorted_by ckey (f b)"
  shows "sorted_by ckey (concat (map f bs))"
  using assms
proof (induction bs)
  case (Cons b bs)
  have "ckey r \<le> ckey r'" if "r \<in> set (f b)" "r' \<in> set (concat (map f bs))" for r r'
  proof -
    from that(2) obtain c where c: "c \<in> set bs" "r' \<in> set (f c)" by auto
    have "bid_end b \<le> bid_start c" using Cons.prems(1) c(1) by (simp add: time_ordered_def)
    then have "rec_event_time r < rec_event_time r'"
      using Cons.prems(2) [of b r] Cons.prems(2) [of c r'] that(1) c by (auto simp: bid_contains_def)
    then show ?thesis by (simp add: ckey_def)
  qed
  moreover have "sorted_by ckey (concat (map f bs))"
    using Cons.prems by (intro Cons.IH) (auto simp: time_ordered_def)
  ultimately show ?case
    using Cons.prems(3) by (auto simp: sorted_append)
qed simp

lemma filter_key_concat:
  assumes "distinct bs" and "b \<in> set bs"
    and "\<And>c r. c \<in> set bs \<Longrightarrow> r \<in> set (f c) \<Longrightarrow> c \<noteq> b \<Longrightarrow> \<not> P r"
  shows "filter P (concat (map f bs)) = filter P (f b)"
  using assms
proof (induction bs)
  case (Cons c bs)
  have none: "filter P (concat (map f cs)) = []" if "set cs \<subseteq> set (c # bs) - {b}" for cs
    using that Cons.prems(3) by (fastforce simp: filter_empty_conv)
  show ?case
  proof (cases "c = b")
    case True
    then have "filter P (concat (map f bs)) = []"
      using Cons.prems(1) by (intro none) auto
    then show ?thesis using True by simp
  next
    case False
    have "filter P (f c) = []" using Cons.prems(3) [of c] False by (auto simp: filter_empty_conv)
    moreover have "filter P (concat (map f bs)) = filter P (f b)"
      using Cons.prems False by (intro Cons.IH) auto
    ultimately show ?thesis by simp
  qed
qed simp

lemma mset_concat_map: "mset (concat (map f bs)) = (\<Sum>b\<in>#mset bs. mset (f b))"
  by (induction bs) simp_all

lemma sort_bucket_pages:
  assumes ord: "time_ordered bs" and perm: "mset ps = mset bs"
    and lt: "\<And>b. b \<in> set bs \<Longrightarrow> bid_start b < bid_end b"
    and inb: "\<And>b r. b \<in> set bs \<Longrightarrow> r \<in> set (f b) \<Longrightarrow> bid_contains b (rec_event_time r)"
    and srt: "\<And>b. b \<in> set bs \<Longrightarrow> sorted_by ckey (f b)"
  shows "sort_key ckey (concat (map f ps)) = concat (map f bs)"
proof (rule properties_for_sort_key)
  have sets: "set ps = set bs" using perm by (metis set_mset_mset)
  have dist: "distinct bs"
  proof -
    have "sorted_wrt (<) (map bid_start bs)"
      unfolding sorted_wrt_map by (rule sorted_wrt_mono_rel [OF _ ord [unfolded time_ordered_def]]) (use lt in fastforce)
    then show ?thesis by (simp add: strict_sorted_iff distinct_map)
  qed
  then have dist': "distinct ps" using perm by (metis mset_eq_imp_distinct_iff)
  show "mset (concat (map f bs)) = mset (concat (map f ps))"
    by (simp add: mset_concat_map perm)
  show "sorted_by ckey (concat (map f bs))"
    by (rule sorted_concat_buckets [OF ord inb srt])
  fix k
  assume "k \<in> set (concat (map f bs))"
  then obtain b where b: "b \<in> set bs" "k \<in> set (f b)" by auto
  have other: "\<not> ckey k = ckey r" if "c \<in> set bs" "r \<in> set (f c)" "c \<noteq> b" for c r
  proof -
    have "\<not> bid_contains b (rec_event_time r)"
      using time_ordered_apart [OF ord b(1) that(1)] that(3) inb [OF that(1,2)]
      by (auto simp: bid_contains_def)
    then show ?thesis using inb [OF b] by (auto simp: ckey_def)
  qed
  show "filter (\<lambda>x. ckey k = ckey x) (concat (map f bs)) = filter (\<lambda>x. ckey k = ckey x) (concat (map f ps))"
    using filter_key_concat [OF dist b(1), of f "\<lambda>x. ckey k = ckey x"]
      filter_key_concat [OF dist', of b f "\<lambda>x. ckey k = ckey x"] other b(1) sets by simp
qed

section \<open>What a query selects\<close>

definition selection :: "TimeRange \<Rightarrow> Cursor option \<Rightarrow> Record list \<Rightarrow> Record list" where
  "selection rng after rs = filter (after_cursor after) (filter (\<lambda>r. tr_contains rng (rec_event_time r)) rs)"

text \<open>The page of a query whose range holds the records \<open>rs\<close> in the declared order.\<close>

definition page_exact :: "Query \<Rightarrow> Record list \<Rightarrow> QueryPage \<Rightarrow> bool" where
  "page_exact q rs page \<longleftrightarrow>
     qp_records page = take (q_limit q) (selection (q_range q) (q_after q) rs)
     \<and> qp_next page =
         (if q_limit q = 0 then q_after q
          else if q_limit q < length (selection (q_range q) (q_after q) rs)
          then Some (cursor_of (last (qp_records page))) else None)"

lemma page_of_selection: "page_of rng after limit rs = take limit (selection rng after rs)"
  by (simp add: page_of_def selection_def)

lemma selection_concat: "selection rng after (concat xss) = concat (map (selection rng after) xss)"
  by (induction xss) (simp_all add: selection_def)

lemma more_iff:
  assumes "n < USIZE_MAX \<or> length (concat xss) \<le> USIZE_MAX" and "n \<le> USIZE_MAX"
  shows "take n (concat (map (take (saturating_add n 1)) xss)) = take n (concat xss)"
    "n < length (concat (map (take (saturating_add n 1)) xss)) \<longleftrightarrow> n < length (concat xss)"
proof -
  show "take n (concat (map (take (saturating_add n 1)) xss)) = take n (concat xss)"
    by (rule take_concat_take) (use assms(2) in \<open>simp add: saturating_add_def\<close>)
  show "n < length (concat (map (take (saturating_add n 1)) xss)) \<longleftrightarrow> n < length (concat xss)"
  proof (cases "n < USIZE_MAX")
    case True
    then have "saturating_add n 1 = n + 1" by (simp add: saturating_add_def)
    then show ?thesis
      using length_concat_take [of "n + 1" xss] length_concat_take_le [of xss "n + 1"] by fastforce
  next
    case False
    then have "saturating_add n 1 = USIZE_MAX" using assms(2) by (simp add: saturating_add_def)
    then show ?thesis using length_concat_take_le [of xss USIZE_MAX] assms(1) False by simp
  qed
qed

text \<open>Resuming after the last record of a page continues with the record that follows it.\<close>

lemma sorted_after_nth:
  assumes "sorted_by ckey rs" and "distinct (map ckey rs)" and "0 < n" and "n \<le> length rs"
  shows "filter (after_cursor (Some (cursor_of (rs ! (n - 1))))) rs = drop n rs"
proof -
  have strict: "ckey (rs ! i) < ckey (rs ! j)" if "i < j" "j < length rs" for i j
    using sorted_nth_mono [OF assms(1), of i j] nth_eq_iff_index_eq [OF assms(2), of i j] that
    by (auto simp: less_le)
  have "filter (after_cursor (Some (cursor_of (rs ! (n - 1))))) (take n rs) = []"
  proof -
    have "\<not> ckey (rs ! (n - 1)) < ckey (rs ! i)" if "i < n" for i
    proof (cases "i = n - 1")
      case False
      then have "i < n - 1" "n - 1 < length rs" using that assms(3,4) by auto
      then show ?thesis using strict by (meson less_asym)
    qed simp
    then show ?thesis
      by (auto simp: filter_empty_conv in_set_conv_nth after_cursor_def cursor_key_of)
  qed
  moreover have "filter (after_cursor (Some (cursor_of (rs ! (n - 1))))) (drop n rs) = drop n rs"
    using strict assms(3) by (auto simp: filter_id_conv in_set_conv_nth after_cursor_def cursor_key_of)
  ultimately show ?thesis
    by (metis append_Nil append_take_drop_id filter_append)
qed

lemma selection_resume:
  assumes "sorted_by ckey rs" and "distinct (map ckey rs)"
    and "0 < n" and "n \<le> length (selection rng after rs)"
  shows "selection rng (Some (cursor_of (selection rng after rs ! (n - 1)))) rs = drop n (selection rng after rs)"
proof -
  let ?sel = "selection rng after rs" and ?c = "Some (cursor_of (selection rng after rs ! (n - 1)))"
  have "?sel ! (n - 1) \<in> set ?sel" using assms(3,4) by simp
  then have "after_cursor after (?sel ! (n - 1))" by (simp add: selection_def)
  then have "after_cursor after r" if "after_cursor ?c r" for r
    using that by (auto simp: after_cursor_def cursor_key_of split: option.splits)
  then have "filter (after_cursor ?c) (filter (after_cursor after) xs) = filter (after_cursor ?c) xs" for xs
    by (induction xs) auto
  then have "selection rng ?c rs = filter (after_cursor ?c) ?sel"
    by (simp only: selection_def)
  also have "\<dots> = drop n ?sel"
    using assms by (intro sorted_after_nth) (auto simp: selection_def sorted_by_filter distinct_map_filter)
  finally show ?thesis .
qed

section \<open>Reading a bucket\<close>

context archival_system
begin

text \<open>The stores route every bucket to the records \<open>L b\<close>.\<close>

definition routes_to where
  "routes_to con b v rs \<longleftrightarrow>
     (case v_state v of
        Archived k _ \<Rightarrow> (\<exists>g rs'. k = akey b g rs') \<and> con b k = Some rs
      | _ \<Rightarrow> v_recs v = rs)"

definition routed :: "'s \<Rightarrow> 'a \<Rightarrow> (BucketId \<Rightarrow> Record list) \<Rightarrow> bool" where
  "routed s a L \<longleftrightarrow> inv s \<and> ainv a \<and> (\<forall>b. valid b \<longrightarrow> routes_to (content a) b (view s b) (L b))"

definition bucket_page where
  "bucket_page L rng after limit b = page_of rng after limit (sort_key ckey (L b))"

text \<open>In the environments \<open>W\<close> the stores answer every read of the page without an error.\<close>

definition answering :: "(nat \<Rightarrow> ('e, 'f) answers) \<Rightarrow> TimeRange \<Rightarrow> Cursor option \<Rightarrow> nat \<Rightarrow> bool" where
  "answering W rng after limit \<longleftrightarrow>
     (\<forall>n b s error. inv s \<longrightarrow> valid b \<longrightarrow> fst (ds_read_range S (w_store (W n)) b rng after limit s) \<noteq> Err error)
     \<and> (\<forall>n b g rs rs' a error. ainv a \<longrightarrow> valid b \<longrightarrow> content a b (akey b g rs) = Some rs' \<longrightarrow>
          fst (as_get_bucket A (w_archive (W n)) b (akey b g rs) a) \<noteq> Err error)"

definition task_good where
  "task_good W a L rng after limit t b \<longleftrightarrow>
     (case t of
        Route b' \<Rightarrow> b' = b
      | Fetch b' k \<Rightarrow> b' = b \<and> (\<exists>g rs. k = akey b g rs) \<and> content a b k = Some (L b)
      | Finished (Inr rs) \<Rightarrow> rs = bucket_page L rng after limit b
      | Finished (Inl _) \<Rightarrow> \<not> answering W rng after limit)"

lemma routed_view:
  "routed s a L \<Longrightarrow> inv s' \<Longrightarrow> (\<And>b. valid b \<Longrightarrow> view s' b = view s b) \<Longrightarrow> routed s' a L"
  by (simp add: routed_def)

lemma read_range_routed:
  assumes r: "routed s a L" and b: "valid b" and op: "ds_read_range S (w_store (W n)) b rng after limit s = (res, s')"
    and rd: "readable rng after limit"
  shows "routed s' a L" "task_good W a L rng after limit (after_route b res) b"
proof -
  have i: "inv s" using r by (simp add: routed_def)
  show "routed s' a L" by (rule routed_view [OF r read_inv [OF i b op] read_view [OF i b op]])
  have rb: "routes_to (content a) b (view s b) (L b)"
    using r b by (simp add: routed_def)
  show "task_good W a L rng after limit (after_route b res) b"
  proof (cases res)
    case (Inr read)
    then show ?thesis
    proof (cases read)
      case (HotRead rs)
      with Inr op have "open_or_archiving (view s b)" "rs = page_of rng after limit (v_recs (view s b))"
        using read_hot [OF i b rd] by auto
      moreover have "sort_key ckey (v_recs (view s b)) = v_recs (view s b)"
        using view_sorted [OF i b] by (rule sort_key_sorted)
      ultimately show ?thesis
        using rb Inr HotRead by (auto simp: task_good_def after_route_def bucket_page_def open_or_archiving_def
            routes_to_def)
    next
      case (ArchiveRead k)
      with Inr op obtain d where "v_state (view s b) = Archived k d" using read_archive [OF i b] by blast
      then show ?thesis using rb Inr ArchiveRead by (auto simp: task_good_def after_route_def routes_to_def)
    qed
  qed (use op i b in \<open>auto simp: task_good_def after_route_def answering_def dest!: arg_cong [where f = fst]\<close>)
qed

lemma after_fetch_page:
  "after_fetch rng after limit (Ok rs) = Ok (page_of rng after limit (sort_key ckey rs))"
  by (simp add: after_fetch_def page_of_def filter_sort)

lemma get_bucket_routed:
  assumes r: "routed s a L" and b: "valid b" and k: "k = akey b g rs" and c: "content a b k = Some (L b)"
    and op: "as_get_bucket A (w_archive (W n)) b k a = (res, a')"
  shows "routed s a' L" "task_good W a' L rng after limit (Finished (after_fetch rng after limit res)) b"
    "content a' = content a"
proof -
  have i: "ainv a" using r by (simp add: routed_def)
  show c': "content a' = content a" by (rule get_keeps [OF i b op])
  show "routed s a' L" using r get_inv [OF i b op] c' by (simp add: routed_def)
  show "task_good W a' L rng after limit (Finished (after_fetch rng after limit res)) b"
  proof (cases res)
    case (Inr rs)
    then have "L b = rs" using get_ok [OF i b k] op c by fastforce
    then show ?thesis using Inr by (simp add: task_good_def after_fetch_page bucket_page_def)
  qed (use op i b c k in \<open>auto simp: task_good_def after_fetch_def answering_def dest!: arg_cong [where f = fst]\<close>)
qed

lemma read_bucket_routed:
  assumes r: "routed s a L" and b: "valid b" and rd: "readable rng after limit"
  shows "case run S A W (read_bucket b rng after limit) n s a of (res, m, s', a') \<Rightarrow>
    routed s' a' L \<and> (\<exists>x. res = Some x) \<and> (answering W rng after limit \<longrightarrow> (\<exists>x. res = Some (Ok x)))
    \<and> (\<forall>rs. res = Some (Ok rs) \<longrightarrow> rs = bucket_page L rng after limit b)"
proof -
  obtain x s' where op: "ds_read_range S (w_store (W n)) b rng after limit s = (x, s')" by fastforce
  note rr = read_range_routed [where W = W and n = n, OF r b op rd]
  show ?thesis
  proof (cases "after_route b x")
    case (Fetch b' k)
    with rr(2) obtain g rs where k: "b' = b" "k = akey b g rs" "content a b k = Some (L b)"
      by (auto simp: task_good_def)
    obtain y a' where get: "as_get_bucket A (w_archive (W (n + 1))) b k a = (y, a')" by fastforce
    from get_bucket_routed(1) [where W = W and n = "n + 1", OF rr(1) b k(2,3) get] get_bucket_routed(2) [where W = W and n = "n + 1", OF rr(1) b k(2,3) get, of rng after limit]
    show ?thesis
      using op Fetch k get by (cases "after_fetch rng after limit y") (auto simp: read_bucket_def task_good_def)
  qed (use op rr in \<open>auto simp: read_bucket_def task_good_def after_route_def split: sum.splits DurableBucketRead.splits\<close>)
qed

section \<open>Reading the buckets of a range\<close>

text \<open>Whatever the scheduler chooses, a run of the joined reads appends the pages of all its buckets,
  in some order.\<close>

definition joined where
  "joined W L rng after limit bs result outcome \<longleftrightarrow>
     (case outcome of (res, m, s', a') \<Rightarrow> routed s' a' L \<and> (\<exists>x. res = Some x)
       \<and> (answering W rng after limit \<longrightarrow> (\<exists>x. res = Some (Ok x)))
       \<and> (\<forall>out. res = Some (Ok out) \<longrightarrow>
            (\<exists>ps. mset ps = mset bs \<and> out = result @ concat (map (bucket_page L rng after limit) ps))))"

lemma task_good_content: "content a' = content a \<Longrightarrow> task_good W a' L rng after limit = task_good W a L rng after limit"
  by (intro ext) (simp only: task_good_def)

lemma list_all2_drop_nth:
  "list_all2 P xs ys \<Longrightarrow> list_all2 P (drop_nth j xs) (drop_nth j ys)"
  by (auto simp: drop_nth_def intro: list_all2_appendI list_all2_takeI list_all2_dropI)

lemma mset_drop_nth: "j < length ys \<Longrightarrow> mset ys = add_mset (ys ! j) (mset (drop_nth j ys))"
  by (subst id_take_nth_drop [of j ys]) (simp_all add: drop_nth_def)

lemma joined_more:
  fixes W :: "nat \<Rightarrow> ('e, 'f) answers"
  assumes "joined W L rng after limit bs (result @ bucket_page L rng after limit b) outcome"
    and "mset bs' = add_mset b (mset bs)"
  shows "joined W L rng after limit bs' result outcome"
proof -
  obtain res m s' a' where run: "outcome = (res, m, s', a')" by (metis surj_pair)
  have "\<exists>ps. mset ps = mset bs' \<and> out = result @ concat (map (bucket_page L rng after limit) ps)"
    if out: "res = Some (Ok out)" for out
  proof -
    from assms(1) out obtain ps where "mset ps = mset bs"
      "out = (result @ bucket_page L rng after limit b) @ concat (map (bucket_page L rng after limit) ps)"
      unfolding joined_def run by blast
    then show ?thesis using assms(2) by (intro exI [of _ "b # ps"]) simp
  qed
  then show ?thesis using assms(1) by (auto simp: joined_def run)
qed

lemma join_reads_joined:
  assumes "routed s a L" and "list_all2 (task_good W a L rng after limit) tasks bs"
    and "\<forall>b \<in> set bs \<union> set buckets. valid b" and "tasks = [] \<Longrightarrow> buckets = []"
    and "readable rng after limit"
  shows "joined W L rng after limit (bs @ buckets) result
    (run S A W (join_reads rng after limit tasks buckets result) n s a)"
  using assms
proof (induction rng after limit tasks buckets result arbitrary: n s a bs rule: join_reads.induct)
  case (1 rng after limit tasks buckets result)
  show ?case
  proof (cases "tasks = []")
    case True
    then show ?thesis using 1 by (subst join_reads.simps) (auto simp: joined_def)
  next
    case False
    define j where "j = w_choice (W n) mod length tasks"
    then have j: "j < length tasks" using False by simp
    have len: "length bs = length tasks" using "1.prems"(2) by (simp add: list_all2_lengthD)
    have tg: "task_good W a L rng after limit (tasks ! j) (bs ! j)"
      using "1.prems"(2) j by (rule list_all2_nthD)
    have vb: "valid (bs ! j)" using "1.prems"(3) j len by auto
    have upd: "list_all2 (task_good W a L rng after limit) (tasks[j := t]) bs"
      if "task_good W a L rng after limit t (bs ! j)" for t
      using list_all2_update_cong [OF "1.prems"(2) that, of j] by simp
    show ?thesis
    proof (cases "tasks ! j")
      case (Route b)
      then have b: "b = bs ! j" using tg by (simp add: task_good_def)
      obtain x s' where op: "ds_read_range S (w_store (W (n + 1))) b rng after limit s = (x, s')" by fastforce
      note rr = read_range_routed [where W = W and n = "n + 1", OF "1.prems"(1) vb op [unfolded b] "1.prems"(5)]
      have "joined W L rng after limit (bs @ buckets) result
          (run S A W (join_reads rng after limit (tasks[j := after_route b x]) buckets result) (n + 2) s' a)"
        by (rule "1.IH"(1) [OF False j_def Route rr(1) upd "1.prems"(3)]) (use rr(2) b False "1.prems"(5) in auto)
      then show ?thesis
        using False Route op by (subst join_reads.simps) (simp add: j_def [symmetric])
    next
      case (Fetch b k)
      with tg obtain g rs where k: "b = bs ! j" "k = akey (bs ! j) g rs" "content a (bs ! j) k = Some (L (bs ! j))"
        by (auto simp: task_good_def)
      obtain y a' where get: "as_get_bucket A (w_archive (W (n + 1))) b k a = (y, a')" by fastforce
      note gr = get_bucket_routed [where W = W and n = "n + 1", OF "1.prems"(1) vb k(2,3) get [unfolded k(1)]]
      have "joined W L rng after limit (bs @ buckets) result
          (run S A W (join_reads rng after limit (tasks[j := Finished (after_fetch rng after limit y)]) buckets result)
            (n + 2) s a')"
        by (rule "1.IH"(2) [OF False j_def Fetch gr(1) _ "1.prems"(3)])
          (use upd gr(2) task_good_content [OF gr(3)] False "1.prems"(5) in auto)
      then show ?thesis
        using False Fetch get by (subst join_reads.simps) (simp add: j_def [symmetric])
    next
      case (Finished res)
      show ?thesis
      proof (cases res)
        case (Inl e)
        then show ?thesis
          using False Finished "1.prems"(1) tg
          by (subst join_reads.simps) (simp add: j_def [symmetric] joined_def task_good_def)
      next
        case (Inr rs)
        then have rs: "rs = bucket_page L rng after limit (bs ! j)"
          using tg Finished by (simp add: task_good_def)
        have dn: "list_all2 (task_good W a L rng after limit) (drop_nth j tasks) (drop_nth j bs)"
          by (rule list_all2_drop_nth [OF "1.prems"(2)])
        have sub: "set (drop_nth j bs) \<subseteq> set bs"
          by (auto simp: drop_nth_def dest: in_set_takeD in_set_dropD)
        note ms = mset_drop_nth [of j bs]
        show ?thesis
        proof (cases buckets)
          case Nil
          have "joined W L rng after limit (drop_nth j bs @ []) (result @ rs)
              (run S A W (join_reads rng after limit (drop_nth j tasks) [] (result @ rs)) (n + 1) s a)"
            by (rule "1.IH"(3) [OF False j_def Finished Inr Nil "1.prems"(1) dn]) (use "1.prems"(3,5) sub in auto)
          then show ?thesis
            using False Finished Inr Nil joined_more [of W L rng after limit "drop_nth j bs" result "bs ! j" _ bs] rs ms j len
            by (subst join_reads.simps) (simp add: j_def [symmetric])
        next
          case (Cons b cs)
          have app: "list_all2 (task_good W a L rng after limit) (drop_nth j tasks @ [Route b]) (drop_nth j bs @ [b])"
            by (rule list_all2_appendI [OF dn]) (simp add: task_good_def)
          have "joined W L rng after limit ((drop_nth j bs @ [b]) @ cs) (result @ rs)
              (run S A W (join_reads rng after limit (drop_nth j tasks @ [Route b]) cs (result @ rs)) (n + 1) s a)"
            by (rule "1.IH"(4) [OF False j_def Finished Inr Cons "1.prems"(1) app])
              (use "1.prems"(3,5) sub Cons in auto)
          then show ?thesis
            using False Finished Inr Cons rs ms j len
              joined_more [of W L rng after limit "drop_nth j bs @ b # cs" result "bs ! j" _ "bs @ b # cs"]
            by (subst join_reads.simps) (simp add: j_def [symmetric])
        qed
      qed
    qed
  qed
qed

lemma joined_buckets_perm:
  "joined W L rng after limit bs result outcome \<Longrightarrow> mset bs = mset bs' \<Longrightarrow> joined W L rng after limit bs' result outcome"
  by (simp add: joined_def)

lemma read_buckets_joined:
  assumes "routed s a L" and "\<forall>b \<in> set buckets. valid b" and "readable rng after limit"
  shows "joined W L rng after limit buckets [] (run S A W (read_buckets buckets rng after limit) n s a)"
proof (cases buckets)
  case Nil
  then show ?thesis using assms by (simp add: read_buckets_def joined_def)
next
  case (Cons first others)
  show ?thesis
  proof (cases others)
    case Nil
    have "\<exists>ps. mset ps = {#first#} \<and> bucket_page L rng after limit first = concat (map (bucket_page L rng after limit) ps)"
      by (rule exI [of _ "[first]"]) simp
    then show ?thesis
      using read_bucket_routed [OF assms(1) _ assms(3), of first W n] assms(2) Cons Nil
      by (auto simp: read_buckets_def joined_def)
  next
    case (Cons second rest)
    let ?bs = "first # second # take (MAX_PARALLEL_BUCKET_READS - 2) rest"
    have "list_all2 (task_good W a L rng after limit) (map Route ?bs) ?bs"
      unfolding list_all2_map1 by (rule list_all2_refl) (simp add: task_good_def)
    then have "joined W L rng after limit (?bs @ drop (MAX_PARALLEL_BUCKET_READS - 2) rest) []
        (run S A W (join_reads rng after limit (map Route ?bs) (drop (MAX_PARALLEL_BUCKET_READS - 2) rest) []) n s a)"
      using assms(2,3) Cons \<open>buckets = first # others\<close>
      by (intro join_reads_joined [OF assms(1)]) (auto dest: in_set_takeD in_set_dropD)
    then show ?thesis
      using Cons \<open>buckets = first # others\<close> by (simp add: read_buckets_def)
  qed
qed

lemma query_page_routed:
  assumes r: "routed s a L" and bs: "buckets_for_range C td (q_partition_key q) (q_range q) = Some bs"
    and valid: "\<forall>b \<in> set bs. valid b" and ord: "time_ordered bs"
    and lt: "\<And>b. b \<in> set bs \<Longrightarrow> bid_start b < bid_end b"
    and inb: "\<And>b r. b \<in> set bs \<Longrightarrow> r \<in> set (L b) \<Longrightarrow> bid_contains b (rec_event_time r)"
    and rng: "tr_start (q_range q) < tr_end (q_range q)"
    and small: "q_limit q < USIZE_MAX
      \<or> q_limit q = USIZE_MAX \<and> length (concat (map L bs)) \<le> USIZE_MAX"
    and rd: "readable (q_range q) (q_after q) (saturating_add (q_limit q) 1)"
  shows "case run S A W (query_page C td q) n s a of (res, m, s', a') \<Rightarrow>
    routed s' a' L \<and> (\<exists>x. res = Some x) \<and> (answering W (q_range q) (q_after q) (saturating_add (q_limit q) 1) \<longrightarrow> (\<exists>x. res = Some (Ok x)))
    \<and> (\<forall>page. res = Some (Ok page) \<longrightarrow> page_exact q (concat (map (\<lambda>b. sort_key ckey (L b)) bs)) page)"
proof (cases "q_limit q = 0")
  case True
  then show ?thesis using r rng by (simp add: query_page_def page_exact_def)
next
  case False
  let ?lim = "saturating_add (q_limit q) 1"
    and ?sel = "\<lambda>b. selection (q_range q) (q_after q) (sort_key ckey (L b))"
  let ?all = "selection (q_range q) (q_after q) (concat (map (\<lambda>b. sort_key ckey (L b)) bs))"
  obtain res m s' a' where rn: "run S A W (read_buckets bs (q_range q) (q_after q) ?lim) n s a = (res, m, s', a')"
    by (metis surj_pair)
  note j = read_buckets_joined [OF r valid rd, of W n, unfolded rn]
  have all: "?all = concat (map ?sel bs)" by (simp add: selection_concat comp_def)
  have page: "sort_key ckey rs = concat (map (take ?lim) (map ?sel bs))" if ok: "res = Some (Ok rs)" for rs
  proof -
    from j ok obtain ps where ps: "mset ps = mset bs"
      "rs = concat (map (bucket_page L (q_range q) (q_after q) ?lim) ps)"
      by (auto simp: joined_def)
    have "sort_key ckey rs = concat (map (bucket_page L (q_range q) (q_after q) ?lim) bs)"
      unfolding ps(2)
      by (rule sort_bucket_pages [OF ord ps(1) lt])
        (auto simp: bucket_page_def page_of_def sorted_by_take sorted_by_filter inb dest!: in_set_takeD)
    then show ?thesis by (simp add: bucket_page_def [abs_def] page_of_selection comp_def)
  qed
  have "length ?all \<le> length (concat (map L bs))"
  proof -
    have "length ?all \<le> length (concat (map (\<lambda>b. sort_key ckey (L b)) bs))"
      unfolding selection_def by (meson le_trans length_filter_le)
    also have "\<dots> = length (concat (map L bs))" by (simp add: length_concat comp_def)
    finally show ?thesis .
  qed
  then have "q_limit q < USIZE_MAX \<or> length (concat (map ?sel bs)) \<le> USIZE_MAX" and "q_limit q \<le> USIZE_MAX"
    using small unfolding all by auto
  note more = more_iff [OF this]
  show ?thesis
  proof (cases "\<exists>rs. res = Some (Ok rs)")
    case True
    then obtain rs where ok: "res = Some (Ok rs)" by blast
    have len: "q_limit q < length rs \<longleftrightarrow> q_limit q < length ?all"
      using more(2) page [OF ok] by (metis length_sort all)
    have tk: "take (q_limit q) (sort_key ckey rs) = take (q_limit q) ?all"
      using more(1) page [OF ok] all by simp
    have "take (q_limit q) ?all \<noteq> []" if "q_limit q < length ?all"
      using that False by auto
    then show ?thesis
      using j rng False ok len tk
      by (auto simp: query_page_def run_bind rn bs joined_def page_exact_def Let_def not_le simp del: One_nat_def)
  next
    case False
    then show ?thesis
      using j rng \<open>q_limit q \<noteq> 0\<close>
      by (auto simp: query_page_def run_bind rn bs joined_def Let_def not_le simp del: One_nat_def split: sum.splits)
  qed
qed

text \<open>In every reachable configuration the stores route each bucket to records that contain everything
  acknowledged.\<close>

lemma bucket_ok_routes:
  assumes "bucket_ok (content a) F b v att ack"
  shows "\<exists>rs. logical content a b v = Some rs \<and> routes_to (content a) b v rs \<and> list_all (fits b) rs"
  using assms
  by (auto simp: bucket_ok_def logical_def routes_to_def archived_ok_def split: BucketState.splits)

lemma sys_inv_routed:
  assumes "sys_inv c"
  shows "routed (cf_store c) (cf_archive c) (\<lambda>b. the (logical content (cf_archive c) b (view (cf_store c) b)))"
    "valid b \<Longrightarrow> list_all (fits b) (the (logical content (cf_archive c) b (view (cf_store c) b)))"
  using assms bucket_ok_routes by (fastforce simp: sys_inv_def env_ok_def routed_def)+

end

section \<open>The programs of the table keep the discipline\<close>

definition derives :: "chrono \<Rightarrow> TableDefinition \<Rightarrow> PartitionKey \<Rightarrow> BucketId \<Rightarrow> bool" where
  "derives C td pk b \<longleftrightarrow> (\<exists>t. c_rep C t \<and> bucket_for_event_time C td pk t = Some b)"

lemma derives_canonical: "derives C td pk b \<Longrightarrow> canonical C b"
  by (auto simp: derives_def intro: canonical_bucket_for)

lemma buckets_loop_derives:
  assumes "buckets_loop C td pk e b acc = Some bs"
  shows "utc_calendar C \<longrightarrow> derives C td pk b \<longrightarrow> (\<forall>x \<in> set acc. derives C td pk x)
    \<longrightarrow> (\<forall>x \<in> set bs. derives C td pk x)"
  using assms
proof (induction rule: buckets_loop.raw_induct [rotated, consumes 1, case_names step])
  case (step loop C td pk e b acc bs)
  show ?case
  proof (intro impI)
    assume cal: "utc_calendar C" and b: "derives C td pk b" and acc: "\<forall>x \<in> set acc. derives C td pk x"
    show "\<forall>x \<in> set bs. derives C td pk x"
    proof (cases "bid_start b < e")
      case True
      with step.hyps obtain n where n: "bucket_for_event_time C td pk (bid_end b) = Some n"
        and rec: "loop C td pk e n (acc @ [b]) = Some bs"
        by (auto simp: bind_eq_Some_conv)
      have "derives C td pk n"
        using utc_calendar.bucket_for_rep(2) [OF cal] b n unfolding derives_def by blast
      then show ?thesis using step.IH [OF rec] cal b acc by simp
    qed (use step.hyps acc in simp)
  qed
qed

lemma buckets_for_range_derives:
  assumes "utc_calendar C" and "c_rep C (tr_start rng)" and "buckets_for_range C td pk rng = Some bs" and "b \<in> set bs"
  shows "derives C td pk b"
proof (cases "tr_start rng < tr_end rng")
  case True
  then obtain c where c: "bucket_for_event_time C td pk (tr_start rng) = Some c"
    "buckets_loop C td pk (tr_end rng) c [] = Some bs"
    using assms(3) by (auto simp: buckets_for_range_def bind_eq_Some_conv)
  then have "derives C td pk c" using assms(2) by (auto simp: derives_def)
  then show ?thesis using buckets_loop_derives [OF c(2)] assms(1,4) by simp
qed (use assms in \<open>simp add: buckets_for_range_def\<close>)

lemma read_bucket_disciplined: "V b \<Longrightarrow> disciplined V R (read_bucket b rng after limit) K U"
  by (auto simp: read_bucket_def after_route_def split: read_task.splits sum.splits DurableBucketRead.splits)

primrec task_bucket :: "(BucketId \<Rightarrow> bool) \<Rightarrow> read_task \<Rightarrow> bool" where
  "task_bucket V (Route b) = V b"
| "task_bucket V (Fetch b key) = V b"
| "task_bucket V (Finished res) = True"

lemma join_reads_disciplined:
  "\<lbrakk> \<forall>t \<in> set tasks. task_bucket V t; \<forall>b \<in> set buckets. V b \<rbrakk>
     \<Longrightarrow> disciplined V R (join_reads rng after limit tasks buckets result) K U"
proof (induction rng after limit tasks buckets result rule: join_reads.induct)
  case (1 rng after limit tasks buckets result)
  show ?case
  proof (cases "tasks = []")
    case False
    have drop: "\<forall>t \<in> set (drop_nth j tasks). task_bucket V t" for j
      using "1.prems"(1) by (auto simp: drop_nth_def dest: in_set_takeD in_set_dropD)
    have upd: "\<forall>t \<in> set (tasks[j := t']). task_bucket V t" if "task_bucket V t'" for j t'
      using that "1.prems"(1) set_update_subset_insert [of tasks j t'] by blast
    have "disciplined V R
        (case tasks ! j of
           Route b \<Rightarrow> ReadRange b rng after limit (\<lambda>routed.
             join_reads rng after limit (tasks[j := after_route b routed]) buckets result)
         | Fetch b key \<Rightarrow> GetBucket b key (\<lambda>fetched.
             join_reads rng after limit (tasks[j := Finished (after_fetch rng after limit fetched)]) buckets result)
         | Finished (Inl error) \<Rightarrow> Done (Err error)
         | Finished (Inr records) \<Rightarrow>
             (case buckets of
                [] \<Rightarrow> join_reads rng after limit (drop_nth j tasks) [] (result @ records)
              | b # bs \<Rightarrow> join_reads rng after limit (drop_nth j tasks @ [Route b]) bs (result @ records))) K U"
      if j: "j = i mod length tasks" for i j
    proof (cases "tasks ! j")
      case (Route b)
      have "task_bucket V (tasks ! j)" using "1.prems"(1) False j by simp
      then have V: "V b" using Route by simp
      then have "task_bucket V (after_route b x)" for x
        by (auto simp: after_route_def split: sum.splits DurableBucketRead.splits)
      then have "disciplined V R (join_reads rng after limit (tasks[j := after_route b x]) buckets result) K U" for x
        using "1.IH"(1) [OF False j Route upd "1.prems"(2)] by blast
      then show ?thesis using V Route by simp
    next
      case (Fetch b key)
      have "task_bucket V (tasks ! j)" using "1.prems"(1) False j by simp
      then have V: "V b" using Fetch by simp
      have "disciplined V R
          (join_reads rng after limit (tasks[j := Finished (after_fetch rng after limit x)]) buckets result) K U" for x
        by (rule "1.IH"(2) [OF False j Fetch upd "1.prems"(2)]) simp
      then show ?thesis using V Fetch by simp
    next
      case (Finished res)
      then show ?thesis
        using "1.IH"(3) [OF False j Finished] "1.IH"(4) [OF False j Finished] "1.prems" drop
        by (auto split: sum.splits list.splits)
    qed
    then show ?thesis by (subst join_reads.simps) (simp add: False Let_def)
  qed (subst join_reads.simps, simp)
qed

lemma read_buckets_disciplined:
  "\<forall>b \<in> set bs. V b \<Longrightarrow> disciplined V R (read_buckets bs rng after limit) K U"
  by (auto simp: read_buckets_def read_bucket_disciplined intro!: join_reads_disciplined
      dest!: in_set_takeD in_set_dropD split: list.splits)

lemma query_page_disciplined:
  assumes "utc_calendar C" and "c_rep C (tr_start (q_range q))" and "\<And>b. canonical C b \<Longrightarrow> V b"
  shows "disciplined V R (query_page C td q) K U"
proof -
  have "\<forall>b \<in> set bs. V b" if "buckets_for_range C td (q_partition_key q) (q_range q) = Some bs" for bs
    using buckets_for_range_derives [OF assms(1,2) that] derives_canonical assms(3) by blast
  then show ?thesis
    by (auto simp: query_page_def Let_def read_buckets_disciplined intro!: disciplined_bind
        split: option.splits sum.splits)
qed

lemma table_append_disciplined:
  assumes "utc_calendar C" and "c_rep C (rec_event_time r)" and "\<And>b. canonical C b \<Longrightarrow> V b" and "R r"
  shows "disciplined V R (table_append C td r) K U"
proof (cases "bucket_for C td r")
  case (Some b)
  then have b: "bucket_for_event_time C td (rec_partition_key r) (rec_event_time r) = Some b"
    by (simp add: bucket_for_def)
  have "V b" using canonical_bucket_for [OF b assms(2)] assms(3) by blast
  moreover have "fits b r"
    using utc_calendar.bucket_for_contains(1) [OF assms(1) b assms(2)] bucket_for_event_time_fields(3) [OF b]
    by (simp add: fits_def)
  ultimately show ?thesis
    using Some assms(4) by (auto simp: table_append_def Let_def split: option.splits list.splits)
qed (simp add: table_append_def)

section \<open>The tasks of the library\<close>

text \<open>What runs against the stores: appends and queries of a table, direct archivals, recovery cycles,
  archiver processes and the lease renewers they start.\<close>

inductive library_task :: "chrono \<Rightarrow> (Record \<Rightarrow> bool) \<Rightarrow> unit prog \<Rightarrow> bool"
  for C R where
  append_task: "\<lbrakk> c_rep C (rec_event_time r); R r \<rbrakk> \<Longrightarrow> library_task C R (detach (table_append C td r))"
| query_task: "c_rep C (tr_start (q_range q)) \<Longrightarrow> library_task C R (detach (query_page C td q))"
| archive_task: "canonical C b \<Longrightarrow> library_task C R (detach (archive_bucket b))"
| recovery_task: "library_task C R (detach (run_once config))"
| archiver_task: "library_task C R (archiver_loop n config)"
| renewal_task: "canonical C (ses_bucket ses) \<Longrightarrow> library_task C R (detach (renewer_task ses d n))"

lemma library_task_disciplined:
  assumes "library_task C R p" and "utc_calendar C"
  shows "disciplined (canonical C) R p {} {}"
  using assms(1)
proof cases
  case (append_task r td)
  then show ?thesis by (auto intro!: detach_disciplined table_append_disciplined assms(2))
next
  case (query_task q td)
  then show ?thesis by (auto intro!: detach_disciplined query_page_disciplined assms(2))
qed (auto intro!: detach_disciplined archive_bucket_disciplined run_once_disciplined archiver_loop_disciplined
    renewer_task_disciplined)

section \<open>Queries in a reachable configuration\<close>

text \<open>The records of the buckets \<open>bs\<close>, in the declared order.\<close>

definition table_records ::
    "('a \<Rightarrow> BucketId \<Rightarrow> string \<Rightarrow> Record list option) \<Rightarrow> ('s \<Rightarrow> BucketId \<Rightarrow> bucket_view) \<Rightarrow> ('s, 'a) config
     \<Rightarrow> BucketId list \<Rightarrow> Record list" where
  "table_records content view c bs =
     concat (map (\<lambda>b. sort_key ckey (the (logical content (cf_archive c) b (view (cf_store c) b)))) bs)"

text \<open>Every bucket that a query of the range can meet is representable.\<close>

definition range_rep :: "chrono \<Rightarrow> TableDefinition \<Rightarrow> TimeRange \<Rightarrow> bool" where
  "range_rep C td rng \<longleftrightarrow> c_rep C (tr_start rng) \<and> c_rep C (tr_end rng - 1) \<and> tr_start rng < tr_end rng
     \<and> (\<exists>a F. bucket_bounds C (td_bucket_strategy td) (tr_end rng - 1) = Some (a, F)
            \<and> bucket_bounds C (td_bucket_strategy td) F \<noteq> None)"

lemma page_exact_continue:
  assumes "sorted_by ckey rs" and "distinct (map ckey rs)" and "0 < q_limit q"
    and "page_exact q rs page" and "qp_next page = Some c"
    and "page_exact (q\<lparr> q_after := Some c, q_limit := n \<rparr>) rs page'"
  shows "qp_records page @ qp_records page' = take (q_limit q + n) (selection (q_range q) (q_after q) rs)"
proof -
  let ?sel = "selection (q_range q) (q_after q) rs"
  have more: "q_limit q < length ?sel" and recs: "qp_records page = take (q_limit q) ?sel"
    and c: "c = cursor_of (last (take (q_limit q) ?sel))"
    using assms(3,4,5) by (auto simp: page_exact_def split: if_splits)
  have "last (take (q_limit q) ?sel) = ?sel ! (q_limit q - 1)"
    using more assms(3) by (subst last_conv_nth) (auto simp: min_def)
  then have "selection (q_range q) (Some c) rs = drop (q_limit q) ?sel"
    using selection_resume [OF assms(1,2,3), of "q_range q" "q_after q"] more c by simp
  then have "qp_records page' = take n (drop (q_limit q) ?sel)"
    using assms(6) by (simp add: page_exact_def)
  then show ?thesis using recs by (simp add: take_add)
qed

context archival_system
begin

lemma query_page_reachable:
  assumes inv: "sys_inv c" and cal: "utc_calendar C" and V: "\<And>b. canonical C b \<Longrightarrow> valid b"
    and rep: "range_rep C td (q_range q)"
    and bs: "buckets_for_range C td (q_partition_key q) (q_range q) = Some bs"
    and small: "q_limit q < USIZE_MAX \<or> q_limit q = USIZE_MAX \<and> length (table_records content view c bs) \<le> USIZE_MAX"
    and rd: "readable (q_range q) (q_after q) (saturating_add (q_limit q) 1)"
    and rt: "routed s a (\<lambda>b. the (logical content (cf_archive c) b (view (cf_store c) b)))"
  shows "case run S A W (query_page C td q) n s a of (res, m, s', a') \<Rightarrow>
    routed s' a' (\<lambda>b. the (logical content (cf_archive c) b (view (cf_store c) b))) \<and> (\<exists>x. res = Some x)
    \<and> (answering W (q_range q) (q_after q) (saturating_add (q_limit q) 1) \<longrightarrow> (\<exists>x. res = Some (Ok x)))
    \<and> (\<forall>page. res = Some (Ok page) \<longrightarrow> page_exact q (table_records content view c bs) page)"
proof -
  let ?L = "\<lambda>b. the (logical content (cf_archive c) b (view (cf_store c) b))"
  from rep obtain u F where "c_rep C (tr_start (q_range q))" "c_rep C (tr_end (q_range q) - 1)"
    "tr_start (q_range q) < tr_end (q_range q)"
    "bucket_bounds C (td_bucket_strategy td) (tr_end (q_range q) - 1) = Some (u, F)"
    "bucket_bounds C (td_bucket_strategy td) F \<noteq> None"
    by (auto simp: range_rep_def)
  note rep = this
  from utc_calendar.buckets_for_range_chain [OF cal rep, of "q_partition_key q"] bs
  have ch: "bucket_chain C td (q_partition_key q) bs" by auto
  have valid: "\<forall>b \<in> set bs. valid b"
    using buckets_for_range_derives [OF cal rep(1) bs] derives_canonical V by blast
  have inb: "bid_contains b (rec_event_time r)" if "b \<in> set bs" "r \<in> set (?L b)" for b r
    using sys_inv_routed(2) [OF inv, of b] valid that by (auto simp: list_all_iff fits_def)
  have "length (table_records content view c bs) = length (concat (map ?L bs))"
    by (simp add: table_records_def length_concat comp_def)
  with small have "q_limit q < USIZE_MAX \<or> q_limit q = USIZE_MAX \<and> length (concat (map ?L bs)) \<le> USIZE_MAX"
    by simp
  from query_page_routed [OF rt bs valid utc_calendar.chain_sorted [OF cal ch, folded time_ordered_def]
      utc_calendar.chain_lt [OF cal ch] inb rep(3) this rd]
  show ?thesis unfolding table_records_def .
qed

end

end
