(* ===== verification/Cockroach_Schema.thy ===== *)
theory Cockroach_Schema
  imports Ports
begin

text \<open>
  The versioned schema of the CockroachDB store: \<open>src/src/adapters/cockroach_schema.rs\<close> and the lifecycle
  functions \<open>migrate\<close> and \<open>validate_schema\<close> of \<open>src/src/adapters/cockroach_durable.rs\<close>. The lemmas show
  that a migration history is accepted exactly when it is an initial part of the shipped migrations, that
  the plan is the rest, and that a database which \<open>migrate\<close> has brought up to date passes the startup check.
\<close>

section \<open>Migrations\<close>

definition V4_METADATA_TABLE :: string where
  "V4_METADATA_TABLE = ''pulpitum_v4_bucket_metadata''"

definition V4_RECORDS_TABLE :: string where
  "V4_RECORDS_TABLE = ''pulpitum_v4_records''"

definition V4_BASELINE_SQL :: string where
  "V4_BASELINE_SQL = ''CREATE TABLE IF NOT EXISTS pulpitum_v4_bucket_metadata (
    table_id STRING NOT NULL,
    partition_key BYTES NOT NULL,
    bucket_key STRING NOT NULL,
    bucket_strategy STRING NOT NULL,
    bucket_start TIMESTAMPTZ NOT NULL,
    bucket_end TIMESTAMPTZ NOT NULL,
    state STRING NOT NULL DEFAULT 'hot',
    generation INT8 NOT NULL DEFAULT 0,
    archive_owner_token STRING NULL,
    archive_owner_expires_at TIMESTAMPTZ NULL,
    archive_object_key STRING NULL,
    hot_deleted BOOL NOT NULL DEFAULT false,
    archive_attempts INT8 NOT NULL DEFAULT 0,
    archive_next_attempt_at TIMESTAMPTZ NULL,
    PRIMARY KEY (table_id, partition_key, bucket_key),
    CONSTRAINT pulpitum_v4_metadata_state_check
        CHECK (state IN ('hot', 'archiving', 'archived')),
    CONSTRAINT pulpitum_v4_metadata_generation_check
        CHECK (generation >= 0),
    CONSTRAINT pulpitum_v4_metadata_bounds_check
        CHECK (bucket_start < bucket_end),
    CONSTRAINT pulpitum_v4_metadata_invariants CHECK (
        (state = 'hot'
            AND archive_owner_token IS NULL
            AND archive_owner_expires_at IS NULL
            AND archive_object_key IS NULL
            AND hot_deleted = false)
        OR (state = 'archiving'
            AND archive_owner_token IS NOT NULL
            AND archive_owner_expires_at IS NOT NULL
            AND archive_object_key IS NULL
            AND hot_deleted = false)
        OR (state = 'archived'
            AND archive_owner_token IS NOT NULL
            AND archive_object_key IS NOT NULL)
    )
);
CREATE TABLE IF NOT EXISTS pulpitum_v4_records (
    table_id STRING NOT NULL,
    partition_key BYTES NOT NULL,
    bucket_key STRING NOT NULL,
    event_time TIMESTAMPTZ NOT NULL,
    sort_key BYTES NOT NULL,
    value BYTES NOT NULL,
    PRIMARY KEY (table_id, partition_key, bucket_key, event_time, sort_key),
    CONSTRAINT pulpitum_v4_records_bucket_fk
        FOREIGN KEY (table_id, partition_key, bucket_key)
        REFERENCES pulpitum_v4_bucket_metadata (table_id, partition_key, bucket_key)
);
CREATE INDEX IF NOT EXISTS pulpitum_v4_archive_discovery_idx
    ON pulpitum_v4_bucket_metadata
    (state, hot_deleted, archive_next_attempt_at, archive_owner_expires_at,
     bucket_end, table_id, partition_key, bucket_key);''"

record SchemaMigration =
  sm_version :: int
  sm_name :: string
  sm_sql :: string

record AppliedMigration =
  am_version :: int
  am_name :: string
  am_checksum :: string

text \<open>\<open>sha\<close> stands for \<open>Sha256\<close>.\<close>

definition migration_checksum :: "(byte list \<Rightarrow> byte list) \<Rightarrow> string \<Rightarrow> string" where
  "migration_checksum sha sql = concat (map hex_byte (sha (as_bytes sql)))"

definition checksum :: "(byte list \<Rightarrow> byte list) \<Rightarrow> SchemaMigration \<Rightarrow> string" where
  "checksum sha m = migration_checksum sha (sm_sql m)"

definition MIGRATIONS :: "SchemaMigration list" where
  "MIGRATIONS = [\<lparr> sm_version = 4, sm_name = ''v4_durable_bucket_store_baseline'', sm_sql = V4_BASELINE_SQL \<rparr>]"

datatype CockroachSchemaError =
    SchemaDatabase string
  | ChecksumDrift int string string string string
  | UnsupportedHistoricalVersion int int
  | FutureVersion int int
  | MigrationGap int int
  | DuplicateVersion int
  | PendingMigrations "int list"
  | MissingColumn string string
  | PrimaryKeyMismatch string "string list" "string list"

section \<open>Planning\<close>

text \<open>The ordered map \<open>expected\<close>: a later migration replaces an earlier one with its version.\<close>

definition expected_get :: "SchemaMigration list \<Rightarrow> int \<Rightarrow> SchemaMigration option" where
  "expected_get migrations v = map_of (rev (map (\<lambda>m. (sm_version m, m)) migrations)) v"

text \<open>The loop over the applied migrations; \<open>seen\<close> holds the versions met so far.\<close>

fun check_applied ::
    "(byte list \<Rightarrow> byte list) \<Rightarrow> SchemaMigration list \<Rightarrow> int list \<Rightarrow> AppliedMigration list
     \<Rightarrow> (CockroachSchemaError, int list) result" where
  "check_applied sha migrations seen [] = Ok seen"
| "check_applied sha migrations seen (m # ms) =
     (if am_version m \<in> set seen then Err (DuplicateVersion (am_version m))
      else if am_version m < sm_version (hd migrations)
      then Err (UnsupportedHistoricalVersion (am_version m) (sm_version (hd migrations)))
      else if am_version m > sm_version (last migrations)
      then Err (FutureVersion (am_version m) (sm_version (last migrations)))
      else case expected_get migrations (am_version m) of
        None \<Rightarrow> Err (MigrationGap
          (case find (\<lambda>c. sm_version c > am_version m) migrations of
             None \<Rightarrow> am_version m | Some c \<Rightarrow> sm_version c) (am_version m))
      | Some e \<Rightarrow>
          if am_name m \<noteq> sm_name e \<or> am_checksum m \<noteq> checksum sha e
          then Err (ChecksumDrift (am_version m) (sm_name e) (checksum sha e) (am_name m) (am_checksum m))
          else check_applied sha migrations (am_version m # seen) ms)"

text \<open>The loop over the applied versions in their order; \<open>None\<close> is the panic of an index out of range.\<close>

fun check_gaps ::
    "SchemaMigration list \<Rightarrow> int list \<Rightarrow> (CockroachSchemaError, unit) result option" where
  "check_gaps migrations [] = Some (Ok ())"
| "check_gaps [] (v # vs) = None"
| "check_gaps (m # ms) (v # vs) =
     (if v \<noteq> sm_version m then Some (Err (MigrationGap (sm_version m) v)) else check_gaps ms vs)"

definition plan_migrations ::
    "(byte list \<Rightarrow> byte list) \<Rightarrow> SchemaMigration list \<Rightarrow> AppliedMigration list
     \<Rightarrow> (CockroachSchemaError, SchemaMigration list) result option" where
  "plan_migrations sha migrations applied =
     (if migrations = [] then None
      else case check_applied sha migrations [] applied of
        Inl e \<Rightarrow> Some (Err e)
      | Inr seen \<Rightarrow>
          (case check_gaps migrations (sort seen) of
             None \<Rightarrow> None
           | Some (Inl e) \<Rightarrow> Some (Err e)
           | Some (Inr _) \<Rightarrow> Some (Ok (filter (\<lambda>m. sm_version m \<notin> set seen) migrations))))"

section \<open>The expected tables\<close>

record ExpectedTable =
  et_name :: string
  et_columns :: "string list"
  et_primary_key :: "string list"

definition EXPECTED_V4_TABLES :: "ExpectedTable list" where
  "EXPECTED_V4_TABLES =
     [\<lparr> et_name = V4_METADATA_TABLE,
        et_columns = [''table_id'', ''partition_key'', ''bucket_key'', ''bucket_strategy'', ''bucket_start'',
          ''bucket_end'', ''state'', ''generation'', ''archive_owner_token'', ''archive_owner_expires_at'',
          ''archive_object_key'', ''hot_deleted'', ''archive_attempts'', ''archive_next_attempt_at''],
        et_primary_key = [''table_id'', ''partition_key'', ''bucket_key''] \<rparr>,
      \<lparr> et_name = V4_RECORDS_TABLE,
        et_columns = [''table_id'', ''partition_key'', ''bucket_key'', ''event_time'', ''sort_key'', ''value''],
        et_primary_key = [''table_id'', ''partition_key'', ''bucket_key'', ''event_time'', ''sort_key''] \<rparr>]"

section \<open>The lifecycle\<close>

text \<open>
  What the driver reports of a failed statement: whether it carries the code of a serialization failure,
  whether the database sent it (and not the connection), and its text.
\<close>

record pg_error =
  pe_serialization :: bool
  pe_db :: bool
  pe_message :: string

definition is_retryable :: "pg_error \<Rightarrow> bool" where
  "is_retryable e \<longleftrightarrow> pe_serialization e"

definition MAX_TRANSACTION_ATTEMPTS :: nat where
  "MAX_TRANSACTION_ATTEMPTS = 5"

text \<open>The answer to \<open>COMMIT\<close>. After an error the transaction may still have taken effect, except that a
  serialization failure reports that it did not.\<close>

datatype commit_answer = Committed | CommitError pg_error bool

definition takes_effect :: "commit_answer \<Rightarrow> bool" where
  "takes_effect c = (case c of Committed \<Rightarrow> True | CommitError e applied \<Rightarrow> applied \<and> \<not> is_retryable e)"

text \<open>
  \<open>transaction_retry_delay\<close> in milliseconds; \<open>sample\<close> is the random \<open>u16\<close> from the bytes of the UUID.
\<close>

definition transaction_retry_delay :: "16 word \<Rightarrow> nat \<Rightarrow> nat" where
  "transaction_retry_delay sample attempt =
     (let multiplier = push_bit (min attempt 5) (1 :: nat);
          cap_millis = min (min (25 * multiplier) U64_MAX) 1000;
          half = cap_millis div 2
      in half + unat sample mod (half + 1))"

text \<open>
  The catalogue and the migration history of a database. A table that does not exist is absent; a missing
  history is \<open>None\<close>.
\<close>

record table_shape =
  ts_columns :: "string list"
  ts_primary_key :: "string list"

record schema_db =
  sd_history :: "AppliedMigration list option"
  sd_tables :: "(string \<times> table_shape) list"

text \<open>How the database executes the SQL of a migration on its catalogue.\<close>

type_synonym ddl = "string \<Rightarrow> (string \<times> table_shape) list \<Rightarrow> (pg_error, (string \<times> table_shape) list) result"

text \<open>What the environment answers in one attempt: errors of the pool, of \<open>BEGIN\<close>, of the query of the
  history, of a statement of a migration, and the answer to \<open>COMMIT\<close>.\<close>

record migrate_attempt =
  ma_acquire :: "string option"
  ma_begin :: "pg_error option"
  ma_read :: "pg_error option"
  ma_migration :: "int \<Rightarrow> pg_error option"
  ma_commit :: commit_answer

record migrate_env =
  me_acquire :: "string option"
  me_create :: "pg_error option"
  me_attempt :: "nat \<Rightarrow> migrate_attempt"

definition CREATE_MIGRATION_HISTORY_SQL :: string where
  "CREATE_MIGRATION_HISTORY_SQL = ''CREATE TABLE IF NOT EXISTS pulpitum_schema_migrations (
    version INT8 NOT NULL PRIMARY KEY,
    name STRING NOT NULL,
    checksum STRING NOT NULL,
    applied_at TIMESTAMPTZ NOT NULL DEFAULT now(),
    CONSTRAINT pulpitum_schema_migrations_version_check CHECK (version >= 0),
    CONSTRAINT pulpitum_schema_migrations_name_unique UNIQUE (name)
);''"

text \<open>The effect of \<open>CREATE_MIGRATION_HISTORY_SQL\<close>.\<close>

definition create_history :: "schema_db \<Rightarrow> schema_db" where
  "create_history db = (case sd_history db of None \<Rightarrow> db\<lparr> sd_history := Some [] \<rparr> | Some _ \<Rightarrow> db)"

definition schema_database_error :: "pg_error \<Rightarrow> CockroachSchemaError" where
  "schema_database_error e = SchemaDatabase (pe_message e)"

definition schema_pool_error :: "string \<Rightarrow> CockroachSchemaError" where
  "schema_pool_error message = SchemaDatabase message"

definition db_raises :: "string \<Rightarrow> pg_error" where
  "db_raises message = \<lparr> pe_serialization = False, pe_db = True, pe_message = message \<rparr>"

definition read_applied_migrations ::
    "pg_error option \<Rightarrow> schema_db \<Rightarrow> (CockroachSchemaError, AppliedMigration list) result" where
  "read_applied_migrations fault db =
     (case fault of
        Some e \<Rightarrow> Err (schema_database_error e)
      | None \<Rightarrow>
          (case sd_history db of
             None \<Rightarrow> Err (schema_database_error (db_raises ''relation does not exist''))
           | Some rows \<Rightarrow> Ok (sort_key am_version rows)))"

text \<open>The row of an applied migration; the version is the primary key and the name is unique.\<close>

definition applied_of :: "(byte list \<Rightarrow> byte list) \<Rightarrow> SchemaMigration \<Rightarrow> AppliedMigration" where
  "applied_of sha m = \<lparr> am_version = sm_version m, am_name = sm_name m, am_checksum = checksum sha m \<rparr>"

definition insert_history :: "AppliedMigration \<Rightarrow> schema_db \<Rightarrow> (pg_error, schema_db) result" where
  "insert_history row db =
     (case sd_history db of
        None \<Rightarrow> Err (db_raises ''relation does not exist'')
      | Some rows \<Rightarrow>
          if am_version row \<in> set (map am_version rows) \<or> am_name row \<in> set (map am_name rows)
          then Err (db_raises ''duplicate key value violates unique constraint'')
          else if am_version row < 0 then Err (db_raises ''failed to satisfy CHECK constraint'')
          else Ok (db\<lparr> sd_history := Some (rows @ [row]) \<rparr>))"

fun apply_pending ::
    "(byte list \<Rightarrow> byte list) \<Rightarrow> ddl \<Rightarrow> (int \<Rightarrow> pg_error option) \<Rightarrow> SchemaMigration list \<Rightarrow> schema_db
     \<Rightarrow> (pg_error, schema_db) result" where
  "apply_pending sha ddl fault [] db = Ok db"
| "apply_pending sha ddl fault (m # ms) db =
     (case fault (sm_version m) of
        Some e \<Rightarrow> Err e
      | None \<Rightarrow>
          and_then (ddl (sm_sql m) (sd_tables db)) (\<lambda>tables.
          and_then (insert_history (applied_of sha m) (db\<lparr> sd_tables := tables \<rparr>)) (\<lambda>db'.
            apply_pending sha ddl fault ms db')))"

text \<open>
  The attempts of \<open>migrate\<close>, \<open>n\<close> of them left. A panic is \<open>None\<close>; an attempt that fails leaves the database
  as it was, because its transaction is rolled back or abandoned.
\<close>

fun migrate_attempts ::
    "(byte list \<Rightarrow> byte list) \<Rightarrow> ddl \<Rightarrow> (nat \<Rightarrow> migrate_attempt) \<Rightarrow> nat \<Rightarrow> schema_db
     \<Rightarrow> (CockroachSchemaError, unit) result option \<times> schema_db" where
  "migrate_attempts sha ddl env 0 db =
     (Some (Err (SchemaDatabase ''migration transaction exhausted its retry budget'')), db)"
| "migrate_attempts sha ddl env (Suc n) db =
     (let a = env (MAX_TRANSACTION_ATTEMPTS - Suc n) in
      case ma_acquire a of
        Some e \<Rightarrow> (Some (Err (schema_pool_error e)), db)
      | None \<Rightarrow>
          (case ma_begin a of
             Some e \<Rightarrow>
               if is_retryable e \<and> 0 < n then migrate_attempts sha ddl env n db
               else (Some (Err (schema_database_error e)), db)
           | None \<Rightarrow>
               (case read_applied_migrations (ma_read a) db of
                  Inl e \<Rightarrow> (Some (Err e), db)
                | Inr applied \<Rightarrow>
                    (case plan_migrations sha MIGRATIONS applied of
                       None \<Rightarrow> (None, db)
                     | Some (Inl e) \<Rightarrow> (Some (Err e), db)
                     | Some (Inr pending) \<Rightarrow>
                         (case apply_pending sha ddl (ma_migration a) pending db of
                            Inl e \<Rightarrow>
                              if is_retryable e \<and> 0 < n then migrate_attempts sha ddl env n db
                              else (Some (Err (schema_database_error e)), db)
                          | Inr db' \<Rightarrow>
                              (case ma_commit a of
                                 Committed \<Rightarrow> (Some (Ok ()), db')
                               | CommitError e applied \<Rightarrow>
                                   if is_retryable e \<and> 0 < n then migrate_attempts sha ddl env n db
                                   else (Some (Err (schema_database_error e)),
                                         if takes_effect (ma_commit a) then db' else db)))))))"

definition migrate ::
    "(byte list \<Rightarrow> byte list) \<Rightarrow> ddl \<Rightarrow> migrate_env \<Rightarrow> schema_db
     \<Rightarrow> (CockroachSchemaError, unit) result option \<times> schema_db" where
  "migrate sha ddl env db =
     (case me_acquire env of
        Some e \<Rightarrow> (Some (Err (schema_pool_error e)), db)
      | None \<Rightarrow>
          (case me_create env of
             Some e \<Rightarrow> (Some (Err (schema_database_error e)), db)
           | None \<Rightarrow> migrate_attempts sha ddl (me_attempt env) MAX_TRANSACTION_ATTEMPTS (create_history db)))"

text \<open>\<open>validate_table\<close>: the columns of the table, then its primary key.\<close>

definition missing_column :: "string list \<Rightarrow> string list \<Rightarrow> string option" where
  "missing_column expected columns = find (\<lambda>c. c \<notin> set columns) expected"

definition validate_table ::
    "pg_error option \<Rightarrow> schema_db \<Rightarrow> ExpectedTable \<Rightarrow> (CockroachSchemaError, unit) result" where
  "validate_table fault db t =
     (case fault of
        Some e \<Rightarrow> Err (schema_database_error e)
      | None \<Rightarrow>
          let shape = map_of (sd_tables db) (et_name t);
              columns = (case shape of None \<Rightarrow> [] | Some sh \<Rightarrow> ts_columns sh);
              primary_key = (case shape of None \<Rightarrow> [] | Some sh \<Rightarrow> ts_primary_key sh)
          in case missing_column (et_columns t) columns of
               Some column \<Rightarrow> Err (MissingColumn (et_name t) column)
             | None \<Rightarrow>
                 if primary_key \<noteq> et_primary_key t
                 then Err (PrimaryKeyMismatch (et_name t) (et_primary_key t) primary_key)
                 else Ok ())"

record validate_env =
  ve_acquire :: "string option"
  ve_read :: "pg_error option"
  ve_table :: "string \<Rightarrow> pg_error option"

fun validate_tables ::
    "(string \<Rightarrow> pg_error option) \<Rightarrow> schema_db \<Rightarrow> ExpectedTable list \<Rightarrow> (CockroachSchemaError, unit) result" where
  "validate_tables fault db [] = Ok ()"
| "validate_tables fault db (t # ts) =
     and_then (validate_table (fault (et_name t)) db t) (\<lambda>_. validate_tables fault db ts)"

definition validate_schema ::
    "(byte list \<Rightarrow> byte list) \<Rightarrow> validate_env \<Rightarrow> schema_db \<Rightarrow> (CockroachSchemaError, unit) result option" where
  "validate_schema sha env db =
     (case ve_acquire env of
        Some e \<Rightarrow> Some (Err (schema_pool_error e))
      | None \<Rightarrow>
          (case read_applied_migrations (ve_read env) db of
             Inl e \<Rightarrow> Some (Err e)
           | Inr applied \<Rightarrow>
               (case plan_migrations sha MIGRATIONS applied of
                  None \<Rightarrow> None
                | Some (Inl e) \<Rightarrow> Some (Err e)
                | Some (Inr pending) \<Rightarrow>
                    if pending \<noteq> [] then Some (Err (PendingMigrations (map sm_version pending)))
                    else Some (validate_tables (ve_table env) db EXPECTED_V4_TABLES))))"

section \<open>The plan\<close>

abbreviation versions :: "SchemaMigration list \<Rightarrow> int list" where
  "versions migs \<equiv> map sm_version migs"

lemma expected_get_Some:
  assumes "sorted_wrt (<) (versions migs)"
  shows "expected_get migs v = Some m \<longleftrightarrow> m \<in> set migs \<and> sm_version m = v"
proof -
  have "distinct (versions migs)" using assms by (simp add: strict_sorted_iff)
  then have "distinct (map fst (rev (map (\<lambda>m. (sm_version m, m)) migs)))" by (simp add: comp_def flip: rev_map)
  from map_of_eq_Some_iff [OF this] show ?thesis by (auto simp: expected_get_def)
qed

lemma version_bounds:
  assumes "sorted_wrt (<) (versions migs)" and "m \<in> set migs"
  shows "sm_version (hd migs) \<le> sm_version m" "sm_version m \<le> sm_version (last migs)"
proof -
  have ne: "versions migs \<noteq> []" using assms(2) by auto
  have s: "sorted (versions migs)" using assms(1) by (simp add: strict_sorted_iff)
  have m: "sm_version m \<in> set (versions migs)" using assms(2) by simp
  show "sm_version (hd migs) \<le> sm_version m"
    using s m ne by (cases migs) auto
  show "sm_version m \<le> sm_version (last migs)"
    using s m ne by (cases migs rule: rev_cases) (auto simp: sorted_append)
qed

lemma check_applied_Ok:
  assumes "sorted_wrt (<) (versions migs)"
  shows "check_applied sha migs seen ms = Ok seen' \<longleftrightarrow>
    set ms \<subseteq> applied_of sha ` set migs \<and> distinct (map am_version ms)
    \<and> set (map am_version ms) \<inter> set seen = {} \<and> seen' = rev (map am_version ms) @ seen"
proof (induction ms arbitrary: seen)
  case (Cons m ms)
  have ex: "m \<in> applied_of sha ` set migs \<longleftrightarrow>
      (\<exists>e. expected_get migs (am_version m) = Some e \<and> am_name m = sm_name e \<and> am_checksum m = checksum sha e)"
    by (cases m) (auto simp: expected_get_Some [OF assms] applied_of_def image_iff)
  have bounds: "sm_version (hd migs) \<le> am_version m \<and> am_version m \<le> sm_version (last migs)"
    if "m \<in> applied_of sha ` set migs"
    using that version_bounds [OF assms] by (auto simp: applied_of_def)
  show ?case
  proof (cases "m \<in> applied_of sha ` set migs \<and> am_version m \<notin> set seen")
    case True
    then obtain e where "expected_get migs (am_version m) = Some e" "am_name m = sm_name e"
      "am_checksum m = checksum sha e"
      using ex by blast
    then show ?thesis using True bounds Cons.IH by (auto simp: not_less)
  next
    case False
    then show ?thesis
      using ex by (auto split: option.splits if_splits)
  qed
qed auto

lemma check_gaps_iff:
  "check_gaps migs vs = Some (Ok ()) \<longleftrightarrow> length vs \<le> length migs \<and> vs = take (length vs) (versions migs)"
  by (induction migs vs rule: check_gaps.induct) auto

lemma check_gaps_no_panic: "length vs \<le> length migs \<Longrightarrow> check_gaps migs vs \<noteq> None"
  by (induction migs vs rule: check_gaps.induct) auto

text \<open>An accepted history: the rows of the first \<open>n\<close> migrations, in any order.\<close>

lemma prefix_of_history:
  assumes s: "sorted_wrt (<) (versions migs)" and sub: "set ms \<subseteq> applied_of sha ` set migs"
    and d: "distinct (map am_version ms)" and g: "sort (map am_version ms) = take n (versions migs)"
  shows "mset ms = mset (map (applied_of sha) (take n migs))"
proof -
  let ?row = "\<lambda>v. applied_of sha (the (expected_get migs v))"
  have row: "?row (sm_version m) = applied_of sha m" if "m \<in> set migs" for m
    using expected_get_Some [OF s, of "sm_version m" m] that by simp
  have "?row (am_version m) = m" if "m \<in> set ms" for m
  proof -
    from that sub obtain e where e: "e \<in> set migs" "m = applied_of sha e" by auto
    then show ?thesis using row [OF e(1)] by (simp add: applied_of_def)
  qed
  then have "map (\<lambda>m. ?row (am_version m)) ms = ms" by (intro map_idI)
  then have "mset ms = image_mset ?row (mset (map am_version ms))"
    by (metis (no_types, lifting) comp_apply list.map_comp map_eq_conv mset_map)
  also have "mset (map am_version ms) = mset (take n (versions migs))"
    using g by (metis mset_sort)
  also have "image_mset ?row (mset (take n (versions migs))) = mset (map (\<lambda>m. ?row (sm_version m)) (take n migs))"
    by (simp add: take_map multiset.map_comp comp_def)
  also have "map (\<lambda>m. ?row (sm_version m)) (take n migs) = map (applied_of sha) (take n migs)"
    by (rule map_cong [OF refl row]) (rule in_set_takeD)
  finally show ?thesis .
qed

lemma sort_rev: "sort (rev xs) = sort (xs :: 'x :: linorder list)"
  by (rule properties_for_sort) simp_all

lemma history_of_prefix:
  assumes s: "sorted_wrt (<) (versions migs)" and ms: "mset ms = mset (map (applied_of sha) (take n migs))"
  shows "set ms \<subseteq> applied_of sha ` set migs" "distinct (map am_version ms)"
    "sort (map am_version ms) = take n (versions migs)"
proof -
  have "set ms = set (map (applied_of sha) (take n migs))" using ms by (metis set_mset_mset)
  then show "set ms \<subseteq> applied_of sha ` set migs" by (auto dest: in_set_takeD)
  have v: "mset (map am_version ms) = mset (take n (versions migs))"
    using arg_cong [OF ms, of "image_mset am_version"]
    by (simp add: multiset.map_comp comp_def applied_of_def take_map)
  have sd: "sorted (take n (versions migs))" "distinct (take n (versions migs))"
    using s by (auto simp: strict_sorted_iff intro: sorted_wrt_take)
  show "distinct (map am_version ms)" using v sd(2) by (metis mset_eq_imp_distinct_iff)
  show "sort (map am_version ms) = take n (versions migs)"
    using v sd(1) by (metis properties_for_sort)
qed

lemma filter_not_prefix:
  assumes "sorted_wrt (<) (versions migs)" and "set vs = set (take n (versions migs))"
  shows "filter (\<lambda>m. sm_version m \<notin> set vs) migs = drop n migs"
proof -
  have d: "distinct (versions migs)" using assms(1) by (simp add: strict_sorted_iff)
  then have "set (take n (versions migs)) \<inter> set (drop n (versions migs)) = {}"
    by (simp add: set_take_disj_set_drop_if_distinct)
  then have "filter (\<lambda>m. sm_version m \<notin> set vs) (take n migs) = []"
    "filter (\<lambda>m. sm_version m \<notin> set vs) (drop n migs) = drop n migs"
    using assms(2) by (auto simp: filter_empty_conv filter_id_conv take_map drop_map)
  then show ?thesis by (metis append_Nil append_take_drop_id filter_append)
qed

lemma plan_migrations_Ok:
  assumes "sorted_wrt (<) (versions migs)" and "migs \<noteq> []"
  shows "plan_migrations sha migs ms = Some (Ok pending) \<longleftrightarrow>
    (\<exists>n \<le> length migs. mset ms = mset (map (applied_of sha) (take n migs)) \<and> pending = drop n migs)"
proof
  assume "plan_migrations sha migs ms = Some (Ok pending)"
  then obtain seen where seen: "check_applied sha migs [] ms = Ok seen" "check_gaps migs (sort seen) = Some (Ok ())"
    "pending = filter (\<lambda>m. sm_version m \<notin> set seen) migs"
    using assms(2) by (auto simp: plan_migrations_def split: sum.splits option.splits)
  then have ms: "set ms \<subseteq> applied_of sha ` set migs" "distinct (map am_version ms)" "seen = rev (map am_version ms)"
    by (auto simp: check_applied_Ok [OF assms(1)])
  have srt: "sort seen = sort (map am_version ms)" by (simp add: ms(3) sort_rev)
  have "length ms \<le> length migs" "sort (map am_version ms) = take (length ms) (versions migs)"
    using seen(2) srt ms(3) by (auto simp: check_gaps_iff)
  moreover from this(2) have "set seen = set (take (length ms) (versions migs))"
    using ms(3) by (metis set_rev set_sort)
  ultimately show "\<exists>n \<le> length migs. mset ms = mset (map (applied_of sha) (take n migs)) \<and> pending = drop n migs"
    using prefix_of_history [OF assms(1) ms(1,2)] filter_not_prefix [OF assms(1)] seen(3) by blast
next
  assume "\<exists>n \<le> length migs. mset ms = mset (map (applied_of sha) (take n migs)) \<and> pending = drop n migs"
  then obtain n where n: "n \<le> length migs" "mset ms = mset (map (applied_of sha) (take n migs))" "pending = drop n migs"
    by blast
  note h = history_of_prefix [OF assms(1) n(2)]
  have len: "length ms = n" using arg_cong [OF n(2), of size] n(1) by simp
  have "sort (rev (map am_version ms)) = take n (versions migs)" using h(3) by (simp only: sort_rev)
  then have "check_gaps migs (sort (rev (map am_version ms))) = Some (Ok ())" using n(1) by (simp add: check_gaps_iff)
  moreover have "set (rev (map am_version ms)) = set (take n (versions migs))"
    using h(3) by (metis set_rev set_sort)
  ultimately show "plan_migrations sha migs ms = Some (Ok pending)"
    using h(1,2) assms(2) n(3) filter_not_prefix [OF assms(1), of "rev (map am_version ms)" n]
    by (simp add: plan_migrations_def iffD2 [OF check_applied_Ok [OF assms(1)]])
qed

lemma plan_migrations_no_panic:
  assumes "sorted_wrt (<) (versions migs)" and "migs \<noteq> []"
  shows "plan_migrations sha migs ms \<noteq> None"
proof (cases "check_applied sha migs [] ms")
  case (Inr seen)
  then have ms: "set ms \<subseteq> applied_of sha ` set migs" "distinct (map am_version ms)" "seen = rev (map am_version ms)"
    by (auto simp: check_applied_Ok [OF assms(1)])
  have "set (map am_version ms) \<subseteq> set (versions migs)"
    using ms(1) by (auto simp: applied_of_def)
  then have "length (map am_version ms) \<le> length (versions migs)"
    using ms(2) by (metis card_length card_mono distinct_card finite_set le_trans)
  then show ?thesis
    using Inr assms(2) ms(3) check_gaps_no_panic [of "sort seen" migs]
    by (auto simp: plan_migrations_def split: option.splits sum.splits)
qed (use assms(2) in \<open>simp add: plan_migrations_def\<close>)

lemma MIGRATIONS_ok: "sorted_wrt (<) (versions MIGRATIONS)" "MIGRATIONS \<noteq> []"
  by (simp_all add: MIGRATIONS_def)

text \<open>C26. The planner accepts a history exactly when it is the beginning of the shipped migrations, with
  their names and checksums, and then plans the remaining ones in order; it never panics.\<close>

theorem plan_accepts_prefixes:
  assumes "sorted_wrt (<) (map sm_version migs)" and "migs \<noteq> []"
  shows "(plan_migrations sha migs applied = Some (Ok pending) \<longleftrightarrow>
      (\<exists>n \<le> length migs. mset applied = mset (map (applied_of sha) (take n migs)) \<and> pending = drop n migs))
    \<and> plan_migrations sha migs applied \<noteq> None"
  using plan_migrations_Ok [OF assms] plan_migrations_no_panic [OF assms] by blast

theorem plan_accepts_prefixes_witness:
  "plan_migrations (\<lambda>_. [171]) [\<lparr> sm_version = 4, sm_name = ''first'', sm_sql = ''a'' \<rparr>,
      \<lparr> sm_version = 5, sm_name = ''second'', sm_sql = ''b'' \<rparr>]
      [\<lparr> am_version = 4, am_name = ''first'', am_checksum = ''ab'' \<rparr>]
    = Some (Ok [\<lparr> sm_version = 5, sm_name = ''second'', sm_sql = ''b'' \<rparr>])"
proof -
  have "hex_byte 171 = ''ab''" by code_simp
  then show ?thesis
    by (intro iffD2 [OF conjunct1 [OF plan_accepts_prefixes]])
      (auto simp: applied_of_def checksum_def migration_checksum_def intro!: exI [of _ "Suc 0"])
qed

section \<open>The lifecycle of a database\<close>

definition shape_ok :: "(string \<times> table_shape) list \<Rightarrow> ExpectedTable \<Rightarrow> bool" where
  "shape_ok tables t \<longleftrightarrow>
     (case map_of tables (et_name t) of
        None \<Rightarrow> False
      | Some sh \<Rightarrow> set (et_columns t) \<subseteq> set (ts_columns sh) \<and> ts_primary_key sh = et_primary_key t)"

text \<open>What the baseline creates where its tables do not exist.\<close>

definition baseline_ddl :: "ddl \<Rightarrow> bool" where
  "baseline_ddl ddl \<longleftrightarrow>
     (\<forall>tables tables'. (\<forall>t \<in> set EXPECTED_V4_TABLES. map_of tables (et_name t) = None)
        \<longrightarrow> ddl V4_BASELINE_SQL tables = Ok tables' \<longrightarrow> list_all (shape_ok tables') EXPECTED_V4_TABLES)"

text \<open>A database of which only \<open>migrate\<close> has created the tables: both exist with the recorded baseline, and
  neither without it.\<close>

definition managed :: "(byte list \<Rightarrow> byte list) \<Rightarrow> schema_db \<Rightarrow> bool" where
  "managed sha db \<longleftrightarrow>
     (if sd_history db = None \<or> sd_history db = Some []
      then \<forall>t \<in> set EXPECTED_V4_TABLES. map_of (sd_tables db) (et_name t) = None
      else sd_history db = Some (map (applied_of sha) MIGRATIONS)
        \<and> list_all (shape_ok (sd_tables db)) EXPECTED_V4_TABLES)"

definition quiet_env :: validate_env where
  "quiet_env = \<lparr> ve_acquire = None, ve_read = None, ve_table = (\<lambda>_. None) \<rparr>"

lemma missing_column_None: "missing_column expected columns = None \<longleftrightarrow> set expected \<subseteq> set columns"
  by (auto simp: missing_column_def find_None_iff)

lemma validate_table_Ok:
  assumes "et_columns t \<noteq> []"
  shows "validate_table None db t = Ok () \<longleftrightarrow> shape_ok (sd_tables db) t"
proof (cases "map_of (sd_tables db) (et_name t)")
  case None
  then have "missing_column (et_columns t) [] \<noteq> None" using assms by (simp add: missing_column_None)
  then show ?thesis using None by (auto simp: validate_table_def shape_ok_def)
next
  case (Some sh)
  then show ?thesis
    by (cases "missing_column (et_columns t) (ts_columns sh)")
      (auto simp: validate_table_def shape_ok_def Let_def missing_column_None [symmetric] split: if_splits)
qed

lemma validate_tables_Ok:
  "list_all (\<lambda>t. et_columns t \<noteq> []) ts \<Longrightarrow>
     validate_tables (\<lambda>_. None) db ts = Ok () \<longleftrightarrow> list_all (shape_ok (sd_tables db)) ts"
  by (induction ts) (auto simp: and_then_eq_Inr validate_table_Ok)

lemma plan_up_to_date:
  "plan_migrations sha MIGRATIONS applied = Some (Ok []) \<longleftrightarrow> mset applied = mset (map (applied_of sha) MIGRATIONS)"
  unfolding plan_migrations_Ok [OF MIGRATIONS_ok] by auto

lemma validate_schema_history:
  assumes "sd_history db = Some rows"
  shows "validate_schema sha quiet_env db = Some (Ok ()) \<longleftrightarrow>
     mset rows = mset (map (applied_of sha) MIGRATIONS) \<and> list_all (shape_ok (sd_tables db)) EXPECTED_V4_TABLES"
proof -
  have cols: "list_all (\<lambda>t. et_columns t \<noteq> []) EXPECTED_V4_TABLES" by (simp add: EXPECTED_V4_TABLES_def)
  have "validate_schema sha quiet_env db = Some (Ok ()) \<longleftrightarrow>
      plan_migrations sha MIGRATIONS (sort_key am_version rows) = Some (Ok [])
      \<and> validate_tables (\<lambda>_. None) db EXPECTED_V4_TABLES = Ok ()"
    using assms by (auto simp: validate_schema_def quiet_env_def read_applied_migrations_def
        split: option.splits sum.splits)
  then show ?thesis by (simp add: plan_up_to_date validate_tables_Ok [OF cols])
qed


lemma managed_up_to_date:
  "managed sha db \<Longrightarrow> sd_history db \<noteq> None \<Longrightarrow> sd_history db \<noteq> Some []
     \<Longrightarrow> validate_schema sha quiet_env db = Some (Ok ())"
  by (auto simp: managed_def validate_schema_history)

lemma apply_pending_managed:
  assumes ddl: "baseline_ddl ddl" and m: "managed sha db" and h: "sd_history db = Some rows"
    and plan: "plan_migrations sha MIGRATIONS (sort_key am_version rows) = Some (Ok pending)"
    and app: "apply_pending sha ddl fault pending db = Ok db'"
  shows "managed sha db'" "sd_history db' = Some (map (applied_of sha) MIGRATIONS)"
proof -
  obtain M where M: "MIGRATIONS = [M]" "sm_sql M = V4_BASELINE_SQL" by (simp add: MIGRATIONS_def)
  consider (fresh) "rows = []" | (current) "rows = map (applied_of sha) MIGRATIONS"
    using m h by (auto simp: managed_def split: if_splits)
  then have "managed sha db' \<and> sd_history db' = Some (map (applied_of sha) MIGRATIONS)"
  proof cases
    case fresh
    then have "pending = MIGRATIONS" using plan by (auto simp: plan_migrations_Ok [OF MIGRATIONS_ok])
    then have "apply_pending sha ddl fault [M] db = Ok db'" using app M(1) by simp
    then obtain tables where t: "ddl V4_BASELINE_SQL (sd_tables db) = Ok tables"
      "db' = db\<lparr> sd_tables := tables, sd_history := Some [applied_of sha M] \<rparr>"
      using h fresh M(2) by (auto simp: and_then_eq_Inr insert_history_def split: option.splits if_splits)
    have "list_all (shape_ok tables) EXPECTED_V4_TABLES"
      using ddl t(1) m h fresh by (simp add: baseline_ddl_def managed_def)
    then show ?thesis by (simp add: managed_def t(2) M(1))
  next
    case current
    have "mset (sort_key am_version rows) = mset (map (applied_of sha) MIGRATIONS)" using current by simp
    then have "pending = []" using plan plan_up_to_date [of sha "sort_key am_version rows"] by simp
    then show ?thesis using app m h current by simp
  qed
  then show "managed sha db'" "sd_history db' = Some (map (applied_of sha) MIGRATIONS)" by auto
qed

lemma migrate_attempts_managed:
  assumes "baseline_ddl ddl"
  shows "managed sha db \<Longrightarrow> sd_history db \<noteq> None \<Longrightarrow> migrate_attempts sha ddl env n db = (res, db') \<Longrightarrow>
    res \<noteq> None \<and> managed sha db'
    \<and> (res = Some (Ok ()) \<longrightarrow> sd_history db' = Some (map (applied_of sha) MIGRATIONS))"
proof (induction n)
  case (Suc n)
  from Suc.prems(2) obtain rows where rows: "sd_history db = Some rows" by blast
  have app: "managed sha db'' \<and> sd_history db'' = Some (map (applied_of sha) MIGRATIONS)"
    if "plan_migrations sha MIGRATIONS (sort_key am_version rows) = Some (Ok pending)"
      "apply_pending sha ddl fault pending db = Ok db''" for pending fault db''
    using apply_pending_managed [OF assms Suc.prems(1) rows that] by blast
  show ?case
    using Suc.prems(3) Suc.IH [OF Suc.prems(1,2)] rows app Suc.prems(1)
      plan_migrations_no_panic [OF MIGRATIONS_ok, of sha "sort_key am_version rows"]
    by (auto simp: Let_def read_applied_migrations_def split: option.splits sum.splits if_splits commit_answer.splits)
qed auto


text \<open>The delay before the next attempt of a transaction is at least half of an exponentially growing cap
  and at most that cap, which stays below a second.\<close>

theorem retry_delay_bounds:
  "min (25 * 2 ^ min attempt 5) 1000 div 2 \<le> transaction_retry_delay sample attempt
   \<and> transaction_retry_delay sample attempt \<le> min (25 * 2 ^ min attempt 5) 1000
   \<and> transaction_retry_delay sample attempt < 1000"
proof -
  have "(2 :: nat) ^ min attempt 5 \<le> 2 ^ 5" by (rule power_increasing) auto
  then have cap: "min (min (25 * push_bit (min attempt 5) (1 :: nat)) U64_MAX) 1000 = 25 * 2 ^ min attempt 5"
    "(25 :: nat) * 2 ^ min attempt 5 \<le> 800"
    by (auto simp: push_bit_eq_mult U64_MAX_def)
  define half where "half = (25 :: nat) * 2 ^ min attempt 5 div 2"
  define rest where "rest = unat sample mod (half + 1)"
  have rest: "rest \<le> half" by (simp add: rest_def less_Suc_eq_le [symmetric])
  have delay: "transaction_retry_delay sample attempt = half + rest"
    unfolding transaction_retry_delay_def Let_def cap(1) half_def rest_def ..
  have half: "2 * half \<le> 25 * 2 ^ min attempt 5" by (simp add: half_def)
  have "min (25 * 2 ^ min attempt 5) 1000 = (25 :: nat) * 2 ^ min attempt 5" using cap(2) by simp
  then show ?thesis unfolding delay using rest half cap(2) by (simp add: half_def [symmetric])
qed

text \<open>A database whose baseline creates both tables, and one run that meets a serialization failure first.\<close>

definition simple_ddl :: ddl where
  "simple_ddl sql tables =
     Ok (map (\<lambda>t. (et_name t, \<lparr> ts_columns = et_columns t, ts_primary_key = et_primary_key t \<rparr>)) EXPECTED_V4_TABLES
       @ tables)"

lemma simple_ddl_ok: "baseline_ddl simple_ddl"
  by (simp add: baseline_ddl_def simple_ddl_def EXPECTED_V4_TABLES_def shape_ok_def V4_METADATA_TABLE_def
      V4_RECORDS_TABLE_def)

definition flaky_env :: migrate_env where
  "flaky_env = \<lparr> me_acquire = None, me_create = None, me_attempt = (\<lambda>n. \<lparr> ma_acquire = None, ma_begin = None,
     ma_read = None, ma_migration = (\<lambda>_. None),
     ma_commit = (if n = 0 then CommitError \<lparr> pe_serialization = True, pe_db = True, pe_message = ''40001'' \<rparr> False
       else Committed) \<rparr>) \<rparr>"

definition empty_db :: schema_db where
  "empty_db = \<lparr> sd_history = None, sd_tables = [] \<rparr>"

lemma simple_migrate:
  "\<exists>tables. migrate (\<lambda>_. [171]) simple_ddl flaky_env empty_db = (Some (Ok ()),
     \<lparr> sd_history = Some (map (applied_of (\<lambda>_. [171])) MIGRATIONS), sd_tables = tables \<rparr>)
     \<and> list_all (shape_ok tables) EXPECTED_V4_TABLES"
proof -
  have "plan_migrations (\<lambda>_. [171]) MIGRATIONS [] = Some (Ok MIGRATIONS)"
    by (auto simp: plan_migrations_Ok [OF MIGRATIONS_ok] intro!: exI [of _ 0])
  moreover have "list_all (shape_ok tables) EXPECTED_V4_TABLES" if "simple_ddl V4_BASELINE_SQL [] = Ok tables" for tables
    using simple_ddl_ok that unfolding baseline_ddl_def by (metis map_of.simps(1))
  ultimately show ?thesis
    by (simp add: migrate_def flaky_env_def create_history_def empty_db_def MAX_TRANSACTION_ATTEMPTS_def
        eval_nat_numeral read_applied_migrations_def MIGRATIONS_def simple_ddl_def insert_history_def applied_of_def
        is_retryable_def)
qed


end
