(* ===== verification/Memory_Store.thy ===== *)
theory Memory_Store
  imports Ports "HOL-Library.AList"
begin

text \<open>
  The two in-memory implementations of the ports, \<open>src/src/ports/storage.rs\<close>. The lock that the source
  holds during an operation makes it one step. The interpretations at the end show that the two stores
  keep the contracts of the ports.
\<close>

section \<open>The in-memory bucket store\<close>

record DurableBucketEntry =
  ent_state :: BucketState
  ent_generation :: nat
  ent_archive_owner_token :: "string option"
  ent_archive_owner_expires_at :: "instant option"
  ent_next_attempt_at :: "instant option"
  ent_records :: "Record list"

definition default_entry :: DurableBucketEntry where
  "default_entry = \<lparr> ent_state = Hot, ent_generation = 0, ent_archive_owner_token = None,
     ent_archive_owner_expires_at = None, ent_next_attempt_at = None, ent_records = [] \<rparr>"

text \<open>
  The hash map is an association list in some order of iteration. The environment of an operation
  holds the first and the second reading of the monotonic clock that the operation makes and the token
  that \<open>Uuid::new_v4\<close> returns.
\<close>

type_synonym im_store = "(BucketId \<times> DurableBucketEntry) list"

record im_env =
  env_now :: instant
  env_now2 :: instant
  env_uuid :: string

definition attempt_due :: "DurableBucketEntry \<Rightarrow> instant \<Rightarrow> bool" where
  "attempt_due entry now =
     (case ent_next_attempt_at entry of None \<Rightarrow> True | Some retry_at \<Rightarrow> retry_at \<le> now)"

definition lease_expired :: "DurableBucketEntry \<Rightarrow> instant \<Rightarrow> bool" where
  "lease_expired entry now =
     (case ent_archive_owner_expires_at entry of None \<Rightarrow> True | Some expires_at \<Rightarrow> expires_at \<le> now)"

definition lease_deadline :: "instant \<Rightarrow> duration \<Rightarrow> instant dur_result" where
  "lease_deadline now d =
     (if d = 0 then Err OperationFailed else ok_or OperationFailed (instant_checked_add now d))"

definition validate_active_session ::
    "instant \<Rightarrow> DurableBucketEntry \<Rightarrow> ArchiveSession \<Rightarrow> unit dur_result" where
  "validate_active_session now entry session =
     (if ent_generation entry \<noteq> ses_generation session
       \<or> ent_archive_owner_token entry \<noteq> Some (ses_owner_token session)
       \<or> lease_expired entry now
      then Err StaleArchiveSession else Ok ())"

definition validate_archive_session ::
    "instant \<Rightarrow> DurableBucketEntry \<Rightarrow> ArchiveSession \<Rightarrow> BucketState \<Rightarrow> unit dur_result" where
  "validate_archive_session now entry session expected_state =
     (if ent_state entry \<noteq> expected_state then Err StaleArchiveSession
      else validate_active_session now entry session)"

definition or_default :: "BucketId \<Rightarrow> im_store \<Rightarrow> DurableBucketEntry \<times> im_store" where
  "or_default bucket buckets =
     (case map_of buckets bucket of
        Some entry \<Rightarrow> (entry, buckets)
      | None \<Rightarrow> (default_entry, AList.update bucket default_entry buckets))"

definition im_append :: "im_env \<Rightarrow> BucketId \<Rightarrow> Record \<Rightarrow> im_store \<Rightarrow> unit dur_result \<times> im_store" where
  "im_append env bucket r buckets =
     (let (entry, buckets) = or_default bucket buckets in
      if ent_state entry \<noteq> Hot then (Err (BucketReadOnly (ent_state entry)), buckets)
      else (Ok (), AList.update bucket
             (entry\<lparr> ent_records := sort_key ckey (ent_records entry @ [r]) \<rparr>) buckets))"

definition im_state :: "im_env \<Rightarrow> BucketId \<Rightarrow> im_store \<Rightarrow> BucketState dur_result \<times> im_store" where
  "im_state env bucket buckets =
     (Ok (case map_of buckets bucket of None \<Rightarrow> Hot | Some entry \<Rightarrow> ent_state entry), buckets)"

definition im_discover_archive_work ::
    "im_env \<Rightarrow> ArchiveScan \<Rightarrow> im_store \<Rightarrow> ArchiveWork list dur_result \<times> im_store" where
  "im_discover_archive_work env scan buckets =
     (let now = env_now env;
          due = filter (\<lambda>(bucket, entry). attempt_due entry now) buckets;
          cleanup = map (\<lambda>(bucket, entry). Cleanup bucket)
            (filter (\<lambda>(bucket, entry). cleanup_pending (ent_state entry) \<and> lease_expired entry now) due);
          cutover = map (\<lambda>(bucket, entry). Cutover bucket)
            (filter (\<lambda>(bucket, entry).
               (ent_state entry = Hot \<and> bid_end bucket \<le> scan_eligible_before scan)
               \<or> (ent_state entry = Archiving \<and> bid_end bucket \<le> scan_eligible_before scan
                  \<and> lease_expired entry now)) due);
          cleanup = sort_key (\<lambda>w. bid_ord (work_bucket w)) cleanup;
          cutover = sort_key (\<lambda>w. bid_ord (work_bucket w)) cutover
      in (Ok (take (scan_limit scan) (cleanup @ cutover)), buckets))"

definition claimable :: "DurableBucketEntry \<Rightarrow> instant \<Rightarrow> bool" where
  "claimable entry now \<longleftrightarrow> attempt_due entry now
     \<and> (ent_state entry = Hot \<or> (ent_state entry = Archiving \<and> lease_expired entry now))"

definition im_claim_archive ::
    "im_env \<Rightarrow> BucketId \<Rightarrow> duration \<Rightarrow> im_store \<Rightarrow> ArchiveSession option dur_result \<times> im_store" where
  "im_claim_archive env bucket lease_for buckets =
     (case lease_deadline (env_now2 env) lease_for of
        Inl e \<Rightarrow> (Err e, buckets)
      | Inr expires_at \<Rightarrow>
          let (entry, buckets) = or_default bucket buckets in
          if \<not> claimable entry (env_now env) then (Ok None, buckets)
          else
            (case checked_add_u64 (ent_generation entry) 1 of
               None \<Rightarrow> (Err OperationFailed, buckets)
             | Some generation \<Rightarrow>
                 (Ok (Some \<lparr> ses_bucket = bucket, ses_owner_token = env_uuid env,
                            ses_generation = generation \<rparr>),
                  AList.update bucket
                    (entry\<lparr> ent_generation := generation, ent_state := Archiving,
                            ent_archive_owner_token := Some (env_uuid env),
                            ent_archive_owner_expires_at := Some expires_at,
                            ent_next_attempt_at := None \<rparr>) buckets)))"

definition im_claim_cleanup ::
    "im_env \<Rightarrow> BucketId \<Rightarrow> duration \<Rightarrow> im_store \<Rightarrow> ArchiveSession option dur_result \<times> im_store" where
  "im_claim_cleanup env bucket lease_for buckets =
     (case lease_deadline (env_now2 env) lease_for of
        Inl e \<Rightarrow> (Err e, buckets)
      | Inr expires_at \<Rightarrow>
          (case map_of buckets bucket of
             None \<Rightarrow> (Ok None, buckets)
           | Some entry \<Rightarrow>
               if \<not> (cleanup_pending (ent_state entry) \<and> attempt_due entry (env_now env)
                      \<and> lease_expired entry (env_now env))
               then (Ok None, buckets)
               else
                 (case checked_add_u64 (ent_generation entry) 1 of
                    None \<Rightarrow> (Err OperationFailed, buckets)
                  | Some generation \<Rightarrow>
                      (Ok (Some \<lparr> ses_bucket = bucket, ses_owner_token = env_uuid env,
                                 ses_generation = generation \<rparr>),
                       AList.update bucket
                         (entry\<lparr> ent_generation := generation,
                                 ent_archive_owner_token := Some (env_uuid env),
                                 ent_archive_owner_expires_at := Some expires_at,
                                 ent_next_attempt_at := None \<rparr>) buckets))))"

text \<open>
  The operations of a session look its entry up, validate the session and then change the entry:
  \<open>with_session\<close> is the \<open>get_mut(..).ok_or(StaleArchiveSession)?\<close> that they share.
\<close>

definition with_session ::
    "ArchiveSession \<Rightarrow> im_store \<Rightarrow> (DurableBucketEntry \<Rightarrow> 'b dur_result \<times> DurableBucketEntry)
     \<Rightarrow> 'b dur_result \<times> im_store" where
  "with_session session buckets f =
     (case map_of buckets (ses_bucket session) of
        None \<Rightarrow> (Err StaleArchiveSession, buckets)
      | Some entry \<Rightarrow>
          (case f entry of (res, entry') \<Rightarrow> (res, AList.update (ses_bucket session) entry' buckets)))"

definition im_renew_archive_lease ::
    "im_env \<Rightarrow> ArchiveSession \<Rightarrow> duration \<Rightarrow> im_store \<Rightarrow> unit dur_result \<times> im_store" where
  "im_renew_archive_lease env session lease_for buckets =
     (case lease_deadline (env_now env) lease_for of
        Inl e \<Rightarrow> (Err e, buckets)
      | Inr expires_at \<Rightarrow> with_session session buckets (\<lambda>entry.
          case validate_active_session (env_now2 env) entry session of
            Inl e \<Rightarrow> (Err e, entry)
          | Inr _ \<Rightarrow> (Ok (), entry\<lparr> ent_archive_owner_expires_at := Some expires_at \<rparr>)))"

definition im_defer_archive ::
    "im_env \<Rightarrow> ArchiveSession \<Rightarrow> duration \<Rightarrow> im_store \<Rightarrow> unit dur_result \<times> im_store" where
  "im_defer_archive env session retry_after buckets =
     (case lease_deadline (env_now env) retry_after of
        Inl e \<Rightarrow> (Err e, buckets)
      | Inr retry_at \<Rightarrow> with_session session buckets (\<lambda>entry.
          case validate_archive_session (env_now2 env) entry session Archiving of
            Inl e \<Rightarrow> (Err e, entry)
          | Inr _ \<Rightarrow> (Ok (), entry\<lparr> ent_state := Hot, ent_archive_owner_token := None,
                                ent_archive_owner_expires_at := None,
                                ent_next_attempt_at := Some retry_at \<rparr>)))"

definition im_defer_cleanup ::
    "im_env \<Rightarrow> ArchiveSession \<Rightarrow> duration \<Rightarrow> im_store \<Rightarrow> unit dur_result \<times> im_store" where
  "im_defer_cleanup env session retry_after buckets =
     (case lease_deadline (env_now env) retry_after of
        Inl e \<Rightarrow> (Err e, buckets)
      | Inr retry_at \<Rightarrow> with_session session buckets (\<lambda>entry.
          case validate_active_session (env_now2 env) entry session of
            Inl e \<Rightarrow> (Err e, entry)
          | Inr _ \<Rightarrow>
              if \<not> cleanup_pending (ent_state entry) then (Err StaleArchiveSession, entry)
              else (Ok (), entry\<lparr> ent_archive_owner_expires_at := Some retry_at,
                                 ent_next_attempt_at := Some retry_at \<rparr>)))"

definition im_read_range ::
    "im_env \<Rightarrow> BucketId \<Rightarrow> TimeRange \<Rightarrow> Cursor option \<Rightarrow> nat \<Rightarrow> im_store
     \<Rightarrow> DurableBucketRead dur_result \<times> im_store" where
  "im_read_range env bucket rng after limit buckets =
     (case map_of buckets bucket of
        None \<Rightarrow> (Ok (HotRead []), buckets)
      | Some entry \<Rightarrow>
          (case ent_state entry of
             Archived key _ \<Rightarrow> (Ok (ArchiveRead key), buckets)
           | _ \<Rightarrow> (Ok (HotRead (take limit (filter (after_cursor after)
                      (filter (\<lambda>r. tr_contains rng (rec_event_time r)) (ent_records entry))))),
                  buckets)))"

definition im_begin_archive ::
    "im_env \<Rightarrow> BucketId \<Rightarrow> im_store \<Rightarrow> ArchiveSession dur_result \<times> im_store" where
  "im_begin_archive env bucket buckets =
     (let (entry, buckets) = or_default bucket buckets in
      if ent_state entry \<noteq> Hot then (Err (ArchiveNotAllowed (ent_state entry)), buckets)
      else
        (case checked_add_u64 (ent_generation entry) 1 of
           None \<Rightarrow> (Err OperationFailed, buckets)
         | Some generation \<Rightarrow>
             let entry = entry\<lparr> ent_generation := generation, ent_state := Archiving,
                               ent_archive_owner_token := Some (env_uuid env) \<rparr>
             in case lease_deadline (env_now env) (300 * 10 ^ 9) of
                  Inl e \<Rightarrow> (Err e, AList.update bucket entry buckets)
                | Inr expires_at \<Rightarrow>
                    (Ok \<lparr> ses_bucket = bucket, ses_owner_token = env_uuid env,
                          ses_generation = generation \<rparr>,
                     AList.update bucket
                       (entry\<lparr> ent_archive_owner_expires_at := Some expires_at,
                               ent_next_attempt_at := None \<rparr>) buckets)))"

definition im_snapshot ::
    "im_env \<Rightarrow> ArchiveSession \<Rightarrow> im_store \<Rightarrow> Record list dur_result \<times> im_store" where
  "im_snapshot env session buckets =
     (case map_of buckets (ses_bucket session) of
        None \<Rightarrow> (Err StaleArchiveSession, buckets)
      | Some entry \<Rightarrow>
          (and_then (validate_archive_session (env_now env) entry session Archiving)
             (\<lambda>_. Ok (ent_records entry)), buckets))"

definition im_publish_archive ::
    "im_env \<Rightarrow> ArchiveSession \<Rightarrow> string \<Rightarrow> im_store \<Rightarrow> unit dur_result \<times> im_store" where
  "im_publish_archive env session key buckets =
     with_session session buckets (\<lambda>entry.
       case validate_archive_session (env_now env) entry session Archiving of
         Inl e \<Rightarrow> (Err e, entry)
       | Inr _ \<Rightarrow> (Ok (), entry\<lparr> ent_state := Archived key False \<rparr>))"

definition im_delete_hot_bucket ::
    "im_env \<Rightarrow> ArchiveSession \<Rightarrow> im_store \<Rightarrow> unit dur_result \<times> im_store" where
  "im_delete_hot_bucket env session buckets =
     with_session session buckets (\<lambda>entry.
       case ent_state entry of
         Archived key False \<Rightarrow>
           (case validate_active_session (env_now env) entry session of
              Inl e \<Rightarrow> (Err e, entry)
            | Inr _ \<Rightarrow> (Ok (), entry\<lparr> ent_records := [], ent_state := Archived key True \<rparr>))
       | _ \<Rightarrow> (Err StaleArchiveSession, entry))"

definition im_abort_archive ::
    "im_env \<Rightarrow> ArchiveSession \<Rightarrow> im_store \<Rightarrow> unit dur_result \<times> im_store" where
  "im_abort_archive env session buckets =
     with_session session buckets (\<lambda>entry.
       case validate_archive_session (env_now env) entry session Archiving of
         Inl e \<Rightarrow> (Err e, entry)
       | Inr _ \<Rightarrow> (Ok (), entry\<lparr> ent_state := Hot, ent_archive_owner_token := None,
                             ent_archive_owner_expires_at := None, ent_next_attempt_at := None \<rparr>))"

definition in_memory_store :: "(im_env, im_store) DurableBucketStore" where
  "in_memory_store = \<lparr>
     ds_append = im_append,
     ds_state = im_state,
     ds_discover_archive_work = im_discover_archive_work,
     ds_claim_archive = im_claim_archive,
     ds_claim_cleanup = im_claim_cleanup,
     ds_renew_archive_lease = im_renew_archive_lease,
     ds_defer_archive = im_defer_archive,
     ds_defer_cleanup = im_defer_cleanup,
     ds_read_range = im_read_range,
     ds_begin_archive = im_begin_archive,
     ds_snapshot = im_snapshot,
     ds_publish_archive = im_publish_archive,
     ds_delete_hot_bucket = im_delete_hot_bucket,
     ds_abort_archive = im_abort_archive \<rparr>"

section \<open>The in-memory archive store\<close>

definition HEX :: string where
  "HEX = ''0123456789abcdef''"

definition partition_key_path_component :: "byte list \<Rightarrow> string" where
  "partition_key_path_component partition_key =
     concat (map (\<lambda>b. [HEX ! unat (drop_bit 4 b), HEX ! unat (and b 15)]) partition_key)"

definition im_object_key :: "BucketId \<Rightarrow> string" where
  "im_object_key bucket =
     ''archives/'' @ tid_str (bid_table_id bucket) @ ''/''
     @ partition_key_path_component (pk_bytes (bid_partition_key bucket)) @ ''/''
     @ bk_str (bid_key bucket) @ ''/data.json''"

definition im_generation_key :: "BucketId \<Rightarrow> nat \<Rightarrow> string" where
  "im_generation_key bucket generation =
     ''archives/'' @ tid_str (bid_table_id bucket) @ ''/''
     @ partition_key_path_component (pk_bytes (bid_partition_key bucket)) @ ''/''
     @ bk_str (bid_key bucket) @ ''/generation-'' @ dec generation @ ''/data.json''"

type_synonym im_archive = "(string \<times> Record list) list"

definition im_put_bucket ::
    "unit \<Rightarrow> BucketId \<Rightarrow> Record list \<Rightarrow> im_archive \<Rightarrow> (StoreError, string) result \<times> im_archive" where
  "im_put_bucket env bucket records objects =
     (let key = im_object_key bucket in (Ok key, AList.update key records objects))"

definition im_put_bucket_generation ::
    "unit \<Rightarrow> BucketId \<Rightarrow> nat \<Rightarrow> Record list \<Rightarrow> im_archive
     \<Rightarrow> (StoreError, string) result \<times> im_archive" where
  "im_put_bucket_generation env bucket generation records objects =
     (let key = im_generation_key bucket generation in (Ok key, AList.update key records objects))"

definition im_get_bucket ::
    "unit \<Rightarrow> BucketId \<Rightarrow> string \<Rightarrow> im_archive \<Rightarrow> (StoreError, Record list) result \<times> im_archive" where
  "im_get_bucket env bucket key objects =
     (case map_of objects key of
        None \<Rightarrow> (Err (Other (''archive object not found: '' @ key)), objects)
      | Some records \<Rightarrow>
          if list_ex (\<lambda>r. \<not> fits bucket r) records
          then (Err (Other ''archive records do not match the requested bucket''), objects)
          else (Ok records, objects))"

definition in_memory_archive :: "(unit, im_archive) ArchiveStore" where
  "in_memory_archive = \<lparr>
     as_put_bucket = im_put_bucket,
     as_put_bucket_generation = im_put_bucket_generation,
     as_get_bucket = im_get_bucket \<rparr>"

section \<open>The in-memory bucket store keeps the contract\<close>

definition entry_view :: "DurableBucketEntry \<Rightarrow> bucket_view" where
  "entry_view e = \<lparr> v_state = ent_state e, v_gen = ent_generation e, v_recs = ent_records e \<rparr>"

definition im_view :: "im_store \<Rightarrow> BucketId \<Rightarrow> bucket_view" where
  "im_view s b = entry_view (case map_of s b of None \<Rightarrow> default_entry | Some e \<Rightarrow> e)"

definition im_inv :: "(BucketId \<Rightarrow> bool) \<Rightarrow> im_store \<Rightarrow> bool" where
  "im_inv valid s \<longleftrightarrow> (\<forall>b e. map_of s b = Some e \<longrightarrow> sorted_by ckey (ent_records e))
     \<and> (\<forall>b \<in> fst ` set s. valid b)"

lemma im_view_update [simp]:
  "im_view (AList.update b e s) b' = (if b' = b then entry_view e else im_view s b')"
  by (simp add: im_view_def update_conv')

lemma im_inv_update:
  "\<lbrakk> im_inv valid s; valid b; sorted_by ckey (ent_records e) \<rbrakk> \<Longrightarrow> im_inv valid (AList.update b e s)"
  by (auto simp: im_inv_def update_conv' dom_update)

lemma im_view_Some: "map_of s b = Some e \<Longrightarrow> im_view s b = entry_view e"
  by (simp add: im_view_def)

lemma or_default_cases:
  assumes "or_default b s = (e, s1)"
  shows "im_view s1 = im_view s" "im_view s b = entry_view e" "im_inv valid s \<Longrightarrow> valid b \<Longrightarrow> im_inv valid s1"
    "im_inv valid s \<Longrightarrow> sorted_by ckey (ent_records e)"
proof -
  consider "map_of s b = Some e" "s1 = s"
    | "map_of s b = None" "e = default_entry" "s1 = AList.update b default_entry s"
    using assms by (auto simp: or_default_def split: option.splits)
  then show "im_view s1 = im_view s" "im_view s b = entry_view e"
    "im_inv valid s \<Longrightarrow> valid b \<Longrightarrow> im_inv valid s1" "im_inv valid s \<Longrightarrow> sorted_by ckey (ent_records e)"
    by (cases; auto simp: im_view_def fun_eq_iff im_inv_def update_conv' dom_update default_entry_def)+
qed

lemma with_session_cases:
  assumes "with_session ses s f = (res, s')"
  obtains "map_of s (ses_bucket ses) = None" "res = Err StaleArchiveSession" "s' = s"
  | e e' where "map_of s (ses_bucket ses) = Some e" "f e = (res, e')"
      "s' = AList.update (ses_bucket ses) e' s"
  using assms by (auto simp: with_session_def split: option.splits prod.splits)

lemma validate_active_Ok:
  "validate_active_session now e ses = Ok u \<longleftrightarrow> ent_generation e = ses_generation ses
     \<and> ent_archive_owner_token e = Some (ses_owner_token ses) \<and> \<not> lease_expired e now"
  by (auto simp: validate_active_session_def)

lemma validate_archive_Ok:
  "validate_archive_session now e ses st = Ok u \<longleftrightarrow> ent_state e = st \<and> ent_generation e = ses_generation ses
     \<and> ent_archive_owner_token e = Some (ses_owner_token ses) \<and> \<not> lease_expired e now"
  by (auto simp: validate_archive_session_def validate_active_Ok)

lemma im_inv_entry: "im_inv valid s \<Longrightarrow> map_of s b = Some e \<Longrightarrow> sorted_by ckey (ent_records e)"
  by (simp add: im_inv_def)

text \<open>One step of the store: the invariant holds after it, the other buckets keep their view, and the
  bucket itself moves as the contract says.\<close>

definition im_step :: "(BucketId \<Rightarrow> bool) \<Rightarrow> BucketId \<Rightarrow> (bucket_view \<Rightarrow> bucket_view \<Rightarrow> bool) \<Rightarrow> im_store
    \<Rightarrow> im_store \<Rightarrow> bool" where
  "im_step valid b P s s' \<longleftrightarrow> im_inv valid s' \<and> (\<forall>b'. b' \<noteq> b \<longrightarrow> im_view s' b' = im_view s b')
     \<and> P (im_view s b) (im_view s' b)"

lemma im_stepI:
  "\<lbrakk> im_inv valid s'; \<And>b'. b' \<noteq> b \<Longrightarrow> im_view s' b' = im_view s b'; P (im_view s b) (im_view s' b) \<rbrakk>
     \<Longrightarrow> im_step valid b P s s'"
  by (simp add: im_step_def)

lemma performs_same [simp]: "performs guard g v (Err e) v"
  by (simp add: performs_def)

lemma claims_same [simp]: "claims guard g b v (Ok None) v" "claims guard g b v (Err e) v"
  by (simp_all add: claims_def)

lemma session_step:
  assumes "with_session ses s f = (res, s')" and "im_inv valid s" and "valid (ses_bucket ses)"
    and "\<And>e res e'. f e = (res, e') \<Longrightarrow> P (entry_view e) res (entry_view e')
      \<and> (sorted_by ckey (ent_records e) \<longrightarrow> sorted_by ckey (ent_records e'))"
    and "\<And>v. P v (Err StaleArchiveSession) v"
  shows "im_step valid (ses_bucket ses) (\<lambda>v v'. P v res v') s s'"
  using assms(1)
proof (cases rule: with_session_cases)
  case 1
  then show ?thesis using assms by (auto intro: im_stepI)
next
  case (2 e e')
  then show ?thesis
    using assms(4) [OF 2(2)] im_inv_update [OF assms(2,3)] im_inv_entry [OF assms(2) 2(1)]
    by (auto intro!: im_stepI simp: im_view_Some)
qed

lemma entry_step:
  assumes "or_default b s = (e, s1)" and "im_inv valid s" and "valid b"
    and "s' = AList.update b e' s1" and "P (entry_view e) (entry_view e')"
    and "sorted_by ckey (ent_records e) \<Longrightarrow> sorted_by ckey (ent_records e')"
  shows "im_step valid b P s s'"
  using assms or_default_cases [OF assms(1)] im_inv_update
  by (auto intro!: im_stepI)

lemma default_step:
  assumes "or_default b s = (e, s1)" and "im_inv valid s" and "valid b" and "P (entry_view e) (entry_view e)"
  shows "im_step valid b P s s1"
  using assms or_default_cases [OF assms(1)] by (auto intro!: im_stepI)

lemma skip_step: "im_inv valid s \<Longrightarrow> (\<And>v. P v v) \<Longrightarrow> im_step valid b P s s"
  by (auto intro: im_stepI)

lemma im_append_step:
  assumes "im_inv valid s" and "valid b" and "im_append env b r s = (res, s')"
  shows "im_step valid b (\<lambda>v v'. performs (\<lambda>v. v_state v = Hot) (v_append r) v res v') s s'"
proof -
  obtain e s1 where o: "or_default b s = (e, s1)" by fastforce
  show ?thesis
  proof (cases "ent_state e = Hot")
    case True
    then have "res = Ok ()"
      and s': "s' = AList.update b (e\<lparr> ent_records := sort_key ckey (ent_records e @ [r]) \<rparr>) s1"
      using assms(3) o by (auto simp: im_append_def)
    with True show ?thesis
      by (intro entry_step [OF o assms(1,2) s']) (simp_all add: performs_def entry_view_def v_append_def)
  next
    case False
    then show ?thesis
      using assms o default_step [OF o assms(1,2)] by (auto simp: im_append_def)
  qed
qed

lemma im_claim_archive_step:
  assumes "im_inv valid s" and "valid b" and "im_claim_archive env b d s = (res, s')"
  shows "im_step valid b (\<lambda>v v'. claims open_or_archiving v_claim b v res v') s s'"
proof -
  obtain e s1 where o: "or_default b s = (e, s1)" by fastforce
  show ?thesis
  proof (cases "lease_deadline (env_now2 env) d")
    case (Inl x)
    then show ?thesis using assms by (auto simp: im_claim_archive_def intro: skip_step)
  next
    case (Inr at)
    show ?thesis
    proof (cases "claimable e (env_now env) \<and> checked_add_u64 (ent_generation e) 1 \<noteq> None")
      case True
      then have r: "res = Ok (Some \<lparr> ses_bucket = b, ses_owner_token = env_uuid env,
            ses_generation = ent_generation e + 1 \<rparr>)"
        and s': "s' = AList.update b (e\<lparr> ent_generation := ent_generation e + 1, ent_state := Archiving,
            ent_archive_owner_token := Some (env_uuid env), ent_archive_owner_expires_at := Some at,
            ent_next_attempt_at := None \<rparr>) s1"
        using assms(3) o Inr by (auto simp: im_claim_archive_def checked_add_u64_def split: if_splits)
      show ?thesis
        by (rule entry_step [OF o assms(1,2) s'])
          (use True r in \<open>auto simp: claims_def entry_view_def v_claim_def claimable_def open_or_archiving_def\<close>)
    next
      case False
      then show ?thesis
        using assms o Inr default_step [OF o assms(1,2)]
        by (auto simp: im_claim_archive_def checked_add_u64_def split: if_splits)
    qed
  qed
qed

lemma im_begin_archive_step:
  assumes "im_inv valid s" and "valid b" and "im_begin_archive env b s = (res, s')"
  shows "im_step valid b (\<lambda>v v'. claims open_or_archiving v_claim b v (map_sum id Some res) v') s s'"
proof -
  obtain e s1 where o: "or_default b s = (e, s1)" by fastforce
  show ?thesis
  proof (cases "ent_state e = Hot \<and> checked_add_u64 (ent_generation e) 1 \<noteq> None")
    case True
    let ?e = "e\<lparr> ent_generation := ent_generation e + 1, ent_state := Archiving,
        ent_archive_owner_token := Some (env_uuid env) \<rparr>"
    note simps = im_begin_archive_def checked_add_u64_def claims_def entry_view_def v_claim_def
      open_or_archiving_def
    show ?thesis
    proof (cases "lease_deadline (env_now env) (300 * 10 ^ 9)")
      case (Inl x)
      then have r: "res = Err x" and s': "s' = AList.update b ?e s1"
        using assms(3) o True by (auto simp: simps split: if_splits)
      show ?thesis
        by (rule entry_step [OF o assms(1,2) s']) (use True r in \<open>auto simp: simps\<close>)
    next
      case (Inr at)
      then have r: "res = Ok \<lparr> ses_bucket = b, ses_owner_token = env_uuid env,
            ses_generation = ent_generation e + 1 \<rparr>"
        and s': "s' = AList.update b (?e\<lparr> ent_archive_owner_expires_at := Some at,
            ent_next_attempt_at := None \<rparr>) s1"
        using assms(3) o True by (auto simp: simps split: if_splits)
      show ?thesis
        by (rule entry_step [OF o assms(1,2) s']) (use True r in \<open>auto simp: simps\<close>)
    qed
  next
    case False
    then show ?thesis
      using assms o default_step [OF o assms(1,2)]
      by (auto simp: im_begin_archive_def checked_add_u64_def split: if_splits)
  qed
qed

lemma im_claim_cleanup_step:
  assumes "im_inv valid s" and "valid b" and "im_claim_cleanup env b d s = (res, s')"
  shows "im_step valid b
    (\<lambda>v v'. claims (\<lambda>v. cleanup_pending (v_state v)) v_claim_cleanup b v res v') s s'"
proof (cases "lease_deadline (env_now2 env) d")
  case (Inl x)
  then show ?thesis using assms by (auto simp: im_claim_cleanup_def intro: skip_step)
next
  case (Inr at)
  show ?thesis
  proof (cases "map_of s b")
    case None
    then show ?thesis using assms Inr by (auto simp: im_claim_cleanup_def intro: skip_step)
  next
    case (Some e)
    then have o: "or_default b s = (e, s)" by (simp add: or_default_def)
    show ?thesis
    proof (cases "cleanup_pending (ent_state e) \<and> attempt_due e (env_now env)
        \<and> lease_expired e (env_now env) \<and> checked_add_u64 (ent_generation e) 1 \<noteq> None")
      case True
      then have r: "res = Ok (Some \<lparr> ses_bucket = b, ses_owner_token = env_uuid env,
            ses_generation = ent_generation e + 1 \<rparr>)"
        and s': "s' = AList.update b (e\<lparr> ent_generation := ent_generation e + 1,
            ent_archive_owner_token := Some (env_uuid env), ent_archive_owner_expires_at := Some at,
            ent_next_attempt_at := None \<rparr>) s"
        using assms(3) Inr Some by (auto simp: im_claim_cleanup_def checked_add_u64_def split: if_splits)
      show ?thesis
        by (rule entry_step [OF o assms(1,2) s'])
          (use True r in \<open>auto simp: claims_def entry_view_def v_claim_cleanup_def\<close>)
    next
      case False
      then show ?thesis
        using assms Inr Some skip_step [OF assms(1)]
        by (auto simp: im_claim_cleanup_def checked_add_u64_def split: if_splits)
    qed
  qed
qed

lemmas entry_simps = performs_def entry_view_def view_defs holds_session_def validate_archive_Ok
  validate_active_Ok

lemma im_reopen_step:
  assumes "im_inv valid s" and "valid (ses_bucket ses)"
    and "with_session ses s (\<lambda>e. case validate_archive_session now e ses Archiving of
       Inl x \<Rightarrow> (Err x, e)
     | Inr _ \<Rightarrow> (Ok (), e\<lparr> ent_state := Hot, ent_archive_owner_token := None,
                          ent_archive_owner_expires_at := None, ent_next_attempt_at := at \<rparr>)) = (res, s')"
  shows "im_step valid (ses_bucket ses) (\<lambda>v v'. performs (holds_session ses Archiving) v_reopen v res v') s s'"
  by (rule session_step [OF assms(3,1,2)]) (auto simp: entry_simps split: sum.splits)

lemma im_abort_archive_step:
  assumes "im_inv valid s" and "valid (ses_bucket ses)" and "im_abort_archive env ses s = (res, s')"
  shows "im_step valid (ses_bucket ses) (\<lambda>v v'. performs (holds_session ses Archiving) v_reopen v res v') s s'"
  using im_reopen_step [OF assms(1,2)] assms(3) by (simp add: im_abort_archive_def)

lemma im_defer_archive_step:
  assumes "im_inv valid s" and "valid (ses_bucket ses)" and "im_defer_archive env ses d s = (res, s')"
  shows "im_step valid (ses_bucket ses) (\<lambda>v v'. performs (holds_session ses Archiving) v_reopen v res v') s s'"
proof (cases "lease_deadline (env_now env) d")
  case (Inl x)
  then show ?thesis using assms by (auto simp: im_defer_archive_def intro: skip_step)
next
  case (Inr at)
  then show ?thesis using im_reopen_step [OF assms(1,2)] assms(3) by (simp add: im_defer_archive_def)
qed

lemma im_publish_archive_step:
  assumes "im_inv valid s" and "valid (ses_bucket ses)" and "im_publish_archive env ses key s = (res, s')"
  shows "im_step valid (ses_bucket ses)
    (\<lambda>v v'. performs (holds_session ses Archiving) (v_publish key) v res v') s s'"
  by (rule session_step [OF assms(3) [unfolded im_publish_archive_def] assms(1,2)])
    (auto simp: entry_simps split: sum.splits)

lemma im_delete_hot_bucket_step:
  assumes "im_inv valid s" and "valid (ses_bucket ses)" and "im_delete_hot_bucket env ses s = (res, s')"
  shows "im_step valid (ses_bucket ses)
    (\<lambda>v v'. performs (\<lambda>v. cleanup_pending (v_state v) \<and> v_gen v = ses_generation ses) v_delete v res v') s s'"
  by (rule session_step [OF assms(3) [unfolded im_delete_hot_bucket_def] assms(1,2)])
    (auto simp: entry_simps cleanup_pending_def split: sum.splits BucketState.splits bool.splits)

lemma im_renew_step:
  assumes "im_inv valid s" and "valid (ses_bucket ses)" and "im_renew_archive_lease env ses d s = (res, s')"
  shows "im_step valid (ses_bucket ses) (\<lambda>v v'. v' = v) s s'"
proof (cases "lease_deadline (env_now env) d")
  case (Inl x)
  then show ?thesis using assms by (auto simp: im_renew_archive_lease_def intro: skip_step)
next
  case (Inr at)
  then show ?thesis
    by (intro session_step [OF _ assms(1,2), where P = "\<lambda>v r v'. v' = v"])
      (use assms(3) in \<open>auto simp: im_renew_archive_lease_def entry_view_def split: sum.splits if_splits\<close>)
qed

lemma im_defer_cleanup_step:
  assumes "im_inv valid s" and "valid (ses_bucket ses)" and "im_defer_cleanup env ses d s = (res, s')"
  shows "im_step valid (ses_bucket ses) (\<lambda>v v'. v' = v) s s'"
proof (cases "lease_deadline (env_now env) d")
  case (Inl x)
  then show ?thesis using assms by (auto simp: im_defer_cleanup_def intro: skip_step)
next
  case (Inr at)
  then show ?thesis
    by (intro session_step [OF _ assms(1,2), where P = "\<lambda>v r v'. v' = v"])
      (use assms(3) in \<open>auto simp: im_defer_cleanup_def entry_view_def split: sum.splits if_splits\<close>)
qed

lemma im_discover_known:
  "\<lbrakk> im_discover_archive_work env sc s = (Ok ws, s'); w \<in> set ws \<rbrakk> \<Longrightarrow> work_bucket w \<in> fst ` set s"
  by (force simp: im_discover_archive_work_def Let_def dest!: in_set_takeD)

lemma im_discover_valid:
  "\<lbrakk> im_inv valid s; im_discover_archive_work env sc s = (Ok ws, s'); w \<in> set ws \<rbrakk> \<Longrightarrow> valid (work_bucket w)"
  unfolding im_inv_def by (blast dest: im_discover_known)

lemma im_read_range_hot:
  "im_read_range env b rng after limit s = (Ok (HotRead rs), s') \<Longrightarrow>
     open_or_archiving (im_view s b) \<and> rs = page_of rng after limit (v_recs (im_view s b))"
  by (auto simp: im_read_range_def im_view_def entry_view_def open_or_archiving_def page_of_def default_entry_def
      split: option.splits BucketState.splits)

lemma im_read_range_archive:
  "im_read_range env b rng after limit s = (Ok (ArchiveRead key), s') \<Longrightarrow>
     \<exists>deleted. v_state (im_view s b) = Archived key deleted"
  by (auto simp: im_read_range_def im_view_def entry_view_def split: option.splits BucketState.splits)

lemma im_same_store:
  "im_state env b s = (tres, s') \<Longrightarrow> s' = s"
  "im_discover_archive_work env sc s = (dres, s') \<Longrightarrow> s' = s"
  "im_read_range env b rng after limit s = (rres, s') \<Longrightarrow> s' = s"
  "im_snapshot env ses s = (sres, s') \<Longrightarrow> s' = s"
  by (auto simp: im_state_def im_discover_archive_work_def im_read_range_def im_snapshot_def Let_def
      split: option.splits BucketState.splits)

lemma im_snapshot_ok:
  "im_snapshot env ses s = (Ok rs, s') \<Longrightarrow> holds_session ses Archiving (im_view s (ses_bucket ses))
     \<and> rs = v_recs (im_view s (ses_bucket ses))"
  by (auto simp: im_snapshot_def im_view_def entry_simps and_then_eq_Inr split: option.splits)

lemma im_view_sorted: "im_inv valid s \<Longrightarrow> sorted_by ckey (v_recs (im_view s b))"
  by (auto simp: im_view_def entry_view_def im_inv_def default_entry_def split: option.splits)

lemma im_stepD:
  assumes "im_step valid b P s s'"
  shows "im_inv valid s'" "b' \<noteq> b \<Longrightarrow> im_view s' b' = im_view s b'" "P (im_view s b) (im_view s' b)"
  using assms by (auto simp: im_step_def)

lemma im_step_sameD:
  "im_step valid b (\<lambda>v v'. v' = v) s s' \<Longrightarrow> im_view s' b' = im_view s b'"
  by (cases "b' = b") (auto simp: im_step_def)

lemmas im_steps = im_append_step im_claim_archive_step im_claim_cleanup_step im_begin_archive_step
  im_defer_archive_step im_publish_archive_step im_delete_hot_bucket_step im_abort_archive_step
lemmas im_quiet_steps = im_renew_step im_defer_cleanup_step

interpretation im: bucket_store in_memory_store im_view "im_inv valid" valid "\<lambda>_. True" "\<lambda>_ _ _. True" for valid
proof (unfold_locales, unfold in_memory_store_def DurableBucketStore.select_convs, goal_cases)
  case (1 s b)
  then show ?case by (simp add: im_view_sorted)
next
  case (7 s b e st s')
  then show ?case
    by (auto simp: im_state_def im_view_def entry_view_def default_entry_def split: option.splits)
qed (blast intro: im_steps [THEN im_stepD(1)] im_steps [THEN im_stepD(2)] im_steps [THEN im_stepD(3)]
      im_quiet_steps [THEN im_stepD(1)] im_quiet_steps [THEN im_step_sameD] im_discover_valid
    dest: im_same_store im_read_range_hot im_read_range_archive im_snapshot_ok)+

section \<open>The in-memory archive store keeps the contract\<close>

lemma HEX_digit: "(d :: byte) < 16 \<Longrightarrow> HEX ! unat d = hex_digit d"
proof -
  assume "d < 16"
  then have "unat d \<in> set [0..<16]" by (simp add: word_less_nat_alt)
  moreover have "d < 10 \<longleftrightarrow> unat d < 10" by (simp add: word_less_nat_alt)
  ultimately show ?thesis
    by (auto simp: upt_rec HEX_def hex_digit_def char_of_eq_iff intro!: sym [of "char_of _"])
qed

lemma partition_key_path_component_hex: "partition_key_path_component bs = hex bs"
proof -
  have "(\<lambda>b. [HEX ! unat (drop_bit 4 b), HEX ! unat (and b 15)]) = hex_byte"
    by (simp add: fun_eq_iff hex_byte_def HEX_digit drop_bit_4_less and_15_less)
  then show ?thesis by (simp add: partition_key_path_component_def hex_def)
qed

lemma slash_not_dec: "CHR ''/'' \<notin> set (dec n)"
  using set_dec [of n] digit_range [of _ "CHR ''/''"] by fastforce

lemma im_generation_key_inject:
  assumes "CHR ''/'' \<notin> set (bk_str (bid_key b))" and "CHR ''/'' \<notin> set (bk_str (bid_key b'))"
    and "im_generation_key b g = im_generation_key b' g'"
  shows "bid_table_id b = bid_table_id b' \<and> bid_partition_key b = bid_partition_key b'
    \<and> bid_key b = bid_key b' \<and> g = g'"
proof -
  let ?p = "\<lambda>b. tid_str (bid_table_id b)" and ?h = "\<lambda>b. hex (pk_bytes (bid_partition_key b))"
    and ?k = "\<lambda>b. bk_str (bid_key b)" and ?g = "\<lambda>g. ''generation-'' @ dec g"
  have key: "im_generation_key b g
      = ''archives/'' @ (((?p b @ CHR ''/'' # ?h b) @ CHR ''/'' # ?k b) @ CHR ''/'' # ?g g) @ ''/data.json''" for b g
    by (simp add: im_generation_key_def partition_key_path_component_hex)
  have g: "CHR ''/'' \<notin> set (?g g)" for g using slash_not_dec by auto
  from assms(3) have "((?p b @ CHR ''/'' # ?h b) @ CHR ''/'' # ?k b) @ CHR ''/'' # ?g g
      = ((?p b' @ CHR ''/'' # ?h b') @ CHR ''/'' # ?k b') @ CHR ''/'' # ?g g'"
    unfolding key by simp
  from append_sep_inject_right [OF g g this]
  have 1: "(?p b @ CHR ''/'' # ?h b) @ CHR ''/'' # ?k b = (?p b' @ CHR ''/'' # ?h b') @ CHR ''/'' # ?k b'"
    and gg: "g = g'" by auto
  from append_sep_inject_right [OF assms(1,2) 1]
  have 2: "?p b @ CHR ''/'' # ?h b = ?p b' @ CHR ''/'' # ?h b'" and k: "?k b = ?k b'" by auto
  from append_sep_inject_right [OF slash_not_hex slash_not_hex 2]
  have "?p b = ?p b'" "?h b = ?h b'" by auto
  with k gg show ?thesis
    by (auto intro: TableId.expand PartitionKey.expand BucketKey.expand)
qed

definition im_content :: "im_archive \<Rightarrow> BucketId \<Rightarrow> string \<Rightarrow> Record list option" where
  "im_content a b k = (case map_of a k of
     None \<Rightarrow> None | Some rs \<Rightarrow> if list_all (fits b) rs then Some rs else None)"

interpretation ima: archive_store in_memory_archive im_content "\<lambda>_. True" "canonical C"
    "\<lambda>b g rs. im_generation_key b g" for C
proof (unfold_locales, unfold in_memory_archive_def ArchiveStore.select_convs, goal_cases)
  case (1 b b' g rs g' rs')
  then show ?case
    using im_generation_key_inject [of b b' g g'] canonical_key_plain canonical_eq_iff by blast
qed (auto simp: im_put_bucket_generation_def im_get_bucket_def im_content_def Let_def update_conv'
    list_all_iff list_ex_iff split: option.splits if_splits)

end
