(* ===== verification/Archive_Cache.thy ===== *)
theory Archive_Cache
  imports Memory_Store
begin

text \<open>
  The bounded cache of immutable archive artifacts, \<open>src/src/adapters/immutable_archive_cache.rs\<close>. The
  hash map is an association list in some order of iteration, the access counter is an \<open>AtomicU64\<close> that
  wraps, and \<open>size_of::<Record>()\<close> is an argument, since it depends on the target. The lemmas show that
  the bounds hold after every sequence of lookups, fills and invalidations, that a hit returns the last
  fill that was not invalidated, that the least recently used entries are evicted, and that a cached
  store keeps the contract of the store it wraps.
\<close>

section \<open>The cache\<close>

record CacheEntry =
  ce_records :: "Record list"
  ce_estimated_bytes :: nat
  ce_last_access :: nat

type_synonym CacheKey = "BucketId \<times> string"

record CacheState =
  cs_entries :: "(CacheKey \<times> CacheEntry) list"
  cs_used_bytes :: nat

record cache =
  ca_state :: CacheState
  ca_next_access :: nat

definition new_cache :: cache where
  "new_cache = \<lparr> ca_state = \<lparr> cs_entries = [], cs_used_bytes = 0 \<rparr>, ca_next_access = 0 \<rparr>"

definition estimated_records_size :: "nat \<Rightarrow> Record list \<Rightarrow> nat" where
  "estimated_records_size record_size records =
     foldl (\<lambda>size r.
         saturating_add
           (saturating_add
             (saturating_add (saturating_add size record_size) (length (pk_bytes (rec_partition_key r))))
             (length (sk_bytes (rec_sort_key r))))
           (length (rec_value r)))
       0 records"

definition remove_entry :: "CacheKey \<Rightarrow> CacheState \<Rightarrow> CacheState" where
  "remove_entry key state =
     (case map_of (cs_entries state) key of
        None \<Rightarrow> state
      | Some entry \<Rightarrow> \<lparr> cs_entries = AList.delete key (cs_entries state),
                       cs_used_bytes = saturating_sub (cs_used_bytes state) (ce_estimated_bytes entry) \<rparr>)"

definition fetch_add :: "cache \<Rightarrow> nat \<times> cache" where
  "fetch_add c = (ca_next_access c, c\<lparr> ca_next_access := (ca_next_access c + 1) mod 2 ^ 64 \<rparr>)"

definition get_cached :: "BucketId \<Rightarrow> string \<Rightarrow> cache \<Rightarrow> Record list option \<times> cache" where
  "get_cached bucket key c =
     (let (access, c) = fetch_add c in
      case map_of (cs_entries (ca_state c)) (bucket, key) of
        None \<Rightarrow> (None, c)
      | Some entry \<Rightarrow>
          (Some (ce_records entry),
           c\<lparr> ca_state := (ca_state c)\<lparr> cs_entries :=
                AList.update (bucket, key) (entry\<lparr> ce_last_access := access \<rparr>) (cs_entries (ca_state c)) \<rparr> \<rparr>))"

text \<open>\<open>min_by_key\<close> returns the first of the minimal elements.\<close>

fun min_by_key :: "('x \<Rightarrow> 'k :: linorder) \<Rightarrow> 'x list \<Rightarrow> 'x option" where
  "min_by_key f [] = None"
| "min_by_key f (x # xs) =
     (case min_by_key f xs of None \<Rightarrow> Some x | Some y \<Rightarrow> if f x \<le> f y then Some x else Some y)"

lemma min_by_key_None [simp]: "min_by_key f xs = None \<longleftrightarrow> xs = []"
  by (cases xs) (auto split: option.splits)

lemma min_by_key_Some: "min_by_key f xs = Some x \<Longrightarrow> x \<in> set xs \<and> (\<forall>y \<in> set xs. f x \<le> f y)"
proof (induction xs arbitrary: x)
  case (Cons z xs)
  then show ?case by (cases "min_by_key f xs") (auto split: if_splits intro: order_trans)
qed simp

lemma length_remove_entry:
  "map_of (cs_entries s) k = Some e \<Longrightarrow> length (cs_entries (remove_entry k s)) < length (cs_entries s)"
proof -
  assume k: "map_of (cs_entries s) k = Some e"
  then have "(k, e) \<in> set (cs_entries s)" by (rule map_of_SomeD)
  then have "length (AList.delete k (cs_entries s)) < length (cs_entries s)"
    unfolding AList.delete_eq by (intro length_filter_less [of "(k, e)"]) auto
  then show ?thesis using k by (simp add: remove_entry_def)
qed

function evict :: "nat \<Rightarrow> nat \<Rightarrow> nat \<Rightarrow> CacheState \<Rightarrow> CacheState" where
  "evict max_bytes max_entries estimated_bytes state =
     (if length (cs_entries state) \<ge> max_entries
         \<or> saturating_add (cs_used_bytes state) estimated_bytes > max_bytes
      then (case min_by_key (\<lambda>(_, entry). ce_last_access entry) (cs_entries state) of
              None \<Rightarrow> state
            | Some (key, _) \<Rightarrow> evict max_bytes max_entries estimated_bytes (remove_entry key state))
      else state)"
  by pat_completeness auto
termination
proof (relation "measure (\<lambda>(_, _, _, s). length (cs_entries s))", goal_cases)
  case (2 mb me est s x key entry)
  then have "(key, entry) \<in> set (cs_entries s)" using min_by_key_Some by fastforce
  then obtain e where "map_of (cs_entries s) key = Some e"
    by (metis map_of_eq_None_iff option.exhaust image_eqI fst_conv)
  then show ?case using length_remove_entry by simp
qed simp

declare evict.simps [simp del]

definition cache_insert ::
    "nat \<Rightarrow> nat \<Rightarrow> nat \<Rightarrow> BucketId \<Rightarrow> string \<Rightarrow> Record list \<Rightarrow> cache \<Rightarrow> cache" where
  "cache_insert record_size max_bytes max_entries bucket key records c =
     (if max_bytes = 0 \<or> max_entries = 0 then c
      else
        let estimated_bytes = estimated_records_size record_size records in
        if estimated_bytes > max_bytes then c
        else
          let (access, c) = fetch_add c;
              state = evict max_bytes max_entries estimated_bytes (remove_entry (bucket, key) (ca_state c))
          in c\<lparr> ca_state := \<lparr> cs_entries =
                  AList.update (bucket, key)
                    \<lparr> ce_records = records, ce_estimated_bytes = estimated_bytes, ce_last_access = access \<rparr>
                    (cs_entries state),
                cs_used_bytes = saturating_add (cs_used_bytes state) estimated_bytes \<rparr> \<rparr>)"

definition invalidate :: "BucketId \<Rightarrow> string \<Rightarrow> cache \<Rightarrow> cache" where
  "invalidate bucket key c = c\<lparr> ca_state := remove_entry (bucket, key) (ca_state c) \<rparr>"

section \<open>The cached store\<close>

definition cached_put_bucket ::
    "('f, 'a) ArchiveStore \<Rightarrow> 'f \<Rightarrow> BucketId \<Rightarrow> Record list \<Rightarrow> 'a \<times> cache
     \<Rightarrow> (StoreError, string) result \<times> 'a \<times> cache" where
  "cached_put_bucket A env bucket records c =
     (case as_put_bucket A env bucket records (fst c) of
        (Inl e, a) \<Rightarrow> (Inl e, (a, snd c))
      | (Inr key, a) \<Rightarrow> (Inr key, (a, invalidate bucket key (snd c))))"

definition cached_put_bucket_generation ::
    "('f, 'a) ArchiveStore \<Rightarrow> 'f \<Rightarrow> BucketId \<Rightarrow> nat \<Rightarrow> Record list \<Rightarrow> 'a \<times> cache
     \<Rightarrow> (StoreError, string) result \<times> 'a \<times> cache" where
  "cached_put_bucket_generation A env bucket generation records c =
     (case as_put_bucket_generation A env bucket generation records (fst c) of
        (Inl e, a) \<Rightarrow> (Inl e, (a, snd c))
      | (Inr key, a) \<Rightarrow> (Inr key, (a, invalidate bucket key (snd c))))"

definition cached_get_bucket ::
    "nat \<Rightarrow> nat \<Rightarrow> nat \<Rightarrow> ('f, 'a) ArchiveStore \<Rightarrow> 'f \<Rightarrow> BucketId \<Rightarrow> string \<Rightarrow> 'a \<times> cache
     \<Rightarrow> (StoreError, Record list) result \<times> 'a \<times> cache" where
  "cached_get_bucket record_size max_bytes max_entries A env bucket key c =
     (case get_cached bucket key (snd c) of
        (Some records, ca) \<Rightarrow> (Inr records, (fst c, ca))
      | (None, ca) \<Rightarrow>
          (case as_get_bucket A env bucket key (fst c) of
             (Inl e, a) \<Rightarrow> (Inl e, (a, ca))
           | (Inr records, a) \<Rightarrow>
               (Inr records, (a, cache_insert record_size max_bytes max_entries bucket key records ca))))"

definition cached_archive ::
    "nat \<Rightarrow> nat \<Rightarrow> nat \<Rightarrow> ('f, 'a) ArchiveStore \<Rightarrow> ('f, 'a \<times> cache) ArchiveStore" where
  "cached_archive record_size max_bytes max_entries A = \<lparr>
     as_put_bucket = cached_put_bucket A,
     as_put_bucket_generation = cached_put_bucket_generation A,
     as_get_bucket = cached_get_bucket record_size max_bytes max_entries A \<rparr>"

section \<open>The bounds\<close>

definition entry_bytes :: "(CacheKey \<times> CacheEntry) list \<Rightarrow> nat" where
  "entry_bytes es = sum_list (map (\<lambda>(_, e). ce_estimated_bytes e) es)"

definition counted :: "CacheState \<Rightarrow> bool" where
  "counted s \<longleftrightarrow> distinct (map fst (cs_entries s)) \<and> cs_used_bytes s = entry_bytes (cs_entries s)"

abbreviation keyed :: "CacheState \<Rightarrow> bool" where
  "keyed s \<equiv> distinct (map fst (cs_entries s))"

definition cache_inv :: "nat \<Rightarrow> nat \<Rightarrow> cache \<Rightarrow> bool" where
  "cache_inv max_bytes max_entries c \<longleftrightarrow> counted (ca_state c) \<and> cs_used_bytes (ca_state c) \<le> max_bytes
     \<and> length (cs_entries (ca_state c)) \<le> max_entries"

lemma entry_bytes_simps [simp]:
  "entry_bytes [] = 0" "entry_bytes ((k, e) # es) = ce_estimated_bytes e + entry_bytes es"
  "entry_bytes (es @ es') = entry_bytes es + entry_bytes es'"
  by (simp_all add: entry_bytes_def)

lemma update_new: "k \<notin> fst ` set es \<Longrightarrow> AList.update k e es = es @ [(k, e)]"
  by (induction es) auto

lemma entry_bytes_update:
  "map_of es k = Some e \<Longrightarrow> ce_estimated_bytes e' = ce_estimated_bytes e
     \<Longrightarrow> entry_bytes (AList.update k e' es) = entry_bytes es"
  by (induction es) (auto split: if_splits)

lemma length_update: "map_of es k \<noteq> None \<Longrightarrow> length (AList.update k e es) = length es"
  by (induction es) (auto split: if_splits)

lemma entry_bytes_delete:
  "distinct (map fst es) \<Longrightarrow> map_of es k = Some e
     \<Longrightarrow> entry_bytes es = ce_estimated_bytes e + entry_bytes (AList.delete k es)"
proof (induction es)
  case (Cons x es)
  obtain k' e' where x: "x = (k', e')" by fastforce
  show ?case
  proof (cases "k' = k")
    case True
    then have "AList.delete k es = es" using Cons.prems(1) x by (intro delete_id) auto
    then show ?thesis using Cons.prems(2) x True by simp
  qed (use Cons x in simp)
qed simp

lemma remove_entry_entries: "cs_entries (remove_entry k s) = AList.delete k (cs_entries s)"
  by (auto simp: remove_entry_def delete_id map_of_eq_None_iff split: option.splits)

lemma counted_remove: "counted s \<Longrightarrow> counted (remove_entry k s)"
  using entry_bytes_delete [of "cs_entries s" k]
  by (auto simp: counted_def remove_entry_def saturating_sub_def distinct_delete split: option.splits)

lemma keyed_remove: "keyed s \<Longrightarrow> keyed (remove_entry k s)"
  by (simp add: remove_entry_entries distinct_delete)

lemma used_remove: "cs_used_bytes (remove_entry k s) \<le> cs_used_bytes s"
  by (auto simp: remove_entry_def saturating_sub_def split: option.splits)

text \<open>What eviction leaves: room for the new entry, and the most recently used entries.\<close>

definition evicted :: "nat \<Rightarrow> nat \<Rightarrow> nat \<Rightarrow> CacheState \<Rightarrow> CacheState \<Rightarrow> bool" where
  "evicted mb me est s s' \<longleftrightarrow> keyed s'
     \<and> (cs_entries s' = [] \<or> length (cs_entries s') < me \<and> saturating_add (cs_used_bytes s') est \<le> mb)
     \<and> set (cs_entries s') \<subseteq> set (cs_entries s)
     \<and> (\<forall>x \<in> set (cs_entries s) - set (cs_entries s'). \<forall>y \<in> set (cs_entries s').
          ce_last_access (snd x) \<le> ce_last_access (snd y))"

lemma evict_spec:
  assumes "keyed s"
  shows "evicted mb me est s (evict mb me est s)"
  using assms
proof (induction mb me est s rule: evict.induct)
  case (1 mb me est s)
  let ?full = "me \<le> length (cs_entries s) \<or> mb < saturating_add (cs_used_bytes s) est"
  show ?case
  proof (cases "?full \<and> cs_entries s \<noteq> []")
    case False
    then show ?thesis using "1.prems" by (subst evict.simps) (auto simp: evicted_def not_le not_less split: option.splits)
  next
    case True
    then obtain k e where m: "min_by_key (\<lambda>(_, e). ce_last_access e) (cs_entries s) = Some (k, e)"
      by (metis min_by_key_None option.exhaust surj_pair)
    then have ke: "(k, e) \<in> set (cs_entries s)"
      and least: "\<And>y. y \<in> set (cs_entries s) \<Longrightarrow> ce_last_access e \<le> ce_last_access (snd y)"
      using min_by_key_Some [OF m] by auto
    have ev: "evict mb me est s = evict mb me est (remove_entry k s)"
      using True m by (subst evict.simps) simp
    have gone: "set (cs_entries s) - set (cs_entries (remove_entry k s)) = {(k, e)}"
      using "1.prems" ke by (auto simp: remove_entry_entries AList.delete_eq dest: eq_key_imp_eq_value)
    have sub: "set (cs_entries (remove_entry k s)) \<subseteq> set (cs_entries s)"
      by (auto simp: remove_entry_entries AList.delete_eq)
    from "1.IH" [OF _ m refl keyed_remove [OF "1.prems"]] True
    have IH: "evicted mb me est (remove_entry k s) (evict mb me est (remove_entry k s))" by blast
    define s' where "s' = evict mb me est (remove_entry k s)"
    have sub': "set (cs_entries s') \<subseteq> set (cs_entries s)"
      using IH sub unfolding evicted_def s'_def by blast
    have "ce_last_access (snd x) \<le> ce_last_access (snd y)"
      if x: "x \<in> set (cs_entries s) - set (cs_entries s')" and y: "y \<in> set (cs_entries s')" for x y
    proof (cases "x = (k, e)")
      case True
      then show ?thesis using least [OF subsetD [OF sub' y]] by simp
    next
      case False
      then have "x \<in> set (cs_entries (remove_entry k s)) - set (cs_entries s')" using x gone by blast
      then show ?thesis using IH y unfolding evicted_def s'_def by blast
    qed
    then show ?thesis
      using IH sub' unfolding ev evicted_def s'_def by blast
  qed
qed

lemma evicted_new: "evicted mb me est (remove_entry k s) s' \<Longrightarrow> k \<notin> fst ` set (cs_entries s')"
  by (auto simp: evicted_def remove_entry_entries AList.delete_eq)

lemma evict_counted: "counted s \<Longrightarrow> counted (evict mb me est s)"
proof (induction mb me est s rule: evict.induct)
  case (1 mb me est s)
  then show ?case
    using counted_remove by (subst evict.simps) (auto split: option.splits)
qed

section \<open>Lookups, fills and invalidations\<close>

text \<open>The cache is shared and its operations are separate critical sections: \<open>get_bucket\<close> looks up, awaits
  the store and then fills, and other tasks may run in between. An event is one critical section.\<close>

datatype cache_event =
    Lookup BucketId string
  | Fill BucketId string "Record list"
  | Invalidate BucketId string

fun cache_step :: "nat \<Rightarrow> nat \<Rightarrow> nat \<Rightarrow> cache_event \<Rightarrow> cache \<Rightarrow> cache" where
  "cache_step sz mb me (Lookup b k) c = snd (get_cached b k c)"
| "cache_step sz mb me (Fill b k rs) c = cache_insert sz mb me b k rs c"
| "cache_step sz mb me (Invalidate b k) c = invalidate b k c"

definition cache_run :: "nat \<Rightarrow> nat \<Rightarrow> nat \<Rightarrow> cache_event list \<Rightarrow> cache" where
  "cache_run sz mb me evs = fold (cache_step sz mb me) evs new_cache"

definition admitted :: "nat \<Rightarrow> nat \<Rightarrow> nat \<Rightarrow> Record list \<Rightarrow> bool" where
  "admitted sz mb me rs \<longleftrightarrow> mb \<noteq> 0 \<and> me \<noteq> 0 \<and> estimated_records_size sz rs \<le> mb"

lemma get_cached_state:
  "get_cached b k c = (res, c') \<Longrightarrow>
     res = map_option ce_records (map_of (cs_entries (ca_state c)) (b, k))
     \<and> map_of (cs_entries (ca_state c')) = (case map_of (cs_entries (ca_state c)) (b, k) of
          None \<Rightarrow> map_of (cs_entries (ca_state c))
        | Some e \<Rightarrow> (map_of (cs_entries (ca_state c)))((b, k) \<mapsto> e\<lparr> ce_last_access := ca_next_access c \<rparr>))"
  by (auto simp: get_cached_def fetch_add_def Let_def update_conv' split: option.splits)

lemma get_cached_inv: "cache_inv mb me c \<Longrightarrow> get_cached b k c = (res, c') \<Longrightarrow> cache_inv mb me c'"
  by (auto simp: get_cached_def fetch_add_def Let_def cache_inv_def counted_def entry_bytes_update length_update
      distinct_update split: option.splits)

lemma invalidate_inv: "cache_inv mb me c \<Longrightarrow> cache_inv mb me (invalidate b k c)"
proof -
  assume c: "cache_inv mb me c"
  have "length (cs_entries (remove_entry (b, k) (ca_state c))) \<le> length (cs_entries (ca_state c))"
    by (simp add: remove_entry_entries AList.delete_eq)
  then show ?thesis
    using c counted_remove [of "ca_state c" "(b, k)"] used_remove [of "(b, k)" "ca_state c"]
    by (auto simp: cache_inv_def invalidate_def)
qed

text \<open>The state after a fill.\<close>

lemma cache_insert_admitted:
  assumes "admitted sz mb me rs" and "keyed (ca_state c)"
  shows "\<exists>s'. evicted mb me (estimated_records_size sz rs) (remove_entry (b, k) (ca_state c)) s'
    \<and> (counted (ca_state c) \<longrightarrow> counted s')
    \<and> cs_entries (ca_state (cache_insert sz mb me b k rs c)) = cs_entries s' @
        [((b, k), \<lparr> ce_records = rs, ce_estimated_bytes = estimated_records_size sz rs,
                   ce_last_access = ca_next_access c \<rparr>)]
    \<and> cs_used_bytes (ca_state (cache_insert sz mb me b k rs c))
        = saturating_add (cs_used_bytes s') (estimated_records_size sz rs)"
proof -
  let ?est = "estimated_records_size sz rs"
  let ?s = "evict mb me ?est (remove_entry (b, k) (ca_state c))"
  have ev: "evicted mb me ?est (remove_entry (b, k) (ca_state c)) ?s"
    by (rule evict_spec [OF keyed_remove [OF assms(2)]])
  have "(b, k) \<notin> fst ` set (cs_entries ?s)" by (rule evicted_new [OF ev])
  then show ?thesis
    using ev assms(1) evict_counted [OF counted_remove, of "ca_state c"] by (intro exI [of _ ?s])
      (auto simp: cache_insert_def admitted_def fetch_add_def Let_def update_new not_less)
qed

lemma cache_insert_not_admitted: "\<not> admitted sz mb me rs \<Longrightarrow> cache_insert sz mb me b k rs c = c"
  by (auto simp: cache_insert_def admitted_def Let_def)

lemma cache_insert_inv:
  assumes "cache_inv mb me c" and "mb < USIZE_MAX"
  shows "cache_inv mb me (cache_insert sz mb me b k rs c)"
proof (cases "admitted sz mb me rs")
  case True
  let ?est = "estimated_records_size sz rs"
  from cache_insert_admitted [OF True, of c b k] assms(1) obtain s' where
    s': "evicted mb me ?est (remove_entry (b, k) (ca_state c)) s'"
    "cs_entries (ca_state (cache_insert sz mb me b k rs c)) = cs_entries s' @
        [((b, k), \<lparr> ce_records = rs, ce_estimated_bytes = ?est, ce_last_access = ca_next_access c \<rparr>)]"
    "cs_used_bytes (ca_state (cache_insert sz mb me b k rs c)) = saturating_add (cs_used_bytes s') ?est"
    "counted s'"
    by (auto simp: cache_inv_def counted_def)
  note new = evicted_new [OF s'(1)]
  have "cs_entries s' = [] \<Longrightarrow> cs_used_bytes s' = 0" using s'(4) by (simp add: counted_def)
  then have room: "length (cs_entries s') < me" "cs_used_bytes s' + ?est \<le> mb"
    using s'(1) True assms(2) by (auto simp: evicted_def admitted_def saturating_add_def)
  then show ?thesis
    using s' new assms(2) by (auto simp: cache_inv_def counted_def evicted_def saturating_add_def)
qed (use assms cache_insert_not_admitted in simp)

lemma cache_step_inv: "cache_inv mb me c \<Longrightarrow> mb < USIZE_MAX \<Longrightarrow> cache_inv mb me (cache_step sz mb me ev c)"
  by (cases ev) (auto intro: cache_insert_inv invalidate_inv get_cached_inv [OF _ surjective_pairing])

lemma cache_run_inv: "mb < USIZE_MAX \<Longrightarrow> cache_inv mb me (cache_run sz mb me evs)"
proof (induction evs rule: rev_induct)
  case Nil
  then show ?case by (simp add: cache_run_def new_cache_def cache_inv_def counted_def)
next
  case (snoc ev evs)
  then show ?case using cache_step_inv by (simp add: cache_run_def)
qed

text \<open>C22. The cache keeps its bounds: after every sequence of lookups, fills and invalidations, from any
  interleaving of tasks, it holds at most \<open>max_entries\<close> artifacts under distinct keys, its byte count is
  exactly the sum of the estimates of its entries, and that sum is at most \<open>max_bytes\<close>.\<close>

theorem cache_bounds:
  assumes "mb < USIZE_MAX"
  shows "length (cs_entries (ca_state (cache_run sz mb me evs))) \<le> me
    \<and> distinct (map fst (cs_entries (ca_state (cache_run sz mb me evs))))
    \<and> cs_used_bytes (ca_state (cache_run sz mb me evs))
       = sum_list (map (\<lambda>(_, e). ce_estimated_bytes e) (cs_entries (ca_state (cache_run sz mb me evs))))
    \<and> cs_used_bytes (ca_state (cache_run sz mb me evs)) \<le> mb"
  using cache_run_inv [OF assms, of me sz evs] by (simp add: cache_inv_def counted_def entry_bytes_def)

text \<open>The reference: what the last admitted fill of a key stored, unless it was invalidated since.\<close>

fun memo_step :: "nat \<Rightarrow> nat \<Rightarrow> nat \<Rightarrow> cache_event \<Rightarrow> (CacheKey \<rightharpoonup> Record list) \<Rightarrow> (CacheKey \<rightharpoonup> Record list)" where
  "memo_step sz mb me (Lookup b k) m = m"
| "memo_step sz mb me (Fill b k rs) m = (if admitted sz mb me rs then m((b, k) \<mapsto> rs) else m)"
| "memo_step sz mb me (Invalidate b k) m = m((b, k) := None)"

definition recorded :: "cache \<Rightarrow> (CacheKey \<rightharpoonup> Record list)" where
  "recorded c key = map_option ce_records (map_of (cs_entries (ca_state c)) key)"

lemma recorded_lookup: "recorded (snd (get_cached b k c)) = recorded c"
  using get_cached_state [of b k c, OF surjective_pairing]
  by (auto simp: recorded_def fun_eq_iff split: option.splits)

lemma recorded_invalidate: "recorded (invalidate b k c) = (recorded c)((b, k) := None)"
  by (auto simp: recorded_def invalidate_def remove_entry_entries delete_conv')

lemma recorded_insert:
  assumes "admitted sz mb me rs" and "keyed (ca_state c)"
  shows "recorded (cache_insert sz mb me b k rs c) \<subseteq>\<^sub>m (recorded c)((b, k) \<mapsto> rs)"
    "recorded (cache_insert sz mb me b k rs c) (b, k) = Some rs"
proof -
  from cache_insert_admitted [OF assms, of b k] obtain s' e where
    s': "evicted mb me (estimated_records_size sz rs) (remove_entry (b, k) (ca_state c)) s'"
    "cs_entries (ca_state (cache_insert sz mb me b k rs c)) = cs_entries s' @ [((b, k), e)]" "ce_records e = rs"
    by (metis CacheEntry.select_convs(1))
  have new: "map_of (cs_entries s') (b, k) = None"
    using evicted_new [OF s'(1)] by (simp add: map_of_eq_None_iff)
  have dist: "distinct (map fst (cs_entries (remove_entry (b, k) (ca_state c))))" "distinct (map fst (cs_entries s'))"
    using s'(1) keyed_remove [OF assms(2)] by (auto simp: evicted_def)
  have old: "map_of (cs_entries (ca_state c)) key = Some x"
    if "map_of (cs_entries s') key = Some x" "key \<noteq> (b, k)" for key x
  proof -
    have "(key, x) \<in> set (cs_entries (remove_entry (b, k) (ca_state c)))"
      using s'(1) map_of_SomeD [OF that(1)] by (auto simp: evicted_def)
    then have "map_of (cs_entries (remove_entry (b, k) (ca_state c))) key = Some x"
      using dist(1) by simp
    then show ?thesis using that(2) by (simp add: remove_entry_entries)
  qed
  show "recorded (cache_insert sz mb me b k rs c) (b, k) = Some rs"
    using new s'(2,3) by (simp add: recorded_def map_add_def)
  show "recorded (cache_insert sz mb me b k rs c) \<subseteq>\<^sub>m (recorded c)((b, k) \<mapsto> rs)"
    unfolding map_le_def
  proof
    fix key
    assume "key \<in> dom (recorded (cache_insert sz mb me b k rs c))"
    then show "recorded (cache_insert sz mb me b k rs c) key = ((recorded c)((b, k) \<mapsto> rs)) key"
      using old [of key] s'(2,3) new
      by (cases "key = (b, k)") (auto simp: recorded_def map_add_def split: option.splits)
  qed
qed

lemma map_leD: "m \<subseteq>\<^sub>m m' \<Longrightarrow> m k = Some x \<Longrightarrow> m' k = Some x"
  by (simp add: map_le_def dom_def)

lemma recorded_run:
  assumes "mb < USIZE_MAX"
  shows "recorded (cache_run sz mb me evs) \<subseteq>\<^sub>m fold (memo_step sz mb me) evs Map.empty"
proof (induction evs rule: rev_induct)
  case Nil
  then show ?case by (simp add: recorded_def cache_run_def new_cache_def map_le_def dom_def)
next
  case (snoc ev evs)
  have cnt: "keyed (ca_state (cache_run sz mb me evs))"
    using cache_run_inv [OF assms] by (simp add: cache_inv_def counted_def)
  show ?case
  proof (cases ev)
    case (Fill b k rs)
    have "recorded (cache_insert sz mb me b k rs (cache_run sz mb me evs))
        \<subseteq>\<^sub>m (recorded (cache_run sz mb me evs))((b, k) \<mapsto> rs)" if "admitted sz mb me rs"
      by (rule recorded_insert(1) [OF that cnt])
    then show ?thesis
      using snoc Fill cache_insert_not_admitted
      by (auto simp: cache_run_def intro: map_le_trans map_le_upd)
  qed (use snoc in \<open>auto simp: cache_run_def recorded_lookup recorded_invalidate map_le_def\<close>)
qed

text \<open>C23. A hit is faithful: whatever tasks interleave, a lookup that hits returns the records of the last
  admitted fill of that bucket and object key, and no invalidation of them came after that fill.\<close>

theorem cache_hit_is_last_fill:
  assumes "mb < USIZE_MAX" and "fst (get_cached b k (cache_run sz mb me evs)) = Some rs"
  shows "fold (memo_step sz mb me) evs Map.empty (b, k) = Some rs"
proof -
  have "recorded (cache_run sz mb me evs) (b, k) = Some rs"
    using get_cached_state [of b k "cache_run sz mb me evs", OF surjective_pairing] assms(2)
    by (simp add: recorded_def)
  then show ?thesis by (rule map_leD [OF recorded_run [OF assms(1)]])
qed


section \<open>Example\<close>

definition sample_record :: "byte \<Rightarrow> Record" where
  "sample_record v = \<lparr> rec_partition_key = PartitionKey [7], rec_event_time = 0, rec_sort_key = SortKey [1],
     rec_value = [v] \<rparr>"

definition sample_bucket :: BucketId where
  "sample_bucket = \<lparr> bid_table_id = TableId ''t'', bid_partition_key = PartitionKey [7],
     bid_strategy = CalendarYearUtc, bid_key = BucketKey ''year:1970'', bid_start = 0, bid_end = 100 \<rparr>"

definition sample_events :: "cache_event list" where
  "sample_events = [Fill sample_bucket ''a'' [sample_record 1], Fill sample_bucket ''b'' [sample_record 2],
     Lookup sample_bucket ''a'', Fill sample_bucket ''c'' [sample_record 3]]"

theorem cache_bounds_witness:
  "length (cs_entries (ca_state (cache_run 96 300 2 sample_events))) \<le> 2
    \<and> distinct (map fst (cs_entries (ca_state (cache_run 96 300 2 sample_events))))
    \<and> cs_used_bytes (ca_state (cache_run 96 300 2 sample_events))
       = sum_list (map (\<lambda>(_, e). ce_estimated_bytes e) (cs_entries (ca_state (cache_run 96 300 2 sample_events))))
    \<and> cs_used_bytes (ca_state (cache_run 96 300 2 sample_events)) \<le> 300"
  by (rule cache_bounds) (simp add: USIZE_MAX_def)

lemmas sample_simps = sample_events_def cache_run_def new_cache_def cache_insert_def get_cached_def fetch_add_def
  estimated_records_size_def remove_entry_def evict.simps saturating_add_def saturating_sub_def USIZE_MAX_def
  admitted_def sample_record_def Let_def

lemma sample_hit: "fst (get_cached sample_bucket ''a'' (cache_run 96 300 2 sample_events)) = Some [sample_record 1]"
  by (simp add: sample_simps)

theorem cache_hit_is_last_fill_witness:
  "fold (memo_step 96 300 2) sample_events Map.empty (sample_bucket, ''a'') = Some [sample_record 1]"
  by (rule cache_hit_is_last_fill [OF _ sample_hit]) (simp add: USIZE_MAX_def)


section \<open>A cached store keeps the contract\<close>

lemma keyed_steps:
  "keyed (ca_state c) \<Longrightarrow> get_cached b k c = (res, c') \<Longrightarrow> keyed (ca_state c')"
  "keyed (ca_state c) \<Longrightarrow> keyed (ca_state (invalidate b k c))"
  by (auto simp: get_cached_def fetch_add_def Let_def distinct_update invalidate_def keyed_remove split: option.splits)

lemma keyed_insert:
  assumes "keyed (ca_state c)"
  shows "keyed (ca_state (cache_insert sz mb me b k rs c))"
proof (cases "admitted sz mb me rs")
  case True
  from cache_insert_admitted [OF this assms, of b k] obtain s' e where
    s': "evicted mb me (estimated_records_size sz rs) (remove_entry (b, k) (ca_state c)) s'"
    "cs_entries (ca_state (cache_insert sz mb me b k rs c)) = cs_entries s' @ [((b, k), e)]" by blast
  then show ?thesis using evicted_new [OF s'(1)] by (simp add: evicted_def)
qed (use assms cache_insert_not_admitted in simp)

context archive_store
begin

definition coherent :: "'a \<Rightarrow> cache \<Rightarrow> bool" where
  "coherent a ca \<longleftrightarrow> (\<forall>b g rs rs'. valid b \<longrightarrow> recorded ca (b, akey b g rs) = Some rs'
     \<longrightarrow> content a b (akey b g rs) = Some rs')"

definition cached_inv :: "'a \<times> cache \<Rightarrow> bool" where
  "cached_inv c \<longleftrightarrow> ainv (fst c) \<and> keyed (ca_state (snd c)) \<and> coherent (fst c) (snd c)"

lemma coherent_insert:
  assumes "coherent a ca" and "keyed (ca_state ca)"
    and "\<And>g rs. valid b \<Longrightarrow> k = akey b g rs \<Longrightarrow> content a b k = Some rs'"
  shows "coherent a (cache_insert sz mb me b k rs' ca)"
proof (cases "admitted sz mb me rs'")
  case True
  have "recorded ca (b', k') = Some x \<or> b' = b \<and> k' = k \<and> x = rs'"
    if "recorded (cache_insert sz mb me b k rs' ca) (b', k') = Some x" for b' k' x
  proof -
    have "((recorded ca)((b, k) \<mapsto> rs')) (b', k') = Some x"
      using map_leD [OF recorded_insert(1) [OF True assms(2)] that] .
    then show ?thesis by (auto split: if_splits)
  qed
  then show ?thesis using assms(1,3) unfolding coherent_def by blast
qed (use assms cache_insert_not_admitted in simp)

lemma cached_put_cases:
  assumes i: "cached_inv c" and b: "valid b" and rs: "list_all (fits b) rs" "sorted_by ckey rs"
    and op: "cached_put_bucket_generation A f b g rs c = (res, c')"
  shows "cached_inv c'" "\<exists>a'. as_put_bucket_generation A f b g rs (fst c) = (res, a') \<and> fst c' = a'"
proof -
  obtain x a' where in1: "as_put_bucket_generation A f b g rs (fst c) = (x, a')" by fastforce
  note keep = put_keeps [OF _ b rs in1]
  have ai: "ainv (fst c)" "keyed (ca_state (snd c))" "coherent (fst c) (snd c)" using i by (auto simp: cached_inv_def)
  have ca: "res = x" "fst c' = a'" "snd c' = (case x of Inl _ \<Rightarrow> snd c | Inr k \<Rightarrow> invalidate b k (snd c))"
    using op in1 by (auto simp: cached_put_bucket_generation_def split: sum.splits)
  show "\<exists>a'. as_put_bucket_generation A f b g rs (fst c) = (res, a') \<and> fst c' = a'"
    using in1 ca by simp
  have "content a' b' (akey b' g' rs') = Some y"
    if v: "valid b'" and r: "recorded (snd c') (b', akey b' g' rs') = Some y" for b' g' rs' y
  proof -
    have "recorded (snd c) (b', akey b' g' rs') = Some y"
      using r ca(3) by (auto simp: recorded_invalidate split: sum.splits if_splits)
    then have old: "content (fst c) b' (akey b' g' rs') = Some y" using ai(3) v by (auto simp: coherent_def)
    have "x \<noteq> Ok (akey b' g' rs')"
    proof
      assume x: "x = Ok (akey b' g' rs')"
      with put_ok [OF ai(1) b rs, of f g] in1 have "akey b' g' rs' = akey b g rs" by simp
      with akey_inj [OF v b] have "b' = b" by blast
      then show False using r ca(3) x by (simp add: recorded_invalidate)
    qed
    with keep [OF ai(1) v refl old] show ?thesis by blast
  qed
  then have "coherent a' (snd c')" by (auto simp: coherent_def)
  moreover have "keyed (ca_state (snd c'))" using ca(3) ai(2) by (auto simp: keyed_steps split: sum.splits)
  ultimately show "cached_inv c'" using put_inv [OF ai(1) b rs in1] ca(2) by (simp add: cached_inv_def)
qed

lemma cached_get_cases:
  assumes i: "cached_inv c" and b: "valid b" and op: "cached_get_bucket sz mb me A f b k c = (res, c')"
  shows "cached_inv c'" "content (fst c') = content (fst c)"
    "k = akey b g rs' \<Longrightarrow> res = Ok rs \<Longrightarrow> content (fst c) b k = Some rs"
proof -
  have ai: "ainv (fst c)" "keyed (ca_state (snd c))" "coherent (fst c) (snd c)" using i by (auto simp: cached_inv_def)
  obtain hit ca where g: "get_cached b k (snd c) = (hit, ca)" by fastforce
  have rec: "recorded ca = recorded (snd c)" using recorded_lookup [of b k "snd c"] g by simp
  have hit: "hit = recorded (snd c) (b, k)" using get_cached_state [OF g] by (simp add: recorded_def)
  have ky: "keyed (ca_state ca)" using keyed_steps(1) [OF ai(2) g] .
  have co: "coherent (fst c) ca" using ai(3) rec by (simp add: coherent_def)
  obtain x a' where get: "as_get_bucket A f b k (fst c) = (x, a')" by fastforce
  note gi = get_inv [OF ai(1) b get] and gk = get_keeps [OF ai(1) b get]
  have co': "coherent a' ca" using co gk by (simp add: coherent_def)
  have fill: "coherent a' (cache_insert sz mb me b k r ca)" if "x = Ok r" for r
    by (rule coherent_insert [OF co' ky]) (use get_ok [OF ai(1) b] get that gk in metis)
  show "cached_inv c'"
    using op g get ai co co' ky gi fill keyed_insert [OF ky]
    by (auto simp: cached_get_bucket_def cached_inv_def split: option.splits sum.splits)
  show "content (fst c') = content (fst c)"
    using op g get gk by (auto simp: cached_get_bucket_def split: option.splits sum.splits)
  show "content (fst c) b k = Some rs" if "k = akey b g rs'" "res = Ok rs" for g rs'
    using op g get that hit ai(3) b get_ok [OF ai(1) b that(1)]
    by (auto simp: cached_get_bucket_def coherent_def split: option.splits sum.splits)
qed

lemma cached_archive_store:
  "archive_store (cached_archive sz mb me A) (\<lambda>c. content (fst c)) cached_inv valid akey"
proof (unfold_locales, unfold cached_archive_def ArchiveStore.select_convs, goal_cases)
  case (1 b b' g rs g' rs')
  then show ?case using akey_inj by blast
next
  case (2 c b rs f g res c')
  then show ?case using cached_put_cases(1) by blast
next
  case (3 c b rs f g res c' b' k g' rs' x)
  then have i: "ainv (fst c)" by (simp add: cached_inv_def)
  from 3 cached_put_cases(2) have "as_put_bucket_generation A f b g rs (fst c) = (res, fst c')" by blast
  from put_keeps [OF i 3(2,3,4) this 3(6,7,8)] show ?case .
next
  case (4 c b rs f g k c')
  then have i: "ainv (fst c)" by (simp add: cached_inv_def)
  from 4 cached_put_cases(2) have "as_put_bucket_generation A f b g rs (fst c) = (Ok k, fst c')" by blast
  from put_ok [OF i 4(2,3,4) this] show ?case .
next
  case (5 c b f k res c')
  then show ?case using cached_get_cases(1) by blast
next
  case (6 c b f k res c')
  then show ?case using cached_get_cases(2) by blast
next
  case (7 c b k g rs' f rs c')
  then show ?case using cached_get_cases(3) by blast
qed

end

interpretation imc: archive_store "cached_archive sz mb me in_memory_archive" "\<lambda>c. im_content (fst c)"
    "ima.cached_inv C" "canonical C" "\<lambda>b g rs. im_generation_key b g" for C sz mb me
  by (rule ima.cached_archive_store)

end
