(* ===== verification/Cockroach_Store.thy ===== *)
theory Cockroach_Store
  imports Cockroach_Schema Archive_Cache "HOL-Library.Option_ord"
begin

text \<open>
  The CockroachDB store, \<open>src/src/adapters/cockroach_durable.rs\<close>: its two tables with the constraints of the
  baseline migration, the retried serializable transaction, every operation of the port as a transaction
  body over the tables, and the cache of published archive routes.
\<close>

section \<open>Tables\<close>

text \<open>The rows of the two tables of \<^const>\<open>V4_BASELINE_SQL\<close>; a nullable column is an option.\<close>

record meta_row =
  mr_table_id :: string
  mr_partition_key :: "byte list"
  mr_bucket_key :: string
  mr_bucket_strategy :: string
  mr_bucket_start :: datetime
  mr_bucket_end :: datetime
  mr_state :: string
  mr_generation :: int
  mr_owner_token :: "string option"
  mr_owner_expires_at :: "datetime option"
  mr_object_key :: "string option"
  mr_hot_deleted :: bool
  mr_attempts :: int
  mr_next_attempt_at :: "datetime option"

record record_row =
  rr_table_id :: string
  rr_partition_key :: "byte list"
  rr_bucket_key :: string
  rr_event_time :: datetime
  rr_sort_key :: "byte list"
  rr_value :: "byte list"

record database =
  db_meta :: "meta_row list"
  db_records :: "record_row list"

type_synonym row_key = "string \<times> byte list \<times> string"

definition meta_pk :: "meta_row \<Rightarrow> row_key" where
  "meta_pk r = (mr_table_id r, mr_partition_key r, mr_bucket_key r)"

definition record_fk :: "record_row \<Rightarrow> row_key" where
  "record_fk r = (rr_table_id r, rr_partition_key r, rr_bucket_key r)"

definition record_pk :: "record_row \<Rightarrow> row_key \<times> datetime \<times> byte list" where
  "record_pk r = (record_fk r, rr_event_time r, rr_sort_key r)"

definition bucket_pk :: "BucketId \<Rightarrow> row_key" where
  "bucket_pk b = (tid_str (bid_table_id b), pk_bytes (bid_partition_key b), bk_str (bid_key b))"

text \<open>The four CHECK constraints of the metadata table, and the range of its \<open>INT8\<close> columns.\<close>

definition meta_check :: "meta_row \<Rightarrow> bool" where
  "meta_check r \<longleftrightarrow>
     mr_state r \<in> {''hot'', ''archiving'', ''archived''}
     \<and> mr_generation r \<ge> 0
     \<and> mr_bucket_start r < mr_bucket_end r
     \<and> (mr_state r = ''hot'' \<and> mr_owner_token r = None \<and> mr_owner_expires_at r = None
          \<and> mr_object_key r = None \<and> \<not> mr_hot_deleted r
        \<or> mr_state r = ''archiving'' \<and> mr_owner_token r \<noteq> None \<and> mr_owner_expires_at r \<noteq> None
          \<and> mr_object_key r = None \<and> \<not> mr_hot_deleted r
        \<or> mr_state r = ''archived'' \<and> mr_owner_token r \<noteq> None \<and> mr_object_key r \<noteq> None)"

definition int8_ok :: "meta_row \<Rightarrow> bool" where
  "int8_ok r \<longleftrightarrow> mr_generation r \<le> I64_MAX \<and> mr_attempts r \<le> I64_MAX"

section \<open>Transactions\<close>

datatype TransactionFailure = TxDatabase pg_error | TxStore DurableBucketStoreError

definition database_error :: "pg_error \<Rightarrow> DurableBucketStoreError" where
  "database_error e = OperationFailed"

definition pool_error :: DurableBucketStoreError where
  "pool_error = Unavailable"

fun into_store_error :: "TransactionFailure \<Rightarrow> DurableBucketStoreError" where
  "into_store_error (TxDatabase e) = database_error e"
| "into_store_error (TxStore e) = e"

text \<open>The body of a transaction: from the value of \<open>now()\<close> and the database it sees, a failure or a value
  with the database that its statements leave.\<close>

type_synonym 'r tx_body = "datetime \<Rightarrow> database \<Rightarrow> (TransactionFailure, 'r \<times> database) result"

text \<open>
  What the environment answers in one attempt: whether the pool hands out a connection, the answers to
  \<open>BEGIN\<close> and to the statements of the body (\<open>Elapsed\<close> is the timeout, \<open>Answer (Some e)\<close> a statement that
  fails), the answer to \<open>COMMIT\<close>, and whether \<open>ROLLBACK\<close> is confirmed. A commit without an answer may or
  may not have taken effect.
\<close>

datatype 'x timed = Answer 'x | Elapsed

datatype commit_reply = CommitAnswer commit_answer | CommitElapsed bool

record tx_attempt =
  ta_acquire :: bool
  ta_begin :: "pg_error option timed"
  ta_now :: datetime
  ta_body :: "pg_error option timed"
  ta_commit :: commit_reply
  ta_rollback :: bool

definition run_body :: "pg_error option \<Rightarrow> 'r tx_body \<Rightarrow> 'r tx_body" where
  "run_body fault body now db = (case fault of Some e \<Rightarrow> Err (TxDatabase e) | None \<Rightarrow> body now db)"

text \<open>The attempts of \<open>transaction\<close>, \<open>n\<close> of them left. A transaction that is not committed has no effect.\<close>

fun tx_attempts :: "(nat \<Rightarrow> tx_attempt) \<Rightarrow> 'r tx_body \<Rightarrow> nat \<Rightarrow> database \<Rightarrow> 'r dur_result \<times> database" where
  "tx_attempts env body 0 db = (Err OperationFailed, db)"
| "tx_attempts env body (Suc n) db =
     (let a = env (MAX_TRANSACTION_ATTEMPTS - Suc n) in
      if \<not> ta_acquire a then (Err pool_error, db)
      else case ta_begin a of
        Elapsed \<Rightarrow> (Err OperationFailed, db)
      | Answer (Some e) \<Rightarrow>
          if is_retryable e \<and> 0 < n then tx_attempts env body n db else (Err (database_error e), db)
      | Answer None \<Rightarrow>
          (case ta_body a of
             Elapsed \<Rightarrow> (Err OperationFailed, db)
           | Answer fault \<Rightarrow>
               (case run_body fault body (ta_now a) db of
                  Inr (v, db') \<Rightarrow>
                    (case ta_commit a of
                       CommitElapsed applied \<Rightarrow> (Err CommitOutcomeUnknown, if applied then db' else db)
                     | CommitAnswer Committed \<Rightarrow> (Ok v, db')
                     | CommitAnswer (CommitError e applied) \<Rightarrow>
                         if is_retryable e \<and> 0 < n then tx_attempts env body n db
                         else (Err (if pe_db e then database_error e else CommitOutcomeUnknown),
                               if takes_effect (CommitError e applied) then db' else db))
                | Inl (TxDatabase e) \<Rightarrow>
                    if is_retryable e \<and> 0 < n
                    then if ta_rollback a then tx_attempts env body n db else (Err OperationFailed, db)
                    else (Err (into_store_error (TxDatabase e)), db)
                | Inl failure \<Rightarrow> (Err (into_store_error failure), db))))"

definition transaction :: "(nat \<Rightarrow> tx_attempt) \<Rightarrow> 'r tx_body \<Rightarrow> database \<Rightarrow> 'r dur_result \<times> database" where
  "transaction env body db = tx_attempts env body MAX_TRANSACTION_ATTEMPTS db"

section \<open>Statements\<close>

text \<open>
  The driver and the calendar: how an instant is sent as a \<open>TIMESTAMPTZ\<close> (\<open>None\<close> when it cannot be
  represented), \<open>chrono::Duration::from_std\<close> and \<open>checked_add_signed\<close>.
\<close>

record driver =
  dr_timestamptz :: "datetime \<Rightarrow> datetime option"
  dr_from_std :: "duration \<Rightarrow> int option"
  dr_checked_add :: "datetime \<Rightarrow> int \<Rightarrow> datetime option"

definition bind_timestamp :: "driver \<Rightarrow> datetime \<Rightarrow> (TransactionFailure, datetime) result" where
  "bind_timestamp D t = ok_or (TxDatabase \<lparr> pe_serialization = False, pe_db = False,
     pe_message = ''error serializing parameter'' \<rparr>) (dr_timestamptz D t)"

text \<open>A comparison with a null column is not true.\<close>

definition null_or_le :: "datetime option \<Rightarrow> datetime \<Rightarrow> bool" where
  "null_or_le x now = (case x of None \<Rightarrow> True | Some t \<Rightarrow> t \<le> now)"

definition sql_le :: "datetime option \<Rightarrow> datetime \<Rightarrow> bool" where
  "sql_le x now = (case x of None \<Rightarrow> False | Some t \<Rightarrow> t \<le> now)"

definition sql_gt :: "datetime option \<Rightarrow> datetime \<Rightarrow> bool" where
  "sql_gt x now = (case x of None \<Rightarrow> False | Some t \<Rightarrow> t > now)"

definition at_bucket :: "BucketId \<Rightarrow> meta_row \<Rightarrow> bool" where
  "at_bucket b r \<longleftrightarrow> meta_pk r = bucket_pk b"

definition update_meta ::
    "(meta_row \<Rightarrow> bool) \<Rightarrow> (meta_row \<Rightarrow> meta_row) \<Rightarrow> database
     \<Rightarrow> (TransactionFailure, meta_row list \<times> database) result" where
  "update_meta P f db =
     (let updated = map f (filter P (db_meta db)) in
      if \<not> list_all int8_ok updated then Err (TxDatabase (db_raises ''integer out of range''))
      else if \<not> list_all meta_check updated then Err (TxDatabase (db_raises ''failed to satisfy CHECK constraint''))
      else Ok (updated, db\<lparr> db_meta := map (\<lambda>r. if P r then f r else r) (db_meta db) \<rparr>))"

definition find_meta :: "database \<Rightarrow> row_key \<Rightarrow> meta_row option" where
  "find_meta db k = find (\<lambda>r. meta_pk r = k) (db_meta db)"

text \<open>\<open>INSERT ... ON CONFLICT DO NOTHING\<close> with the defaults of the table.\<close>

definition insert_meta :: "driver \<Rightarrow> BucketId \<Rightarrow> database \<Rightarrow> (TransactionFailure, database) result" where
  "insert_meta D b db =
     and_then (bind_timestamp D (bid_start b)) (\<lambda>start.
     and_then (bind_timestamp D (bid_end b)) (\<lambda>end_time.
       let row = \<lparr> mr_table_id = tid_str (bid_table_id b), mr_partition_key = pk_bytes (bid_partition_key b),
             mr_bucket_key = bk_str (bid_key b), mr_bucket_strategy = strategy_as_str (bid_strategy b),
             mr_bucket_start = start, mr_bucket_end = end_time, mr_state = ''hot'', mr_generation = 0,
             mr_owner_token = None, mr_owner_expires_at = None, mr_object_key = None, mr_hot_deleted = False,
             mr_attempts = 0, mr_next_attempt_at = None \<rparr>
       in if find_meta db (meta_pk row) \<noteq> None then Ok db
          else if \<not> meta_check row then Err (TxDatabase (db_raises ''failed to satisfy CHECK constraint''))
          else Ok (db\<lparr> db_meta := db_meta db @ [row] \<rparr>)))"

definition insert_record :: "record_row \<Rightarrow> database \<Rightarrow> (TransactionFailure, database) result" where
  "insert_record row db =
     (if record_pk row \<in> set (map record_pk (db_records db))
      then Err (TxDatabase (db_raises ''duplicate key value violates unique constraint''))
      else if find_meta db (record_fk row) = None
      then Err (TxDatabase (db_raises ''insert violates foreign key constraint''))
      else Ok (db\<lparr> db_records := db_records db @ [row] \<rparr>))"

text \<open>\<open>metadata_state\<close>.\<close>

definition metadata_state :: "meta_row \<Rightarrow> BucketState dur_result" where
  "metadata_state r =
     (if mr_state r = ''hot'' \<and> mr_owner_token r = None \<and> mr_owner_expires_at r = None
         \<and> mr_object_key r = None \<and> \<not> mr_hot_deleted r then Ok Hot
      else if mr_state r = ''archiving'' \<and> mr_owner_token r \<noteq> None \<and> mr_owner_expires_at r \<noteq> None
         \<and> mr_object_key r = None \<and> \<not> mr_hot_deleted r then Ok Archiving
      else if mr_state r = ''archived'' \<and> mr_owner_token r \<noteq> None
      then and_then (ok_or OperationFailed (mr_object_key r)) (\<lambda>key. Ok (Archived key (mr_hot_deleted r)))
      else Err OperationFailed)"

definition state_from_metadata :: "database \<Rightarrow> BucketId \<Rightarrow> (TransactionFailure, BucketState option) result" where
  "state_from_metadata db b =
     (case find_meta db (bucket_pk b) of
        None \<Rightarrow> Ok None
      | Some r \<Rightarrow> map_err TxStore (and_then (metadata_state r) (\<lambda>st. Ok (Some st))))"

definition archive_lease_expiry :: "driver \<Rightarrow> datetime \<Rightarrow> duration \<Rightarrow> datetime dur_result" where
  "archive_lease_expiry D now lease_for =
     (if lease_for = 0 then Err OperationFailed
      else and_then (ok_or OperationFailed (dr_from_std D lease_for)) (\<lambda>d.
           ok_or OperationFailed (dr_checked_add D now d)))"

definition i64_generation :: "ArchiveSession \<Rightarrow> int dur_result" where
  "i64_generation ses =
     (if int (ses_generation ses) \<le> I64_MAX then Ok (int (ses_generation ses)) else Err OperationFailed)"

section \<open>The route cache\<close>

record CachedArchiveEntry =
  cae_object_key :: string
  cae_observed_at :: instant

type_synonym RouteCache = "(BucketId \<times> CachedArchiveEntry) list"

definition ROUTE_CACHE_MAX_ENTRIES :: nat where
  "ROUTE_CACHE_MAX_ENTRIES = 4096"

definition route_archived :: "RouteCache \<Rightarrow> BucketId \<Rightarrow> string option" where
  "route_archived entries bucket = map_option cae_object_key (map_of entries bucket)"

definition cache_archive_at :: "BucketId \<Rightarrow> string \<Rightarrow> instant \<Rightarrow> RouteCache \<Rightarrow> RouteCache" where
  "cache_archive_at bucket key observed_at entries =
     (let entries' =
        (if map_of entries bucket = None \<and> length entries \<ge> ROUTE_CACHE_MAX_ENTRIES
         then (case min_by_key (\<lambda>(_, e). cae_observed_at e) entries of
                 None \<Rightarrow> entries
               | Some (oldest_bucket, _) \<Rightarrow> AList.delete oldest_bucket entries)
         else entries)
      in AList.update bucket \<lparr> cae_object_key = key, cae_observed_at = observed_at \<rparr> entries')"

definition route_invalidate :: "BucketId \<Rightarrow> RouteCache \<Rightarrow> RouteCache" where
  "route_invalidate bucket entries = AList.delete bucket entries"

section \<open>Operations\<close>

text \<open>
  The store: its database and the route cache of the process. The environment of an operation holds the
  attempts of its transaction, the token of \<open>Uuid::new_v4\<close>, the readings of \<open>Utc::now\<close> and \<open>Instant::now\<close>,
  and, for the reads outside a transaction, whether the pool hands out a connection, the failures of the
  queries and their values of \<open>now()\<close>.
\<close>

record CockroachDurableBucketStore =
  ck_db :: database
  ck_routes :: RouteCache

record ck_env =
  ce_attempt :: "nat \<Rightarrow> tx_attempt"
  ce_uuid :: string
  ce_utc_now :: datetime
  ce_instant :: instant
  ce_acquire :: bool
  ce_query :: "pg_error option"
  ce_now :: datetime
  ce_query2 :: "pg_error option"
  ce_now2 :: datetime

definition in_transaction ::
    "ck_env \<Rightarrow> 'r tx_body \<Rightarrow> CockroachDurableBucketStore \<Rightarrow> 'r dur_result \<times> CockroachDurableBucketStore" where
  "in_transaction e body s =
     (case transaction (ce_attempt e) body (ck_db s) of (res, db) \<Rightarrow> (res, s\<lparr> ck_db := db \<rparr>))"

text \<open>The operations that invalidate the cached route once they have succeeded.\<close>

definition then_invalidate ::
    "('r \<Rightarrow> bool) \<Rightarrow> BucketId \<Rightarrow> 'r dur_result \<times> CockroachDurableBucketStore
     \<Rightarrow> 'r dur_result \<times> CockroachDurableBucketStore" where
  "then_invalidate P b out =
     (case out of (res, s) \<Rightarrow>
        (res, case res of Inr v \<Rightarrow> if P v then s\<lparr> ck_routes := route_invalidate b (ck_routes s) \<rparr> else s
              | Inl _ \<Rightarrow> s))"

subsection \<open>Appends and states\<close>

definition append_body :: "driver \<Rightarrow> BucketId \<Rightarrow> Record \<Rightarrow> unit tx_body" where
  "append_body D b r now db =
     (if list_ex (\<lambda>m. mr_table_id m = tid_str (bid_table_id b)
          \<and> mr_bucket_strategy m \<noteq> strategy_as_str (bid_strategy b)) (db_meta db)
      then Err (TxStore BucketStrategyMismatch)
      else and_then (insert_meta D b db) (\<lambda>db1.
           and_then (and_then (state_from_metadata db1 b) (ok_or (TxStore OperationFailed))) (\<lambda>st.
             if st \<noteq> Hot then Err (TxStore (BucketReadOnly st))
             else and_then (bind_timestamp D (rec_event_time r)) (\<lambda>event_time.
                  and_then (insert_record \<lparr> rr_table_id = tid_str (bid_table_id b),
                      rr_partition_key = pk_bytes (rec_partition_key r), rr_bucket_key = bk_str (bid_key b),
                      rr_event_time = event_time, rr_sort_key = sk_bytes (rec_sort_key r),
                      rr_value = rec_value r \<rparr> db1) (\<lambda>db2.
                    Ok ((), db2))))))"

definition ck_append where
  "ck_append D e b r s = in_transaction e (append_body D b r) s"

definition ck_state ::
    "ck_env \<Rightarrow> BucketId \<Rightarrow> CockroachDurableBucketStore \<Rightarrow> BucketState dur_result \<times> CockroachDurableBucketStore" where
  "ck_state e b s =
     (if \<not> ce_acquire e then (Err pool_error, s)
      else case ce_query e of
        Some error \<Rightarrow> (Err (database_error error), s)
      | None \<Rightarrow>
          (case find_meta (ck_db s) (bucket_pk b) of
             None \<Rightarrow> (Ok Hot, s)
           | Some r \<Rightarrow> (metadata_state r, s)))"

subsection \<open>Discovery and leases\<close>

definition bucket_from_row :: "meta_row \<Rightarrow> BucketId dur_result" where
  "bucket_from_row r =
     and_then (map_err (\<lambda>_. OperationFailed) (TableId_new (mr_table_id r))) (\<lambda>table_id.
     and_then (map_err (\<lambda>_. OperationFailed) (strategy_from_str (mr_bucket_strategy r))) (\<lambda>strategy.
     and_then (map_err (\<lambda>_. OperationFailed) (BucketKey_new (mr_bucket_key r))) (\<lambda>key.
       Ok \<lparr> bid_table_id = table_id, bid_partition_key = PartitionKey (mr_partition_key r), bid_strategy = strategy,
            bid_key = key, bid_start = mr_bucket_start r, bid_end = mr_bucket_end r \<rparr>)))"

definition discovery_order :: "meta_row \<Rightarrow> datetime \<times> string \<times> byte list \<times> string" where
  "discovery_order r = (mr_bucket_end r, mr_table_id r, mr_partition_key r, mr_bucket_key r)"

definition cleanup_due :: "datetime \<Rightarrow> meta_row \<Rightarrow> bool" where
  "cleanup_due now r \<longleftrightarrow> mr_state r = ''archived'' \<and> \<not> mr_hot_deleted r
     \<and> null_or_le (mr_next_attempt_at r) now \<and> null_or_le (mr_owner_expires_at r) now"

definition cutover_due :: "datetime \<Rightarrow> meta_row \<Rightarrow> bool" where
  "cutover_due now r \<longleftrightarrow> null_or_le (mr_next_attempt_at r) now
     \<and> (mr_state r = ''hot'' \<or> mr_state r = ''archiving'' \<and> sql_le (mr_owner_expires_at r) now)"

definition discover_rows :: "(meta_row \<Rightarrow> bool) \<Rightarrow> nat \<Rightarrow> database \<Rightarrow> meta_row list" where
  "discover_rows P limit db = take limit (sort_key discovery_order (filter P (db_meta db)))"

definition ck_discover_archive_work ::
    "driver \<Rightarrow> ck_env \<Rightarrow> ArchiveScan \<Rightarrow> CockroachDurableBucketStore
     \<Rightarrow> ArchiveWork list dur_result \<times> CockroachDurableBucketStore" where
  "ck_discover_archive_work D e scan s =
     (if \<not> ce_acquire e then (Err pool_error, s)
      else case ce_query e of
        Some error \<Rightarrow> (Err (database_error error), s)
      | None \<Rightarrow>
          (and_then (collect_results (map (\<lambda>r. and_then (bucket_from_row r) (\<lambda>b. Ok (Cleanup b)))
              (discover_rows (cleanup_due (ce_now e)) (scan_limit scan) (ck_db s)))) (\<lambda>work.
             if scan_limit scan - length work = 0 then Ok work
             else case ce_query2 e of
               Some error \<Rightarrow> Err (database_error error)
             | None \<Rightarrow>
                 and_then (map_err into_store_error (bind_timestamp D (scan_eligible_before scan))) (\<lambda>eligible_before.
                 and_then (collect_results (map (\<lambda>r. and_then (bucket_from_row r) (\<lambda>b. Ok (Cutover b)))
                     (discover_rows (\<lambda>r. mr_bucket_end r \<le> eligible_before \<and> cutover_due (ce_now2 e) r)
                        (scan_limit scan - length work) (ck_db s)))) (\<lambda>cutover.
                   Ok (work @ cutover)))), s))"

text \<open>The session of the row that an update returns; \<open>generation as u64\<close> of a generation that the CHECK
  constraint keeps nonnegative.\<close>

definition claimed_session :: "BucketId \<Rightarrow> string \<Rightarrow> meta_row list \<Rightarrow> ArchiveSession option" where
  "claimed_session b token rows =
     (case rows of
        [] \<Rightarrow> None
      | r # _ \<Rightarrow> Some \<lparr> ses_bucket = b, ses_owner_token = token, ses_generation = nat (mr_generation r mod 2 ^ 64) \<rparr>)"

definition claim_archive_body :: "driver \<Rightarrow> BucketId \<Rightarrow> string \<Rightarrow> datetime \<Rightarrow> ArchiveSession option tx_body" where
  "claim_archive_body D b token expires_at now db =
     and_then (bind_timestamp D expires_at) (\<lambda>expires.
     and_then (update_meta (\<lambda>r. at_bucket b r \<and> cutover_due now r)
         (\<lambda>r. r\<lparr> mr_state := ''archiving'', mr_generation := mr_generation r + 1, mr_owner_token := Some token,
            mr_owner_expires_at := Some expires, mr_next_attempt_at := None, mr_object_key := None,
            mr_hot_deleted := False \<rparr>) db) (\<lambda>(rows, db').
       Ok (claimed_session b token rows, db')))"

definition ck_claim_archive where
  "ck_claim_archive D e b lease_for s =
     (case archive_lease_expiry D (ce_utc_now e) lease_for of
        Inl error \<Rightarrow> (Err error, s)
      | Inr expires_at \<Rightarrow> then_invalidate (\<lambda>session. session \<noteq> None) b
          (in_transaction e (claim_archive_body D b (ce_uuid e) expires_at) s))"

definition claim_cleanup_body :: "driver \<Rightarrow> BucketId \<Rightarrow> string \<Rightarrow> datetime \<Rightarrow> ArchiveSession option tx_body" where
  "claim_cleanup_body D b token expires_at now db =
     and_then (bind_timestamp D expires_at) (\<lambda>expires.
     and_then (update_meta (\<lambda>r. at_bucket b r \<and> cleanup_due now r)
         (\<lambda>r. r\<lparr> mr_generation := mr_generation r + 1, mr_owner_token := Some token,
            mr_owner_expires_at := Some expires, mr_next_attempt_at := None \<rparr>) db) (\<lambda>(rows, db').
       Ok (claimed_session b token rows, db')))"

definition ck_claim_cleanup where
  "ck_claim_cleanup D e b lease_for s =
     (case archive_lease_expiry D (ce_utc_now e) lease_for of
        Inl error \<Rightarrow> (Err error, s)
      | Inr expires_at \<Rightarrow> in_transaction e (claim_cleanup_body D b (ce_uuid e) expires_at) s)"

text \<open>The row that a session owns: its generation and token, and a lease that has not expired.\<close>

definition owned_by :: "ArchiveSession \<Rightarrow> int \<Rightarrow> datetime \<Rightarrow> meta_row \<Rightarrow> bool" where
  "owned_by ses generation now r \<longleftrightarrow> at_bucket (ses_bucket ses) r \<and> mr_generation r = generation
     \<and> mr_owner_token r = Some (ses_owner_token ses) \<and> sql_gt (mr_owner_expires_at r) now"

definition awaits_cleanup :: "meta_row \<Rightarrow> bool" where
  "awaits_cleanup r \<longleftrightarrow> mr_state r = ''archived'' \<and> \<not> mr_hot_deleted r"

text \<open>An update of the session's row; any other number of rows than one is a stale session.\<close>

definition fenced_update :: "(meta_row \<Rightarrow> bool) \<Rightarrow> (meta_row \<Rightarrow> meta_row) \<Rightarrow> database
    \<Rightarrow> (TransactionFailure, unit \<times> database) result" where
  "fenced_update P f db =
     and_then (update_meta P f db) (\<lambda>(rows, db').
       if length rows = 1 then Ok ((), db') else Err (TxStore StaleArchiveSession))"

definition renew_body :: "driver \<Rightarrow> ArchiveSession \<Rightarrow> int \<Rightarrow> datetime \<Rightarrow> unit tx_body" where
  "renew_body D ses generation expires_at now db =
     and_then (bind_timestamp D expires_at) (\<lambda>expires.
       fenced_update (\<lambda>r. owned_by ses generation now r \<and> (mr_state r = ''archiving'' \<or> awaits_cleanup r))
         (\<lambda>r. r\<lparr> mr_owner_expires_at := Some expires \<rparr>) db)"

text \<open>The operations of a session convert its generation, and then compute the instant they set.\<close>

definition with_generation ::
    "ArchiveSession \<Rightarrow> CockroachDurableBucketStore \<Rightarrow> (int \<Rightarrow> 'r dur_result \<times> CockroachDurableBucketStore)
     \<Rightarrow> 'r dur_result \<times> CockroachDurableBucketStore" where
  "with_generation ses s k = (case i64_generation ses of Inl error \<Rightarrow> (Err error, s) | Inr g \<Rightarrow> k g)"

definition with_deadline ::
    "driver \<Rightarrow> ck_env \<Rightarrow> duration \<Rightarrow> CockroachDurableBucketStore
     \<Rightarrow> (datetime \<Rightarrow> 'r dur_result \<times> CockroachDurableBucketStore) \<Rightarrow> 'r dur_result \<times> CockroachDurableBucketStore" where
  "with_deadline D e d s k =
     (case archive_lease_expiry D (ce_utc_now e) d of Inl error \<Rightarrow> (Err error, s) | Inr t \<Rightarrow> k t)"

definition ck_renew_archive_lease where
  "ck_renew_archive_lease D e ses lease_for s =
     with_generation ses s (\<lambda>g. with_deadline D e lease_for s (\<lambda>t. in_transaction e (renew_body D ses g t) s))"

definition reopen_row :: "meta_row \<Rightarrow> meta_row" where
  "reopen_row r = r\<lparr> mr_state := ''hot'', mr_owner_token := None, mr_owner_expires_at := None,
     mr_object_key := None, mr_hot_deleted := False \<rparr>"

definition defer_archive_body :: "driver \<Rightarrow> ArchiveSession \<Rightarrow> int \<Rightarrow> datetime \<Rightarrow> unit tx_body" where
  "defer_archive_body D ses generation retry_at now db =
     and_then (bind_timestamp D retry_at) (\<lambda>retry.
       fenced_update (\<lambda>r. owned_by ses generation now r \<and> mr_state r = ''archiving'')
         (\<lambda>r. (reopen_row r)\<lparr> mr_attempts := mr_attempts r + 1, mr_next_attempt_at := Some retry \<rparr>) db)"

definition ck_defer_archive where
  "ck_defer_archive D e ses retry_after s =
     with_generation ses s (\<lambda>g. with_deadline D e retry_after s (\<lambda>t.
       then_invalidate (\<lambda>_. True) (ses_bucket ses) (in_transaction e (defer_archive_body D ses g t) s)))"

definition defer_cleanup_body :: "driver \<Rightarrow> ArchiveSession \<Rightarrow> int \<Rightarrow> datetime \<Rightarrow> unit tx_body" where
  "defer_cleanup_body D ses generation retry_at now db =
     and_then (bind_timestamp D retry_at) (\<lambda>retry.
       fenced_update (\<lambda>r. owned_by ses generation now r \<and> awaits_cleanup r)
         (\<lambda>r. r\<lparr> mr_owner_expires_at := Some retry, mr_attempts := mr_attempts r + 1,
            mr_next_attempt_at := Some retry \<rparr>) db)"

definition ck_defer_cleanup where
  "ck_defer_cleanup D e ses retry_after s =
     with_generation ses s (\<lambda>g. with_deadline D e retry_after s (\<lambda>t.
       in_transaction e (defer_cleanup_body D ses g t) s))"

subsection \<open>Routed reads\<close>

definition record_of_row :: "record_row \<Rightarrow> Record" where
  "record_of_row r = \<lparr> rec_partition_key = PartitionKey (rr_partition_key r), rec_event_time = rr_event_time r,
     rec_sort_key = SortKey (rr_sort_key r), rec_value = rr_value r \<rparr>"

definition row_order :: "record_row \<Rightarrow> datetime \<times> byte list" where
  "row_order r = (rr_event_time r, rr_sort_key r)"

text \<open>
  The statement of \<open>read_range\<close>: the effective route, and joined with it the hot rows of the range, or one
  row of nulls when there is none. Nulls sort first.
\<close>

definition effective_route :: "database \<Rightarrow> BucketId \<Rightarrow> (string \<times> string option) list" where
  "effective_route db b =
     (let route = map (\<lambda>r. (mr_state r, mr_object_key r)) (filter (at_bucket b) (db_meta db))
      in route @ (if route = [] then [(''hot'', None)] else []))"

definition hot_rows ::
    "database \<Rightarrow> BucketId \<Rightarrow> TimeRange \<Rightarrow> (datetime \<times> byte list) option \<Rightarrow> nat \<Rightarrow> record_row list" where
  "hot_rows db b rng after limit =
     take limit (sort_key row_order
       (filter (\<lambda>r. record_fk r = bucket_pk b \<and> rr_event_time r \<ge> tr_start rng \<and> rr_event_time r < tr_end rng
            \<and> (case after of None \<Rightarrow> True | Some c \<Rightarrow> row_order r > c)) (db_records db)))"

definition routed_rows ::
    "database \<Rightarrow> BucketId \<Rightarrow> TimeRange \<Rightarrow> (datetime \<times> byte list) option \<Rightarrow> nat
     \<Rightarrow> (string \<times> string option \<times> record_row option) list" where
  "routed_rows db b rng after limit =
     sort_key (\<lambda>(_, _, hot). map_option row_order hot)
       (concat (map (\<lambda>(state, key).
          let hot = (if state \<noteq> ''archived'' then hot_rows db b rng after limit else [])
          in if hot = [] then [(state, key, None)] else map (\<lambda>h. (state, key, Some h)) hot)
        (effective_route db b)))"

definition routed_read_from_snapshot ::
    "string \<Rightarrow> string option \<Rightarrow> Record list \<Rightarrow> DurableBucketRead dur_result" where
  "routed_read_from_snapshot state key records =
     (if (state = ''hot'' \<or> state = ''archiving'') \<and> key = None then Ok (HotRead records)
      else if state = ''archived'' \<and> records = []
      then and_then (ok_or OperationFailed key) (\<lambda>k. Ok (ArchiveRead k))
      else Err OperationFailed)"

definition bind_cursor ::
    "driver \<Rightarrow> Cursor option \<Rightarrow> (TransactionFailure, (datetime \<times> byte list) option) result" where
  "bind_cursor D after =
     (case after of
        None \<Rightarrow> Ok None
      | Some c \<Rightarrow> and_then (bind_timestamp D (cur_event_time c)) (\<lambda>t. Ok (Some (t, sk_bytes (cur_sort_key c)))))"

definition read_snapshot ::
    "driver \<Rightarrow> database \<Rightarrow> BucketId \<Rightarrow> TimeRange \<Rightarrow> Cursor option \<Rightarrow> nat \<Rightarrow> DurableBucketRead dur_result" where
  "read_snapshot D db b rng after limit =
     and_then (map_err into_store_error (bind_timestamp D (tr_start rng))) (\<lambda>start.
     and_then (map_err into_store_error (bind_timestamp D (tr_end rng))) (\<lambda>end_time.
     and_then (map_err into_store_error (bind_cursor D after)) (\<lambda>cursor.
       let rows = routed_rows db b \<lparr> tr_start = start, tr_end = end_time \<rparr> cursor (min limit (nat I64_MAX))
       in case rows of
            [] \<Rightarrow> Err OperationFailed
          | (state, key, _) # _ \<Rightarrow>
              routed_read_from_snapshot state key
                (map record_of_row (List.map_filter (\<lambda>(_, _, hot). hot) rows)))))"

definition ck_read_range where
  "ck_read_range D e b rng after limit s =
     (case route_archived (ck_routes s) b of
        Some key \<Rightarrow> (Ok (ArchiveRead key), s)
      | None \<Rightarrow>
          if \<not> ce_acquire e then (Err pool_error, s)
          else case ce_query e of
            Some error \<Rightarrow> (Err (database_error error), s)
          | None \<Rightarrow>
              (case read_snapshot D (ck_db s) b rng after limit of
                 Inl error \<Rightarrow> (Err error, s)
               | Inr (ArchiveRead key) \<Rightarrow>
                   (Ok (ArchiveRead key), s\<lparr> ck_routes := cache_archive_at b key (ce_instant e) (ck_routes s) \<rparr>)
               | Inr (HotRead records) \<Rightarrow> (Ok (HotRead records), s)))"

subsection \<open>Archival\<close>

definition FIVE_MINUTES :: int where
  "FIVE_MINUTES = 5 * 60 * 1000000000"

definition begin_archive_body :: "driver \<Rightarrow> BucketId \<Rightarrow> string \<Rightarrow> ArchiveSession tx_body" where
  "begin_archive_body D b token now db =
     and_then (insert_meta D b db) (\<lambda>db1.
     and_then (update_meta
         (\<lambda>r. at_bucket b r \<and> (mr_state r = ''hot'' \<or> mr_state r = ''archiving'' \<and> sql_le (mr_owner_expires_at r) now))
         (\<lambda>r. r\<lparr> mr_state := ''archiving'', mr_generation := mr_generation r + 1, mr_owner_token := Some token,
            mr_owner_expires_at := Some (now + FIVE_MINUTES), mr_object_key := None, mr_hot_deleted := False \<rparr>)
         db1) (\<lambda>(rows, db2).
       case rows of
         r # _ \<Rightarrow>
           if mr_generation r < 0 then Err (TxStore OperationFailed)
           else Ok (\<lparr> ses_bucket = b, ses_owner_token = token, ses_generation = nat (mr_generation r) \<rparr>, db2)
       | [] \<Rightarrow>
           and_then (and_then (state_from_metadata db2 b) (ok_or (TxStore OperationFailed))) (\<lambda>st.
             Err (TxStore (ArchiveNotAllowed st)))))"

definition ck_begin_archive where
  "ck_begin_archive D e b s =
     then_invalidate (\<lambda>_. True) b (in_transaction e (begin_archive_body D b (ce_uuid e)) s)"

definition snapshot_body :: "ArchiveSession \<Rightarrow> int \<Rightarrow> Record list tx_body" where
  "snapshot_body ses generation now db =
     (if \<not> list_ex (\<lambda>r. owned_by ses generation now r \<and> mr_state r = ''archiving'') (db_meta db)
      then Err (TxStore StaleArchiveSession)
      else Ok (map record_of_row (sort_key row_order
             (filter (\<lambda>r. record_fk r = bucket_pk (ses_bucket ses)) (db_records db))), db))"

definition ck_snapshot where
  "ck_snapshot e ses s = with_generation ses s (\<lambda>g. in_transaction e (snapshot_body ses g) s)"

definition publish_body :: "ArchiveSession \<Rightarrow> int \<Rightarrow> string \<Rightarrow> unit tx_body" where
  "publish_body ses generation key now db =
     fenced_update (\<lambda>r. owned_by ses generation now r \<and> mr_state r = ''archiving'')
       (\<lambda>r. r\<lparr> mr_state := ''archived'', mr_object_key := Some key, mr_hot_deleted := False \<rparr>) db"

definition ck_publish_archive where
  "ck_publish_archive e ses key s =
     with_generation ses s (\<lambda>g.
       then_invalidate (\<lambda>_. True) (ses_bucket ses) (in_transaction e (publish_body ses g key) s))"

definition delete_body :: "ArchiveSession \<Rightarrow> int \<Rightarrow> unit tx_body" where
  "delete_body ses generation now db =
     (let deletable = (\<lambda>r. owned_by ses generation now r \<and> awaits_cleanup r);
          db1 = db\<lparr> db_records := filter (\<lambda>r. \<not> (record_fk r = bucket_pk (ses_bucket ses)
                  \<and> list_ex deletable (db_meta db))) (db_records db) \<rparr>
      in fenced_update deletable (\<lambda>r. r\<lparr> mr_hot_deleted := True \<rparr>) db1)"

definition ck_delete_hot_bucket where
  "ck_delete_hot_bucket e ses s = with_generation ses s (\<lambda>g. in_transaction e (delete_body ses g) s)"

definition abort_body :: "ArchiveSession \<Rightarrow> int \<Rightarrow> unit tx_body" where
  "abort_body ses generation now db =
     fenced_update (\<lambda>r. owned_by ses generation now r \<and> mr_state r = ''archiving'') reopen_row db"

definition ck_abort_archive where
  "ck_abort_archive e ses s =
     with_generation ses s (\<lambda>g.
       then_invalidate (\<lambda>_. True) (ses_bucket ses) (in_transaction e (abort_body ses g) s))"

definition cockroach_store :: "driver \<Rightarrow> (ck_env, CockroachDurableBucketStore) DurableBucketStore" where
  "cockroach_store D = \<lparr>
     ds_append = ck_append D, ds_state = ck_state, ds_discover_archive_work = ck_discover_archive_work D,
     ds_claim_archive = ck_claim_archive D, ds_claim_cleanup = ck_claim_cleanup D,
     ds_renew_archive_lease = ck_renew_archive_lease D, ds_defer_archive = ck_defer_archive D,
     ds_defer_cleanup = ck_defer_cleanup D, ds_read_range = ck_read_range D, ds_begin_archive = ck_begin_archive D,
     ds_snapshot = ck_snapshot, ds_publish_archive = ck_publish_archive, ds_delete_hot_bucket = ck_delete_hot_bucket,
     ds_abort_archive = ck_abort_archive \<rparr>"

subsection \<open>Several processes\<close>

text \<open>
  Processes that share one database, each with a route cache of its own. The environment of an operation
  names the process that performs it.
\<close>

record fleet =
  fl_db :: database
  fl_routes :: "nat \<Rightarrow> RouteCache"

definition process_of :: "nat \<Rightarrow> fleet \<Rightarrow> CockroachDurableBucketStore" where
  "process_of p s = \<lparr> ck_db = fl_db s, ck_routes = fl_routes s p \<rparr>"

definition on_process ::
    "nat \<Rightarrow> (CockroachDurableBucketStore \<Rightarrow> 'r \<times> CockroachDurableBucketStore) \<Rightarrow> fleet \<Rightarrow> 'r \<times> fleet" where
  "on_process p op s =
     (case op (process_of p s) of (res, s') \<Rightarrow>
        (res, \<lparr> fl_db = ck_db s', fl_routes = (fl_routes s)(p := ck_routes s') \<rparr>))"

definition cockroach_fleet :: "driver \<Rightarrow> (nat \<times> ck_env, fleet) DurableBucketStore" where
  "cockroach_fleet D = (let S = cockroach_store D in \<lparr>
     ds_append = (\<lambda>(p, e) b r. on_process p (ds_append S e b r)),
     ds_state = (\<lambda>(p, e) b. on_process p (ds_state S e b)),
     ds_discover_archive_work = (\<lambda>(p, e) scan. on_process p (ds_discover_archive_work S e scan)),
     ds_claim_archive = (\<lambda>(p, e) b d. on_process p (ds_claim_archive S e b d)),
     ds_claim_cleanup = (\<lambda>(p, e) b d. on_process p (ds_claim_cleanup S e b d)),
     ds_renew_archive_lease = (\<lambda>(p, e) ses d. on_process p (ds_renew_archive_lease S e ses d)),
     ds_defer_archive = (\<lambda>(p, e) ses d. on_process p (ds_defer_archive S e ses d)),
     ds_defer_cleanup = (\<lambda>(p, e) ses d. on_process p (ds_defer_cleanup S e ses d)),
     ds_read_range = (\<lambda>(p, e) b rng after limit. on_process p (ds_read_range S e b rng after limit)),
     ds_begin_archive = (\<lambda>(p, e) b. on_process p (ds_begin_archive S e b)),
     ds_snapshot = (\<lambda>(p, e) ses. on_process p (ds_snapshot S e ses)),
     ds_publish_archive = (\<lambda>(p, e) ses key. on_process p (ds_publish_archive S e ses key)),
     ds_delete_hot_bucket = (\<lambda>(p, e) ses. on_process p (ds_delete_hot_bucket S e ses)),
     ds_abort_archive = (\<lambda>(p, e) ses. on_process p (ds_abort_archive S e ses)) \<rparr>)"

end
