(* ===== verification/Cockroach_Steps.thy ===== *)
theory Cockroach_Steps
  imports Cockroach_Store
begin

text \<open>
  What the transactions of the CockroachDB store do to the tables, seen as transitions of one bucket: a
  transaction commits one run of its body or nothing, an update changes the row of one bucket and keeps the
  constraints and every published route, and a read selects its route and its rows from one state.
\<close>

section \<open>Transactions\<close>

text \<open>A transaction that returns a value has committed one run of its body; one that fails has committed a
  run or nothing.\<close>

definition commits :: "'r tx_body \<Rightarrow> database \<Rightarrow> 'r dur_result \<Rightarrow> database \<Rightarrow> bool" where
  "commits body db res db' \<longleftrightarrow>
     (case res of
        Inr v \<Rightarrow> \<exists>now. body now db = Ok (v, db')
      | Inl _ \<Rightarrow> db' = db \<or> (\<exists>now v. body now db = Ok (v, db')))"

lemma run_body_Ok: "run_body fault body now db = Ok x \<Longrightarrow> body now db = Ok x"
  by (simp add: run_body_def split: option.splits)

lemma tx_attempts_commits: "tx_attempts env body n db = (res, db') \<Longrightarrow> commits body db res db'"
proof (induction n)
  case (Suc n)
  define a where "a = env (MAX_TRANSACTION_ATTEMPTS - Suc n)"
  note step = Suc.prems [unfolded tx_attempts.simps Let_def a_def [symmetric]]
  show ?case
  proof (cases "\<exists>fault v db''. ta_acquire a \<and> ta_begin a = Answer None \<and> ta_body a = Answer fault
      \<and> run_body fault body (ta_now a) db = Ok (v, db'')")
    case True
    then obtain fault v db'' where run: "ta_acquire a" "ta_begin a = Answer None" "ta_body a = Answer fault"
      "run_body fault body (ta_now a) db = Ok (v, db'')" by blast
    show ?thesis
      using step Suc.IH run_body_Ok [OF run(4)]
      by (cases "ta_commit a") (auto simp: run commits_def split: commit_answer.splits if_splits)
  next
    case False
    then show ?thesis
      using step Suc.IH
      by (cases "ta_begin a"; cases "ta_body a")
        (auto simp: commits_def split: if_splits option.splits sum.splits TransactionFailure.splits)
  qed
qed (auto simp: commits_def)

lemma transaction_commits: "transaction env body db = (res, db') \<Longrightarrow> commits body db res db'"
  unfolding transaction_def by (rule tx_attempts_commits)

lemma in_transaction_commits:
  "in_transaction e body s = (res, s') \<Longrightarrow> commits body (ck_db s) res (ck_db s') \<and> ck_routes s' = ck_routes s"
  by (auto simp: in_transaction_def transaction_commits split: prod.splits)

section \<open>Rows of a bucket\<close>

definition row_for :: "BucketId \<Rightarrow> meta_row \<Rightarrow> bool" where
  "row_for b r \<longleftrightarrow> meta_pk r = bucket_pk b \<and> mr_bucket_strategy r = strategy_as_str (bid_strategy b)
     \<and> mr_bucket_start r = bid_start b \<and> mr_bucket_end r = bid_end b"

definition db_inv :: "chrono \<Rightarrow> database \<Rightarrow> bool" where
  "db_inv C db \<longleftrightarrow> distinct (map meta_pk (db_meta db))
     \<and> (\<forall>r \<in> set (db_meta db). meta_check r \<and> (\<exists>b. canonical C b \<and> row_for b r))"

definition row_state :: "meta_row \<Rightarrow> BucketState" where
  "row_state r = (case metadata_state r of Inr st \<Rightarrow> st | Inl _ \<Rightarrow> Hot)"

definition db_recs :: "database \<Rightarrow> BucketId \<Rightarrow> Record list" where
  "db_recs db b =
     sort_key ckey (map record_of_row (filter (\<lambda>r. record_fk r = bucket_pk b) (db_records db)))"

definition row_view :: "meta_row option \<Rightarrow> Record list \<Rightarrow> bucket_view" where
  "row_view row rs = (case row of
     None \<Rightarrow> \<lparr> v_state = Hot, v_gen = 0, v_recs = rs \<rparr>
   | Some r \<Rightarrow> \<lparr> v_state = row_state r, v_gen = nat (mr_generation r), v_recs = rs \<rparr>)"

definition db_view :: "database \<Rightarrow> BucketId \<Rightarrow> bucket_view" where
  "db_view db b = row_view (find_meta db (bucket_pk b)) (db_recs db b)"

lemma bucket_pk_inject:
  assumes "canonical C b" and "canonical C b'"
  shows "bucket_pk b = bucket_pk b' \<longleftrightarrow> b = b'"
  using canonical_eq_iff [OF assms]
  by (auto simp: bucket_pk_def intro: TableId.expand PartitionKey.expand BucketKey.expand)

text \<open>The state of a row that satisfies the CHECK constraints.\<close>

lemma metadata_state_check:
  "meta_check r \<Longrightarrow> metadata_state r = Ok (row_state r)"
  by (auto simp: meta_check_def row_state_def metadata_state_def)

lemma meta_check_cases:
  assumes "meta_check r"
  obtains "mr_state r = ''hot''" "row_state r = Hot"
    | "mr_state r = ''archiving''" "row_state r = Archiving"
    | key where "mr_state r = ''archived''" "mr_object_key r = Some key" "row_state r = Archived key (mr_hot_deleted r)"
proof -
  consider "mr_state r = ''hot''" | "mr_state r = ''archiving''" | "mr_state r = ''archived''"
    using assms unfolding meta_check_def by blast
  then show thesis
    by cases (use assms that in \<open>auto simp: meta_check_def row_state_def metadata_state_def\<close>)
qed

lemma row_state_simps:
  assumes "meta_check r"
  shows "row_state r = Hot \<longleftrightarrow> mr_state r = ''hot''"
    "row_state r = Archiving \<longleftrightarrow> mr_state r = ''archiving''"
    "row_state r = Archived key d \<longleftrightarrow> mr_state r = ''archived'' \<and> mr_object_key r = Some key \<and> mr_hot_deleted r = d"
  by (rule meta_check_cases [OF assms]; simp; fail)+

lemma cleanup_pending_row: "meta_check r \<Longrightarrow> cleanup_pending (row_state r) \<longleftrightarrow> awaits_cleanup r"
  by (erule meta_check_cases) (simp_all add: cleanup_pending_def awaits_cleanup_def)

lemma find_meta_Some: "find_meta db k = Some r \<Longrightarrow> r \<in> set (db_meta db) \<and> meta_pk r = k"
  unfolding find_meta_def by (metis (mono_tags, lifting) find_Some_iff nth_mem)

lemma find_meta_check: "db_inv C db \<Longrightarrow> find_meta db k = Some r \<Longrightarrow> meta_check r"
  using find_meta_Some by (fastforce simp: db_inv_def)

lemma find_append: "find P (xs @ ys) = (case find P xs of None \<Rightarrow> find P ys | Some x \<Rightarrow> Some x)"
  by (induction xs) auto

lemma filter_unique_key:
  assumes "distinct (map f xs)" and "\<And>x. P x \<Longrightarrow> f x = k"
  shows "filter P xs = (case find (\<lambda>x. f x = k) xs of None \<Rightarrow> [] | Some x \<Rightarrow> if P x then [x] else [])"
  using assms(1)
proof (induction xs)
  case (Cons x xs)
  show ?case
  proof (cases "f x = k")
    case True
    then have "filter P xs = []"
      using Cons.prems assms(2) by (auto simp: filter_empty_conv image_iff)
    then show ?thesis using True by simp
  next
    case False
    then show ?thesis using Cons assms(2) by auto
  qed
qed simp

section \<open>Updates\<close>

text \<open>What a step of the database does to bucket \<open>b\<close> is \<open>R\<close>; it keeps the other buckets, the invariant and
  every published route.\<close>

definition published :: "database \<Rightarrow> row_key \<Rightarrow> string \<Rightarrow> bool" where
  "published db k key \<longleftrightarrow>
     (\<exists>r. find_meta db k = Some r \<and> mr_state r = ''archived'' \<and> mr_object_key r = Some key)"

definition db_step :: "chrono \<Rightarrow> BucketId \<Rightarrow> (bucket_view \<Rightarrow> bucket_view \<Rightarrow> bool) \<Rightarrow> database \<Rightarrow> database \<Rightarrow> bool" where
  "db_step C b R db db' \<longleftrightarrow> db_inv C db'
     \<and> (\<forall>b'. canonical C b' \<longrightarrow> b' \<noteq> b \<longrightarrow> db_view db' b' = db_view db b')
     \<and> R (db_view db b) (db_view db' b)
     \<and> (\<forall>k key. published db k key \<longrightarrow> published db' k key)"

lemma db_step_refl: "db_inv C db \<Longrightarrow> R (db_view db b) (db_view db b) \<Longrightarrow> db_step C b R db db"
  by (simp add: db_step_def)

lemma db_step_mono: "db_step C b R db db' \<Longrightarrow> (\<And>v v'. R v v' \<Longrightarrow> R' v v') \<Longrightarrow> db_step C b R' db db'"
  by (auto simp: db_step_def)

definition static_same :: "meta_row \<Rightarrow> meta_row \<Rightarrow> bool" where
  "static_same r r' \<longleftrightarrow> meta_pk r' = meta_pk r \<and> mr_bucket_strategy r' = mr_bucket_strategy r
     \<and> mr_bucket_start r' = mr_bucket_start r \<and> mr_bucket_end r' = mr_bucket_end r"

lemma find_meta_update:
  assumes "\<And>r. meta_pk (f r) = meta_pk r"
  shows "find_meta (db\<lparr> db_meta := map (\<lambda>r. if P r then f r else r) (db_meta db) \<rparr>) k
    = map_option (\<lambda>r. if P r then f r else r) (find_meta db k)"
proof -
  have "find (\<lambda>r. meta_pk r = k) (map (\<lambda>r. if P r then f r else r) rows)
      = map_option (\<lambda>r. if P r then f r else r) (find (\<lambda>r. meta_pk r = k) rows)" for rows
    by (induction rows) (auto simp: assms)
  then show ?thesis by (simp add: find_meta_def)
qed

text \<open>An update whose condition selects the row of one bucket, and which keeps its key, its bounds and a
  published route.\<close>

definition fenced :: "BucketId \<Rightarrow> (meta_row \<Rightarrow> bool) \<Rightarrow> (meta_row \<Rightarrow> meta_row) \<Rightarrow> bool" where
  "fenced b P f \<longleftrightarrow> (\<forall>r. static_same r (f r)) \<and> (\<forall>r. P r \<longrightarrow> at_bucket b r)
     \<and> (\<forall>r key. P r \<longrightarrow> mr_state r = ''archived'' \<longrightarrow> mr_object_key r = Some key
          \<longrightarrow> mr_state (f r) = ''archived'' \<and> mr_object_key (f r) = Some key)"

lemma update_meta_cases:
  assumes inv: "db_inv C db" and b: "canonical C b" and up: "update_meta P f db = Ok (rows, db')"
    and fence: "fenced b P f"
  obtains (none) "rows = []" "db' = db" "\<And>r. find_meta db (bucket_pk b) = Some r \<Longrightarrow> \<not> P r"
    | (one) r where "rows = [f r]" "find_meta db (bucket_pk b) = Some r" "P r" "meta_check (f r)" "int8_ok (f r)"
      "find_meta db' (bucket_pk b) = Some (f r)" "db_records db' = db_records db"
      "db_step C b (\<lambda>v v'. v' = row_view (Some (f r)) (v_recs v)) db db'"
proof -
  have P: "at_bucket b r" if "P r" for r using fence that by (simp add: fenced_def)
  have f: "static_same r (f r)" for r using fence by (simp add: fenced_def)
  have pub: "mr_state (f r) = ''archived'' \<and> mr_object_key (f r) = Some key"
    if "P r" "mr_state r = ''archived''" "mr_object_key r = Some key" for r key
    using fence that unfolding fenced_def by blast
  let ?g = "\<lambda>r. if P r then f r else r"
  have rows: "rows = map f (filter P (db_meta db))" and chk: "list_all int8_ok rows" "list_all meta_check rows"
    and db': "db' = db\<lparr> db_meta := map ?g (db_meta db) \<rparr>"
    using up by (auto simp: update_meta_def Let_def split: if_splits)
  have flt: "filter P (db_meta db) = (case find_meta db (bucket_pk b) of None \<Rightarrow> [] | Some r \<Rightarrow> if P r then [r] else [])"
    unfolding find_meta_def
    by (rule filter_unique_key) (use inv P in \<open>auto simp: db_inv_def at_bucket_def\<close>)
  have find: "find_meta db' k = map_option ?g (find_meta db k)" for k
    unfolding db' by (rule find_meta_update) (use f in \<open>simp add: static_same_def\<close>)
  show thesis
  proof (cases "filter P (db_meta db) = []")
    case True
    then have "map ?g (db_meta db) = db_meta db" by (auto simp: filter_empty_conv intro: map_idI)
    then have "db' = db" using db' by simp
    then show thesis using True rows flt none by (auto split: option.splits if_splits)
  next
    case False
    then obtain r where r: "find_meta db (bucket_pk b) = Some r" "P r" "filter P (db_meta db) = [r]"
      using flt by (auto split: option.splits if_splits)
    have fr: "find_meta db' (bucket_pk b) = Some (f r)" using find r by simp
    have "distinct (map meta_pk (db_meta db'))"
    proof -
      have "map meta_pk (db_meta db') = map meta_pk (db_meta db)" using f by (simp add: db' static_same_def)
      then show ?thesis using inv by (simp only: db_inv_def)
    qed
    moreover have "meta_check r' \<and> (\<exists>c. canonical C c \<and> row_for c r')" if "r' \<in> set (db_meta db')" for r'
    proof -
      from that db' obtain r0 where r0: "r0 \<in> set (db_meta db)" "r' = ?g r0" by auto
      have "meta_check r'" using r0 inv chk(2) rows by (auto simp: db_inv_def list_all_iff)
      moreover have "static_same r0 r'" using r0 f by (simp add: static_same_def)
      ultimately show ?thesis using r0 inv by (auto simp: db_inv_def row_for_def static_same_def)
    qed
    ultimately have inv': "db_inv C db'" by (auto simp: db_inv_def)
    have other: "map_option ?g (find_meta db k) = find_meta db k" if "k \<noteq> bucket_pk b" for k
      using P that find_meta_Some [of db k] by (cases "find_meta db k") (auto simp: at_bucket_def)
    have recs: "db_recs db' c = db_recs db c" for c by (simp add: db_recs_def db')
    have frame: "db_view db' b' = db_view db b'" if "canonical C b'" "b' \<noteq> b" for b'
      using find other bucket_pk_inject [OF that(1) b] that(2) recs by (simp add: db_view_def)
    have keep: "published db' k key" if "published db k key" for k key
    proof -
      from that obtain r0 where r0: "find_meta db k = Some r0" "mr_state r0 = ''archived''" "mr_object_key r0 = Some key"
        by (auto simp: published_def)
      then have "find_meta db' k = Some (?g r0)" using find [of k] by simp
      moreover have "mr_state (?g r0) = ''archived'' \<and> mr_object_key (?g r0) = Some key"
        using pub [of r0 key] r0 by simp
      ultimately show ?thesis by (auto simp: published_def)
    qed
    have "db_step C b (\<lambda>v v'. v' = row_view (Some (f r)) (v_recs v)) db db'"
      unfolding db_step_def
      using inv' frame keep fr recs r(1) by (auto simp: db_view_def row_view_def)
    then show thesis
      using one [of r] r rows chk fr by (simp add: db')
  qed
qed

lemma fenced_update_step:
  assumes inv: "db_inv C db" and b: "canonical C b" and up: "fenced_update P f db = Ok (u, db')"
    and fence: "fenced b P f"
  obtains r where "P r" "meta_check r" "meta_check (f r)" "find_meta db (bucket_pk b) = Some r"
    "db_records db' = db_records db" "find_meta db' (bucket_pk b) = Some (f r)"
    "db_step C b (\<lambda>v v'. \<exists>rs. v = row_view (Some r) rs \<and> v' = row_view (Some (f r)) rs) db db'"
proof -
  from up obtain rows where rows: "update_meta P f db = Ok (rows, db')" "length rows = 1"
    by (auto simp: fenced_update_def and_then_eq_Inr split: if_splits)
  show thesis
  proof (cases rule: update_meta_cases [OF inv b rows(1) fence, case_names none one])
    case (one r)
    have "db_view db b = row_view (Some r) (v_recs (db_view db b))"
      using one(2) by (simp add: db_view_def row_view_def)
    with one(8) have "db_step C b
        (\<lambda>v v'. \<exists>rs. v = row_view (Some r) rs \<and> v' = row_view (Some (f r)) rs) db db'"
      by (auto simp: db_step_def)
    then show thesis using that one find_meta_check [OF inv one(2)] by blast
  qed (use rows(2) in simp)
qed

section \<open>What each transaction does\<close>

lemma commits_step:
  assumes "db_inv C db" and "commits body db res db'"
    and "\<And>now x db''. body now db = Ok (x, db'') \<Longrightarrow> db_step C b (R x) db db''"
  shows "db_step C b (\<lambda>v v'. case res of Inr x \<Rightarrow> R x v v' | Inl _ \<Rightarrow> v' = v \<or> (\<exists>x. R x v v')) db db'"
proof (cases res)
  case (Inl e)
  with assms(2) consider "db' = db" | now x where "body now db = Ok (x, db')" by (auto simp: commits_def)
  then show ?thesis
  proof cases
    case 1
    then show ?thesis using assms(1) Inl by (simp add: db_step_refl)
  next
    case 2
    from assms(3) [OF this] show ?thesis by (rule db_step_mono) (auto simp: Inl)
  qed
next
  case (Inr x)
  then show ?thesis using assms(2,3) by (auto simp: commits_def)
qed

lemma performs_commit:
  assumes "db_inv C db" and "commits body db res db'"
    and "\<And>now x db''. body now db = Ok (x, db'') \<Longrightarrow> db_step C b (\<lambda>v v'. guard v \<and> v' = f v) db db''"
  shows "db_step C b (\<lambda>v v'. performs guard f v res v') db db'"
  by (rule db_step_mono [OF commits_step [OF assms]]) (auto simp: performs_def split: sum.splits)

definition claimed :: "(bucket_view \<Rightarrow> bool) \<Rightarrow> (bucket_view \<Rightarrow> bucket_view) \<Rightarrow> BucketId
    \<Rightarrow> ArchiveSession option \<Rightarrow> bucket_view \<Rightarrow> bucket_view \<Rightarrow> bool" where
  "claimed guard f b ses v v' \<longleftrightarrow>
     (case ses of
        None \<Rightarrow> v' = v
      | Some ses \<Rightarrow> guard v \<and> v' = f v \<and> ses_bucket ses = b \<and> ses_generation ses = v_gen v')"

lemma claims_commit:
  assumes "db_inv C db" and "commits body db res db'"
    and "\<And>now x db''. body now db = Ok (x, db'') \<Longrightarrow> db_step C b (claimed guard f b x) db db''"
  shows "db_step C b (\<lambda>v v'. claims guard f b v res v') db db'"
  by (rule db_step_mono [OF commits_step [OF assms]])
    (auto simp: claims_def claimed_def split: sum.splits option.splits)

lemma i64_generation_Ok: "i64_generation ses = Ok g \<Longrightarrow> g = int (ses_generation ses)"
  by (simp add: i64_generation_def split: if_splits)

lemma static_same_simps [simp]:
  "static_same r (r\<lparr> mr_state := a \<rparr>)" "static_same r r"
  by (simp_all add: static_same_def meta_pk_def)

lemma owned_session:
  assumes "owned_by ses g now r" and "i64_generation ses = Ok g"
  shows "v_gen (row_view (Some r) rs) = ses_generation ses"
  using assms(1) i64_generation_Ok [OF assms(2)] by (auto simp: owned_by_def row_view_def)

lemma abort_step:
  assumes "db_inv C db" and "canonical C (ses_bucket ses)" and g: "i64_generation ses = Ok g"
    and "abort_body ses g now db = Ok (u, db')"
  shows "db_step C (ses_bucket ses) (\<lambda>v v'. holds_session ses Archiving v \<and> v' = v_reopen v) db db'"
proof (rule fenced_update_step [OF assms(1,2) assms(4) [unfolded abort_body_def]])
  show "fenced (ses_bucket ses) (\<lambda>r. owned_by ses g now r \<and> mr_state r = ''archiving'') reopen_row"
    by (auto simp: fenced_def owned_by_def static_same_def meta_pk_def reopen_row_def)
  fix r
  assume r: "owned_by ses g now r \<and> mr_state r = ''archiving''" "meta_check r" "meta_check (reopen_row r)"
    and step: "db_step C (ses_bucket ses)
      (\<lambda>v v'. \<exists>rs. v = row_view (Some r) rs \<and> v' = row_view (Some (reopen_row r)) rs) db db'"
  have "row_state r = Archiving" "row_state (reopen_row r) = Hot"
    using r by (auto simp: row_state_simps reopen_row_def)
  then show ?thesis
    using step owned_session [OF _ g, of now r] r(1)
    by (elim db_step_mono) (auto simp: holds_session_def v_reopen_def row_view_def reopen_row_def)
qed

lemma defer_archive_step:
  assumes "db_inv C db" and "canonical C (ses_bucket ses)" and g: "i64_generation ses = Ok g"
    and "defer_archive_body D ses g t now db = Ok (u, db')"
  shows "db_step C (ses_bucket ses) (\<lambda>v v'. holds_session ses Archiving v \<and> v' = v_reopen v) db db'"
proof -
  let ?f = "\<lambda>retry r. (reopen_row r)\<lparr> mr_attempts := mr_attempts r + 1, mr_next_attempt_at := Some retry \<rparr>"
  from assms(4) obtain retry where
    up: "fenced_update (\<lambda>r. owned_by ses g now r \<and> mr_state r = ''archiving'') (?f retry) db = Ok (u, db')"
    by (auto simp: defer_archive_body_def and_then_eq_Inr)
  show ?thesis
  proof (rule fenced_update_step [OF assms(1,2) up])
    show "fenced (ses_bucket ses) (\<lambda>r. owned_by ses g now r \<and> mr_state r = ''archiving'') (?f retry)"
      by (auto simp: fenced_def owned_by_def static_same_def meta_pk_def reopen_row_def)
    fix r
    assume r: "owned_by ses g now r \<and> mr_state r = ''archiving''" "meta_check r" "meta_check (?f retry r)"
      and step: "db_step C (ses_bucket ses)
        (\<lambda>v v'. \<exists>rs. v = row_view (Some r) rs \<and> v' = row_view (Some (?f retry r)) rs) db db'"
    have "row_state r = Archiving" "row_state (?f retry r) = Hot"
      using r by (auto simp: row_state_simps reopen_row_def)
    then show ?thesis
      using step owned_session [OF _ g, of now r] r(1)
      by (elim db_step_mono) (auto simp: holds_session_def v_reopen_def row_view_def reopen_row_def)
  qed
qed

text \<open>Moving a lease or a retry time does not show in the view.\<close>

lemma row_view_lease:
  assumes "meta_check r" and "meta_check r'" and "mr_state r' = mr_state r" and "mr_object_key r' = mr_object_key r"
    and "mr_hot_deleted r' = mr_hot_deleted r" and "mr_generation r' = mr_generation r"
  shows "row_view (Some r') rs = row_view (Some r) rs"
  using assms by (auto simp: row_view_def elim!: meta_check_cases)

lemma lease_step:
  assumes "db_inv C db" and "canonical C b" and "fenced_update P f db = Ok (u, db')" and "fenced b P f"
    and "\<And>r. mr_state (f r) = mr_state r \<and> mr_object_key (f r) = mr_object_key r
      \<and> mr_hot_deleted (f r) = mr_hot_deleted r \<and> mr_generation (f r) = mr_generation r"
  shows "db_step C b (\<lambda>v v'. v' = v) db db'"
proof (rule fenced_update_step [OF assms(1-4)])
  fix r
  assume "meta_check r" "meta_check (f r)"
    and step: "db_step C b (\<lambda>v v'. \<exists>rs. v = row_view (Some r) rs \<and> v' = row_view (Some (f r)) rs) db db'"
  then have "row_view (Some (f r)) rs = row_view (Some r) rs" for rs
    using assms(5) by (intro row_view_lease) auto
  with step show ?thesis by (elim db_step_mono) auto
qed

lemma renew_step:
  assumes "db_inv C db" and "canonical C (ses_bucket ses)" and "renew_body D ses g t now db = Ok (u, db')"
  shows "db_step C (ses_bucket ses) (\<lambda>v v'. v' = v) db db'"
proof -
  from assms(3) obtain expires where "fenced_update
      (\<lambda>r. owned_by ses g now r \<and> (mr_state r = ''archiving'' \<or> awaits_cleanup r))
      (\<lambda>r. r\<lparr> mr_owner_expires_at := Some expires \<rparr>) db = Ok (u, db')"
    by (auto simp: renew_body_def and_then_eq_Inr)
  then show ?thesis
    by (rule lease_step [OF assms(1,2)]) (auto simp: fenced_def owned_by_def static_same_def meta_pk_def)
qed

lemma defer_cleanup_step:
  assumes "db_inv C db" and "canonical C (ses_bucket ses)" and "defer_cleanup_body D ses g t now db = Ok (u, db')"
  shows "db_step C (ses_bucket ses) (\<lambda>v v'. v' = v) db db'"
proof -
  from assms(3) obtain retry where "fenced_update
      (\<lambda>r. owned_by ses g now r \<and> awaits_cleanup r)
      (\<lambda>r. r\<lparr> mr_owner_expires_at := Some retry, mr_attempts := mr_attempts r + 1, mr_next_attempt_at := Some retry \<rparr>)
      db = Ok (u, db')"
    by (auto simp: defer_cleanup_body_def and_then_eq_Inr)
  then show ?thesis
    by (rule lease_step [OF assms(1,2)]) (auto simp: fenced_def owned_by_def static_same_def meta_pk_def)
qed

lemma publish_step:
  assumes "db_inv C db" and "canonical C (ses_bucket ses)" and g: "i64_generation ses = Ok g"
    and "publish_body ses g key now db = Ok (u, db')"
  shows "db_step C (ses_bucket ses) (\<lambda>v v'. holds_session ses Archiving v \<and> v' = v_publish key v) db db'"
proof -
  let ?f = "\<lambda>r. r\<lparr> mr_state := ''archived'', mr_object_key := Some key, mr_hot_deleted := False \<rparr>"
  show ?thesis
  proof (rule fenced_update_step [OF assms(1,2) assms(4) [unfolded publish_body_def]])
    show "fenced (ses_bucket ses) (\<lambda>r. owned_by ses g now r \<and> mr_state r = ''archiving'') ?f"
      by (auto simp: fenced_def owned_by_def static_same_def meta_pk_def)
    fix r
    assume r: "owned_by ses g now r \<and> mr_state r = ''archiving''" "meta_check r" "meta_check (?f r)"
      and step: "db_step C (ses_bucket ses)
        (\<lambda>v v'. \<exists>rs. v = row_view (Some r) rs \<and> v' = row_view (Some (?f r)) rs) db db'"
    have "row_state r = Archiving" "row_state (?f r) = Archived key False"
      using r by (auto simp: row_state_simps)
    then show ?thesis
      using step owned_session [OF _ g, of now r] r(1)
      by (elim db_step_mono) (auto simp: holds_session_def v_publish_def row_view_def)
  qed
qed

lemma db_step_trans:
  assumes "db_step C b (\<lambda>v v'. v' = v) db db1" and "db_step C b R db1 db2"
  shows "db_step C b R db db2"
  using assms by (simp add: db_step_def)

lemma delete_step:
  assumes inv: "db_inv C db" and b: "canonical C (ses_bucket ses)" and g: "i64_generation ses = Ok g"
    and del: "delete_body ses g now db = Ok (u, db')"
  shows "db_step C (ses_bucket ses)
    (\<lambda>v v'. (cleanup_pending (v_state v) \<and> v_gen v = ses_generation ses) \<and> v' = v_delete v) db db'"
proof -
  let ?P = "\<lambda>r. owned_by ses g now r \<and> awaits_cleanup r" and ?f = "\<lambda>r. r\<lparr> mr_hot_deleted := True \<rparr>"
    and ?b = "ses_bucket ses"
  define db1 where "db1 = db\<lparr> db_records := filter (\<lambda>r. \<not> (record_fk r = bucket_pk ?b
    \<and> list_ex ?P (db_meta db))) (db_records db) \<rparr>"
  have up: "fenced_update ?P ?f db1 = Ok (u, db')" using del by (simp add: delete_body_def db1_def Let_def)
  have inv1: "db_inv C db1" using inv by (simp add: db_inv_def db1_def)
  have find: "find_meta db1 k = find_meta db k" for k by (simp add: find_meta_def db1_def)
  show ?thesis
  proof (rule fenced_update_step [OF inv1 b up])
    show "fenced ?b ?P ?f"
      by (auto simp: fenced_def owned_by_def static_same_def meta_pk_def)
    fix r
    assume r: "?P r" "meta_check r" "meta_check (?f r)" "find_meta db1 (bucket_pk ?b) = Some r"
      and step: "db_step C ?b (\<lambda>v v'. \<exists>rs. v = row_view (Some r) rs \<and> v' = row_view (Some (?f r)) rs) db1 db'"
    have "r \<in> set (db_meta db)" using r(4) find_meta_Some by (fastforce simp: find)
    then have ex: "list_ex ?P (db_meta db)" using r(1) by (auto simp: list_ex_iff)
    have gone: "db_recs db1 ?b = []" by (simp add: db_recs_def db1_def ex filter_False)
    have others: "db_view db1 b' = db_view db b'" if "canonical C b'" "b' \<noteq> ?b" for b'
    proof -
      have "bucket_pk b' \<noteq> bucket_pk ?b" using bucket_pk_inject [OF that(1) b] that(2) by simp
      then have "filter (\<lambda>r. record_fk r = bucket_pk b') (db_records db1)
          = filter (\<lambda>r. record_fk r = bucket_pk b') (db_records db)"
        by (auto simp: db1_def intro: filter_cong)
      then show ?thesis by (simp add: db_view_def db_recs_def find)
    qed
    obtain key where "row_state r = Archived key False" "row_state (?f r) = Archived key True"
      using r(1-3) by (auto simp: awaits_cleanup_def row_state_simps elim: meta_check_cases)
    moreover have "db_view db' ?b = row_view (Some (?f r)) []"
      using step r(4) gone by (auto simp: db_step_def db_view_def row_view_def)
    ultimately have "db_view db' ?b = v_delete (db_view db ?b)" "cleanup_pending (v_state (db_view db ?b))"
      "v_gen (db_view db ?b) = ses_generation ses"
      using r(4) owned_session [OF conjunct1 [OF r(1)] g]
      by (simp_all add: db_view_def find row_view_def v_delete_def cleanup_pending_def)
    then show ?thesis using step others by (auto simp: db_step_def published_def find)
  qed
qed

lemma claimed_generation:
  "0 \<le> mr_generation r \<Longrightarrow> int8_ok r \<Longrightarrow> nat (mr_generation r mod 2 ^ 64) = nat (mr_generation r)"
  by (simp add: int8_ok_def I64_MAX_def)

lemma claim_archive_step:
  assumes inv: "db_inv C db" and b: "canonical C b" and op: "claim_archive_body D b token t now db = Ok (ses, db')"
  shows "db_step C b (claimed open_or_archiving v_claim b ses) db db'"
proof -
  let ?P = "\<lambda>r. at_bucket b r \<and> cutover_due now r"
    and ?f = "\<lambda>x r. r\<lparr> mr_state := ''archiving'', mr_generation := mr_generation r + 1, mr_owner_token := Some token,
            mr_owner_expires_at := Some x, mr_next_attempt_at := None, mr_object_key := None,
            mr_hot_deleted := False \<rparr>"
  from op obtain x rows where up: "update_meta ?P (?f x) db = Ok (rows, db')" "ses = claimed_session b token rows"
    by (auto simp: claim_archive_body_def and_then_eq_Inr)
  have "fenced b ?P (?f x)" by (auto simp: fenced_def static_same_def meta_pk_def cutover_due_def)
  from update_meta_cases [OF inv b up(1) this] show ?thesis
  proof cases
    case 1
    then show ?thesis using inv up(2) by (simp add: db_step_refl claimed_session_def claimed_def)
  next
    case (2 r)
    have chk: "meta_check r" by (rule find_meta_check [OF inv 2(2)])
    then have "row_state r = Hot \<or> row_state r = Archiving" "row_state (?f x r) = Archiving"
      using 2(3,4) by (auto simp: row_state_simps cutover_due_def)
    moreover have "0 \<le> mr_generation r" using chk by (simp add: meta_check_def)
    moreover have "ses = Some \<lparr> ses_bucket = b, ses_owner_token = token, ses_generation = nat (mr_generation r + 1) \<rparr>"
      using up(2) 2(1) claimed_generation [OF _ 2(5)] calculation by (simp add: claimed_session_def)
    ultimately show ?thesis
      using 2(8) by (auto simp: db_step_def claimed_def db_view_def row_view_def 2(2) open_or_archiving_def v_claim_def
          nat_add_distrib)
  qed
qed

lemma claim_cleanup_step:
  assumes inv: "db_inv C db" and b: "canonical C b" and op: "claim_cleanup_body D b token t now db = Ok (ses, db')"
  shows "db_step C b (claimed (\<lambda>v. cleanup_pending (v_state v)) v_claim_cleanup b ses) db db'"
proof -
  let ?P = "\<lambda>r. at_bucket b r \<and> cleanup_due now r"
    and ?f = "\<lambda>x r. r\<lparr> mr_generation := mr_generation r + 1, mr_owner_token := Some token,
            mr_owner_expires_at := Some x, mr_next_attempt_at := None \<rparr>"
  from op obtain x rows where up: "update_meta ?P (?f x) db = Ok (rows, db')" "ses = claimed_session b token rows"
    by (auto simp: claim_cleanup_body_def and_then_eq_Inr)
  have "fenced b ?P (?f x)" by (auto simp: fenced_def static_same_def meta_pk_def)
  from update_meta_cases [OF inv b up(1) this] show ?thesis
  proof cases
    case 1
    then show ?thesis using inv up(2) by (simp add: db_step_refl claimed_session_def claimed_def)
  next
    case (2 r)
    have chk: "meta_check r" by (rule find_meta_check [OF inv 2(2)])
    then obtain key where "row_state r = Archived key False" "row_state (?f x r) = Archived key False"
      using 2(3,4) by (auto simp: row_state_simps cleanup_due_def elim: meta_check_cases)
    moreover have "0 \<le> mr_generation r" using chk by (simp add: meta_check_def)
    moreover have "ses = Some \<lparr> ses_bucket = b, ses_owner_token = token, ses_generation = nat (mr_generation r + 1) \<rparr>"
      using up(2) 2(1) claimed_generation [OF _ 2(5)] calculation by (simp add: claimed_session_def)
    ultimately show ?thesis
      using 2(8) by (auto simp: db_step_def claimed_def db_view_def row_view_def 2(2) cleanup_pending_def
          v_claim_cleanup_def nat_add_distrib)
  qed
qed

section \<open>Exact timestamps\<close>

text \<open>A \<open>TIMESTAMPTZ\<close> holds whole microseconds: what the driver can send of them arrives unchanged.\<close>

definition whole_micros :: "datetime \<Rightarrow> bool" where
  "whole_micros t \<longleftrightarrow> t mod 1000 = 0"

definition timestamptz_exact :: "driver \<Rightarrow> bool" where
  "timestamptz_exact D \<longleftrightarrow> (\<forall>t t'. whole_micros t \<longrightarrow> dr_timestamptz D t = Some t' \<longrightarrow> t' = t)"

lemma bind_timestamp_exact:
  "timestamptz_exact D \<Longrightarrow> whole_micros t \<Longrightarrow> bind_timestamp D t = Ok t' \<Longrightarrow> t' = t"
  by (cases "dr_timestamptz D t") (auto simp: bind_timestamp_def timestamptz_exact_def)

lemma aligned_whole: "t mod DAY = 0 \<Longrightarrow> whole_micros t"
proof -
  assume "t mod DAY = 0"
  then have "DAY dvd t" by (rule mod_0_imp_dvd)
  moreover have "(1000 :: int) dvd DAY" by (simp add: DAY_def)
  ultimately show ?thesis unfolding whole_micros_def by (metis dvd_trans dvd_imp_mod_0)
qed

context utc_calendar
begin

lemma bounds_aligned:
  assumes "c_rep C t" and "bucket_bounds C s t = Some (a, z)"
  shows "a mod DAY = 0 \<and> z mod DAY = 0"
proof (cases s)
  case CalendarYearUtc
  then obtain start where "c_with_ymd C (c_year C t) 1 1 = Some start" "c_add_months C start 12 = Some z" "a = start"
    using assms(2) by (auto simp: bucket_bounds_def utc_date_def bind_eq_Some_conv)
  then show ?thesis using add_months_first ymd_aligned by auto
next
  case CalendarMonthUtc
  then obtain start where "c_with_ymd C (c_year C t) (c_month C t) 1 = Some start" "c_add_months C start 1 = Some z"
    "a = start"
    using assms(2) by (auto simp: bucket_bounds_def utc_date_def bind_eq_Some_conv)
  then show ?thesis using add_months_first ymd_aligned by (metis (no_types, lifting))
next
  case CalendarDayUtc
  then obtain start where "c_with_ymd C (c_year C t) (c_month C t) (c_day C t) = Some start"
    "c_add_days C start 1 = Some z" "a = start"
    using assms(2) by (auto simp: bucket_bounds_def utc_date_def bind_eq_Some_conv)
  then show ?thesis
    using add_days [of start 1] ymd_rep ymd_aligned by (auto simp: mod_add_self2 split: if_splits)
qed

lemma canonical_whole:
  assumes "canonical C b"
  shows "whole_micros (bid_start b)" "whole_micros (bid_end b)"
proof -
  from assms obtain t where "c_rep C t" "bucket_bounds C (bid_strategy b) t = Some (bid_start b, bid_end b)"
    by (auto simp: canonical_def for_event_time_Some)
  from bounds_aligned [OF this] show "whole_micros (bid_start b)" "whole_micros (bid_end b)"
    by (auto intro: aligned_whole)
qed

end

section \<open>Opening a bucket and appending\<close>

lemma insert_meta_step:
  assumes inv: "db_inv C db" and b: "canonical C b" and cal: "utc_calendar C" and ex: "timestamptz_exact D"
    and op: "insert_meta D b db = Ok db1"
  shows "db_step C b (\<lambda>v v'. v' = v) db db1" "find_meta db1 (bucket_pk b) \<noteq> None" "db_records db1 = db_records db"
proof -
  from op obtain start end_time where ts: "bind_timestamp D (bid_start b) = Ok start"
    "bind_timestamp D (bid_end b) = Ok end_time"
    by (auto simp: insert_meta_def and_then_eq_Inr)
  have eq: "start = bid_start b" "end_time = bid_end b"
    using ts bind_timestamp_exact [OF ex] utc_calendar.canonical_whole [OF cal b] by blast+
  define row where "row = \<lparr> mr_table_id = tid_str (bid_table_id b), mr_partition_key = pk_bytes (bid_partition_key b),
    mr_bucket_key = bk_str (bid_key b), mr_bucket_strategy = strategy_as_str (bid_strategy b),
    mr_bucket_start = bid_start b, mr_bucket_end = bid_end b, mr_state = ''hot'', mr_generation = 0,
    mr_owner_token = None, mr_owner_expires_at = None, mr_object_key = None, mr_hot_deleted = False,
    mr_attempts = 0, mr_next_attempt_at = None \<rparr>"
  have pk: "meta_pk row = bucket_pk b" and rf: "row_for b row"
    by (simp_all add: row_def meta_pk_def bucket_pk_def row_for_def)
  have "(if find_meta db (meta_pk row) \<noteq> None then Ok db
      else if \<not> meta_check row then Err (TxDatabase (db_raises ''failed to satisfy CHECK constraint''))
      else Ok (db\<lparr> db_meta := db_meta db @ [row] \<rparr>)) = Ok db1"
    using op unfolding insert_meta_def ts and_then_simps Let_def eq row_def [symmetric] .
  then consider (old) "db1 = db" "find_meta db (bucket_pk b) \<noteq> None"
    | (new) "db1 = db\<lparr> db_meta := db_meta db @ [row] \<rparr>" "find_meta db (bucket_pk b) = None" "meta_check row"
    unfolding pk by (auto split: if_splits)
  then have "db_step C b (\<lambda>v v'. v' = v) db db1 \<and> find_meta db1 (bucket_pk b) \<noteq> None \<and> db_records db1 = db_records db"
  proof cases
    case new
    have find: "find_meta db1 k = (case find_meta db k of None \<Rightarrow> if k = bucket_pk b then Some row else None | Some r \<Rightarrow> Some r)"
      for k
      using new(1) pk by (auto simp: find_meta_def find_append split: option.splits)
    have "bucket_pk b \<notin> set (map meta_pk (db_meta db))"
      using new(2) by (auto simp: find_meta_def find_None_iff)
    then have inv1: "db_inv C db1" using inv new b rf pk by (auto simp: db_inv_def)
    have recs: "db_recs db1 c = db_recs db c" for c using new(1) by (simp add: db_recs_def)
    have st: "row_state row = Hot" "mr_generation row = 0" by (simp_all add: row_state_def metadata_state_def row_def)
    have "db_view db1 c = db_view db c" for c
      using find [of "bucket_pk c"] recs new(2) st by (auto simp: db_view_def row_view_def split: option.splits)
    moreover have "published db1 k key" if "published db k key" for k key
      using that find by (auto simp: published_def)
    ultimately show ?thesis using inv1 find [of "bucket_pk b"] new by (auto simp: db_step_def)
  qed (use inv in \<open>simp add: db_step_refl\<close>)
  then show "db_step C b (\<lambda>v v'. v' = v) db db1" "find_meta db1 (bucket_pk b) \<noteq> None" "db_records db1 = db_records db"
    by blast+
qed

lemma begin_step:
  assumes inv: "db_inv C db" and b: "canonical C b" and cal: "utc_calendar C" and ex: "timestamptz_exact D"
    and op: "begin_archive_body D b token now db = Ok (ses, db')"
  shows "db_step C b (claimed open_or_archiving v_claim b (Some ses)) db db'"
proof -
  let ?P = "\<lambda>r. at_bucket b r \<and> (mr_state r = ''hot'' \<or> mr_state r = ''archiving'' \<and> sql_le (mr_owner_expires_at r) now)"
    and ?f = "\<lambda>r. r\<lparr> mr_state := ''archiving'', mr_generation := mr_generation r + 1, mr_owner_token := Some token,
            mr_owner_expires_at := Some (now + FIVE_MINUTES), mr_object_key := None, mr_hot_deleted := False \<rparr>"
  from op obtain db1 rows db2 where ok: "insert_meta D b db = Ok db1" "update_meta ?P ?f db1 = Ok (rows, db2)"
    "(case rows of
         r # _ \<Rightarrow>
           if mr_generation r < 0 then Err (TxStore OperationFailed)
           else Ok (\<lparr> ses_bucket = b, ses_owner_token = token, ses_generation = nat (mr_generation r) \<rparr>, db2)
       | [] \<Rightarrow>
           and_then (and_then (state_from_metadata db2 b) (ok_or (TxStore OperationFailed))) (\<lambda>st.
             Err (TxStore (ArchiveNotAllowed st)))) = Ok (ses, db')"
    unfolding begin_archive_body_def and_then_eq_Inr split_paired_Ex case_prod_conv by blast
  then obtain r' rs where up: "insert_meta D b db = Ok db1" "update_meta ?P ?f db1 = Ok (r' # rs, db')"
    "ses = \<lparr> ses_bucket = b, ses_owner_token = token, ses_generation = nat (mr_generation r') \<rparr>"
    by (cases rows) (auto simp: and_then_eq_Inr split: if_splits)
  note ins = insert_meta_step [OF inv b cal ex up(1)]
  then have inv1: "db_inv C db1" by (simp add: db_step_def)
  have "fenced b ?P ?f" by (auto simp: fenced_def static_same_def meta_pk_def)
  from update_meta_cases [OF inv1 b up(2) this]
  have "db_step C b (claimed open_or_archiving v_claim b (Some ses)) db1 db'"
  proof cases
    case (2 r)
    have chk: "meta_check r" by (rule find_meta_check [OF inv1 2(2)])
    then have "row_state r = Hot \<or> row_state r = Archiving" "row_state (?f r) = Archiving"
      using 2(3,4) by (auto simp: row_state_simps)
    moreover have "0 \<le> mr_generation r" using chk by (simp add: meta_check_def)
    ultimately show ?thesis
      using 2(1,8) up(3) by (auto simp: db_step_def claimed_def db_view_def row_view_def 2(2) open_or_archiving_def
          v_claim_def nat_add_distrib)
  qed simp
  then show ?thesis by (rule db_step_trans [OF ins(1)])
qed

lemma sort_key_append_sort: "sort_key f (sort_key f xs @ ys) = sort_key f (xs @ ys)"
proof (rule properties_for_sort_key)
  show "filter (\<lambda>x. f k = f x) (sort_key f (xs @ ys)) = filter (\<lambda>x. f k = f x) (sort_key f xs @ ys)"
    if "k \<in> set (sort_key f (xs @ ys))" for k
  proof -
    have "(\<lambda>x. f k = f x) = (\<lambda>x. f x = f k)" by auto
    then show ?thesis by (simp add: sort_key_stable)
  qed
qed simp_all

text \<open>The order of the rows is the declared order of their records.\<close>

lemma row_order_less: "row_order r < row_order r' \<longleftrightarrow> ckey (record_of_row r) < ckey (record_of_row r')"
  by (auto simp: row_order_def ckey_def record_of_row_def less_prod_def' less_SortKey_def)

lemma row_order_le: "row_order r \<le> row_order r' \<longleftrightarrow> ckey (record_of_row r) \<le> ckey (record_of_row r')"
  by (simp add: row_order_less flip: not_less)

lemma map_insort_order:
  assumes "\<And>x y. f x \<le> f y \<longleftrightarrow> g (h x) \<le> g (h y)"
  shows "map h (insort_key f x xs) = insort_key g (h x) (map h xs)"
  using assms by (induction xs) auto

lemma map_sort_order:
  assumes "\<And>x y. f x \<le> f y \<longleftrightarrow> g (h x) \<le> g (h y)"
  shows "map h (sort_key f xs) = sort_key g (map h xs)"
  by (induction xs) (simp_all add: map_insort_order [of f g h, OF assms])

lemma selected_rows:
  "map record_of_row (sort_key row_order (filter (\<lambda>r. record_fk r = bucket_pk b) (db_records db))) = db_recs db b"
  unfolding db_recs_def by (rule map_sort_order) (rule row_order_le)

lemma append_step:
  assumes inv: "db_inv C db" and b: "canonical C b" and cal: "utc_calendar C" and ex: "timestamptz_exact D"
    and r: "fits b r" "whole_micros (rec_event_time r)" and op: "append_body D b r now db = Ok (u, db')"
  shows "db_step C b (\<lambda>v v'. v_state v = Hot \<and> v' = v_append r v) db db'"
proof -
  from op obtain db1 st t where up: "insert_meta D b db = Ok db1" "state_from_metadata db1 b = Ok (Some Hot)"
    "bind_timestamp D (rec_event_time r) = Ok t"
    "insert_record \<lparr> rr_table_id = tid_str (bid_table_id b),
                      rr_partition_key = pk_bytes (rec_partition_key r), rr_bucket_key = bk_str (bid_key b),
                      rr_event_time = t, rr_sort_key = sk_bytes (rec_sort_key r),
                      rr_value = rec_value r \<rparr> db1 = Ok db'"
    by (auto simp: append_body_def and_then_eq_Inr ok_or_def split: if_splits option.splits)
  note ins = insert_meta_step [OF inv b cal ex up(1)]
  define row where "row = \<lparr> rr_table_id = tid_str (bid_table_id b), rr_partition_key = pk_bytes (rec_partition_key r),
    rr_bucket_key = bk_str (bid_key b), rr_event_time = rec_event_time r, rr_sort_key = sk_bytes (rec_sort_key r),
    rr_value = rec_value r \<rparr>"
  have "t = rec_event_time r" by (rule bind_timestamp_exact [OF ex r(2) up(3)])
  then have db': "db' = db1\<lparr> db_records := db_records db1 @ [row] \<rparr>"
    using up(4) by (auto simp: insert_record_def row_def split: if_splits)
  have row: "record_fk row = bucket_pk b" "record_of_row row = r"
    using r(1) by (simp_all add: row_def record_fk_def bucket_pk_def record_of_row_def fits_def)
  have find: "find_meta db' k = find_meta db1 k" for k by (simp add: db' find_meta_def)
  have "db_recs db' b = sort_key ckey (db_recs db1 b @ [r])"
    by (simp add: db_recs_def db' row sort_key_append_sort)
  moreover have "db_recs db' b' = db_recs db1 b'" if "canonical C b'" "b' \<noteq> b" for b'
    using bucket_pk_inject [OF that(1) b] that(2) by (auto simp: db_recs_def db' row)
  moreover obtain m where m: "find_meta db1 (bucket_pk b) = Some m" "metadata_state m = Ok Hot"
    using up(2) ins(2) by (auto simp: state_from_metadata_def map_err_def and_then_eq_Inr split: sum.splits)
  moreover have "row_state m = Hot" using m(2) by (simp add: row_state_def)
  moreover have inv1: "db_inv C db'" using ins(1) by (simp add: db_step_def db_inv_def db')
  ultimately have "db_step C b (\<lambda>v v'. v_state v = Hot \<and> v' = v_append r v) db1 db'"
    using inv1 find by (simp add: db_step_def db_view_def row_view_def v_append_def published_def)
  then show ?thesis by (rule db_step_trans [OF ins(1)])
qed

section \<open>Reads\<close>

lemma filter_at_bucket:
  assumes "db_inv C db"
  shows "filter (at_bucket b) (db_meta db) = (case find_meta db (bucket_pk b) of None \<Rightarrow> [] | Some r \<Rightarrow> [r])"
proof -
  have "filter (at_bucket b) (db_meta db)
      = (case find_meta db (bucket_pk b) of None \<Rightarrow> [] | Some r \<Rightarrow> if at_bucket b r then [r] else [])"
    unfolding find_meta_def by (rule filter_unique_key) (use assms in \<open>auto simp: db_inv_def at_bucket_def\<close>)
  then show ?thesis using find_meta_Some by (auto simp: at_bucket_def split: option.splits)
qed

lemma find_meta_unique:
  assumes "db_inv C db" and "r \<in> set (db_meta db)" and "meta_pk r = bucket_pk b"
  shows "find_meta db (bucket_pk b) = Some r"
proof -
  have "r \<in> set (filter (at_bucket b) (db_meta db))" using assms by (simp add: at_bucket_def)
  then show ?thesis unfolding filter_at_bucket [OF assms(1)] by (auto split: option.splits)
qed

lemma snapshot_reads:
  assumes inv: "db_inv C db" and g: "i64_generation ses = Ok g" and op: "snapshot_body ses g now db = Ok (rs, db')"
  shows "db' = db" "holds_session ses Archiving (db_view db (ses_bucket ses))" "rs = v_recs (db_view db (ses_bucket ses))"
proof -
  from op obtain r where r: "r \<in> set (db_meta db)" "owned_by ses g now r" "mr_state r = ''archiving''"
    by (auto simp: snapshot_body_def list_ex_iff split: if_splits)
  have find: "find_meta db (bucket_pk (ses_bucket ses)) = Some r"
    by (rule find_meta_unique [OF inv r(1)]) (use r(2) in \<open>simp add: owned_by_def at_bucket_def\<close>)
  have "row_state r = Archiving" using find_meta_check [OF inv find] r(3) by (simp add: row_state_simps)
  then show "holds_session ses Archiving (db_view db (ses_bucket ses))"
    using owned_session [OF r(2) g] find by (simp add: db_view_def holds_session_def row_view_def)
  show "db' = db" using op by (simp add: snapshot_body_def split: if_splits)
  show "rs = v_recs (db_view db (ses_bucket ses))"
    using op by (auto simp: snapshot_body_def selected_rows db_view_def row_view_def split: if_splits option.splits)
qed

lemma hot_rows_page:
  "map record_of_row (hot_rows db b rng (map_option (\<lambda>c. (cur_event_time c, sk_bytes (cur_sort_key c))) after) limit)
   = page_of rng after limit (db_recs db b)"
proof -
  let ?after = "map_option (\<lambda>c. (cur_event_time c, sk_bytes (cur_sort_key c))) after"
  have cur: "(case ?after of None \<Rightarrow> True | Some c \<Rightarrow> row_order r > c) \<longleftrightarrow> after_cursor after (record_of_row r)" for r
    by (cases after) (auto simp: after_cursor_def row_order_def cursor_key_def ckey_def record_of_row_def
        less_prod_def' less_SortKey_def)
  show ?thesis
    unfolding page_of_def hot_rows_def selected_rows [symmetric] filter_map take_map [symmetric] cur
    by (simp add: comp_def tr_contains_def record_of_row_def filter_sort conj_ac cong: conj_cong)
qed

lemma sort_mapped:
  assumes "sorted_by f xs" and "\<And>x y. f x \<le> f y \<Longrightarrow> g (h x) \<le> g (h y)"
  shows "sort_key g (map h xs) = map h xs"
proof (rule sort_key_sorted)
  show "sorted_by g (map h xs)"
    using assms(1) unfolding sorted_wrt_map by (rule sorted_wrt_mono_rel [rotated]) (use assms(2) in auto)
qed

definition route_row :: "database \<Rightarrow> BucketId \<Rightarrow> string \<times> string option" where
  "route_row db b = (case find_meta db (bucket_pk b) of
     None \<Rightarrow> (''hot'', None) | Some r \<Rightarrow> (mr_state r, mr_object_key r))"

lemma effective_route_row: "db_inv C db \<Longrightarrow> effective_route db b = [route_row db b]"
  by (simp add: effective_route_def filter_at_bucket route_row_def Let_def split: option.splits)

lemma routed_rows_eq:
  assumes "db_inv C db" and "route_row db b = (st, key)"
  shows "routed_rows db b rng after limit =
    (let hot = (if st \<noteq> ''archived'' then hot_rows db b rng after limit else [])
     in if hot = [] then [(st, key, None)] else map (\<lambda>h. (st, key, Some h)) hot)"
proof -
  have "sorted_by row_order (hot_rows db b rng after limit)"
    by (simp add: hot_rows_def sorted_by_take)
  then have "sort_key (\<lambda>(_, _, hot). map_option row_order hot) (map (\<lambda>h. (st, key, Some h)) (hot_rows db b rng after limit))
      = map (\<lambda>h. (st, key, Some h)) (hot_rows db b rng after limit)"
    by (rule sort_mapped) simp
  then show ?thesis
    using assms by (simp add: routed_rows_def effective_route_row Let_def)
qed

text \<open>The pages that the statement selects exactly: its bounds and cursor are whole microseconds, and its
  limit is an \<open>INT8\<close>.\<close>

definition exact_page :: "TimeRange \<Rightarrow> Cursor option \<Rightarrow> nat \<Rightarrow> bool" where
  "exact_page rng after limit \<longleftrightarrow> whole_micros (tr_start rng) \<and> whole_micros (tr_end rng)
     \<and> (\<forall>c. after = Some c \<longrightarrow> whole_micros (cur_event_time c)) \<and> limit \<le> nat I64_MAX"

lemma route_row_view:
  assumes inv: "db_inv C db" and row: "route_row db b = (st, key)"
  shows "st = ''archived'' \<Longrightarrow> (\<exists>k. key = Some k \<and> published db (bucket_pk b) k)"
    "st \<noteq> ''archived'' \<Longrightarrow> key = None \<and> (st = ''hot'' \<or> st = ''archiving'') \<and> open_or_archiving (db_view db b)"
proof -
  have "st = ''archived'' \<and> (\<exists>k. key = Some k \<and> published db (bucket_pk b) k)
    \<or> st \<noteq> ''archived'' \<and> key = None \<and> (st = ''hot'' \<or> st = ''archiving'') \<and> open_or_archiving (db_view db b)"
  proof (cases "find_meta db (bucket_pk b)")
    case None
    then show ?thesis using row by (auto simp: route_row_def db_view_def row_view_def open_or_archiving_def)
  next
    case (Some r)
    then have chk: "meta_check r" by (rule find_meta_check [OF inv])
    then have "mr_state r \<noteq> ''archived'' \<Longrightarrow> mr_object_key r = None" by (auto simp: meta_check_def)
    with chk show ?thesis
      using Some row by (auto simp: route_row_def db_view_def row_view_def open_or_archiving_def published_def
          elim!: meta_check_cases)
  qed
  then show "st = ''archived'' \<Longrightarrow> (\<exists>k. key = Some k \<and> published db (bucket_pk b) k)"
    "st \<noteq> ''archived'' \<Longrightarrow> key = None \<and> (st = ''hot'' \<or> st = ''archiving'') \<and> open_or_archiving (db_view db b)"
    by blast+
qed

lemma read_snapshot_cases:
  assumes inv: "db_inv C db" and op: "read_snapshot D db b rng after limit = Ok read"
  obtains (archive) key where "read = ArchiveRead key" "published db (bucket_pk b) key"
    | (hot) start end_time cursor where "open_or_archiving (db_view db b)" "bind_timestamp D (tr_start rng) = Ok start"
      "bind_timestamp D (tr_end rng) = Ok end_time" "bind_cursor D after = Ok cursor"
      "read = HotRead (map record_of_row (hot_rows db b \<lparr> tr_start = start, tr_end = end_time \<rparr> cursor
        (min limit (nat I64_MAX))))"
proof -
  obtain st key where row: "route_row db b = (st, key)" by fastforce
  from op obtain start end_time cursor where bound: "bind_timestamp D (tr_start rng) = Ok start"
    "bind_timestamp D (tr_end rng) = Ok end_time" "bind_cursor D after = Ok cursor"
    by (auto simp: read_snapshot_def and_then_eq_Inr map_err_def split: sum.splits)
  define hot where "hot = hot_rows db b \<lparr> tr_start = start, tr_end = end_time \<rparr> cursor (min limit (nat I64_MAX))"
  show thesis
  proof (cases "st = ''archived''")
    case True
    with route_row_view(1) [OF inv row] obtain k where k: "key = Some k" "published db (bucket_pk b) k" by blast
    then have "read = ArchiveRead k"
      using op True by (simp add: read_snapshot_def bound routed_rows_eq [OF inv row] Let_def
          routed_read_from_snapshot_def map_filter_simps)
    then show thesis using k(2) by (rule archive)
  next
    case False
    note open_row = route_row_view(2) [OF inv row False]
    have "List.map_filter (\<lambda>(_, _, h). h) (map (\<lambda>h. (st, key, Some h)) xs) = xs" for xs :: "record_row list"
      by (induction xs) (simp_all add: map_filter_simps)
    then have "read = HotRead (map record_of_row hot)"
      using op open_row False
      by (cases hot) (auto simp: read_snapshot_def bound routed_rows_eq [OF inv row] Let_def hot_def [symmetric]
          routed_read_from_snapshot_def map_filter_simps)
    then show thesis using open_row bound that(2) by (simp add: hot_def)
  qed
qed

lemma read_snapshot_hot:
  assumes inv: "db_inv C db" and ex: "timestamptz_exact D" and page: "exact_page rng after limit"
    and op: "read_snapshot D db b rng after limit = Ok (HotRead rs)"
  shows "open_or_archiving (db_view db b) \<and> rs = page_of rng after limit (v_recs (db_view db b))"
proof (cases rule: read_snapshot_cases [OF inv op, case_names archive hot])
  case (hot start end_time cursor)
  have "start = tr_start rng" "end_time = tr_end rng"
    using hot(2,3) bind_timestamp_exact [OF ex] page by (auto simp: exact_page_def)
  moreover have "cursor = map_option (\<lambda>c. (cur_event_time c, sk_bytes (cur_sort_key c))) after"
    using hot(4) bind_timestamp_exact [OF ex] page
    by (cases after) (auto simp: bind_cursor_def exact_page_def and_then_eq_Inr)
  ultimately have "rs = page_of rng after limit (db_recs db b)"
    using hot(5) page hot_rows_page [of db b rng after limit]
    by (cases rng) (simp add: exact_page_def min_def)
  then show ?thesis using hot(1) by (simp add: db_view_def row_view_def split: option.splits)
qed simp

lemma published_view: "db_inv C db \<Longrightarrow> published db (bucket_pk b) key \<Longrightarrow> \<exists>d. v_state (db_view db b) = Archived key d"
  using find_meta_check by (fastforce simp: published_def db_view_def row_view_def row_state_simps)

lemma discovered_rows_canonical:
  assumes inv: "db_inv C db" and rows: "set rows \<subseteq> set (db_meta db)"
    and op: "collect_results (map (\<lambda>r. and_then (bucket_from_row r) (\<lambda>b. Ok (W b))) rows) = Ok ws" and w: "w \<in> set ws"
  shows "\<exists>b. w = W b \<and> canonical C b"
proof -
  have "Inr w \<in> set (map (\<lambda>r. and_then (bucket_from_row r) (\<lambda>b. Ok (W b))) rows)"
    using op w unfolding collect_results_Inr by simp
  then obtain r where "r \<in> set rows" "and_then (bucket_from_row r) (\<lambda>b. Ok (W b)) = Inr w"
    by (metis (no_types, lifting) in_set_conv_nth length_map nth_map nth_mem)
  then obtain b where r: "r \<in> set rows" "bucket_from_row r = Ok b" "w = W b" by (auto simp: and_then_eq_Inr)
  from r(1) rows inv obtain c where c: "canonical C c" "row_for c r" by (auto simp: db_inv_def)
  have "strategy_from_str (strategy_as_str s) = Ok s" for s
    by (cases s) (simp_all add: strategy_from_str_def)
  then have "b = c"
    using r(2) c(2)
    by (cases c) (auto simp: bucket_from_row_def and_then_eq_Inr map_err_def row_for_def meta_pk_def bucket_pk_def
        TableId_new_def BucketKey_new_def split: if_splits sum.splits)
  then show ?thesis using r(3) c(1) by blast
qed

end
