(* ===== verification/Cockroach_Contract.thy ===== *)
theory Cockroach_Contract
  imports Cockroach_Steps
begin

text \<open>
  The CockroachDB store keeps the contract of the ports: every process of a fleet that shares one database
  performs, in each operation, one of the transitions of the contract or none, even when the outcome of a
  commit is unknown, and the cached archive routes of every process stay true.
\<close>

section \<open>Operations of a process\<close>

text \<open>What an operation of one process does: a step of the database, and only true routes enter its cache.\<close>

definition ck_step :: "chrono \<Rightarrow> BucketId \<Rightarrow> (bucket_view \<Rightarrow> bucket_view \<Rightarrow> bool)
    \<Rightarrow> CockroachDurableBucketStore \<Rightarrow> CockroachDurableBucketStore \<Rightarrow> bool" where
  "ck_step C b R s s' \<longleftrightarrow> db_step C b R (ck_db s) (ck_db s')
     \<and> (\<forall>c key. route_archived (ck_routes s') c = Some key
          \<longrightarrow> route_archived (ck_routes s) c = Some key \<or> published (ck_db s') (bucket_pk c) key)"

lemma ck_step_refl: "db_inv C (ck_db s) \<Longrightarrow> (\<And>v. R v v) \<Longrightarrow> ck_step C b R s s"
  by (simp add: ck_step_def db_step_refl)

lemma in_transaction_step:
  assumes "in_transaction e body s = (res, s')"
    and "\<And>db'. commits body (ck_db s) res db' \<Longrightarrow> db_step C b R (ck_db s) db'"
  shows "ck_step C b R s s'"
  using in_transaction_commits [OF assms(1)] assms(2) by (auto simp: ck_step_def)

lemma route_invalidate_Some:
  "route_archived (route_invalidate b rc) c = Some key \<Longrightarrow> route_archived rc c = Some key"
  by (auto simp: route_archived_def route_invalidate_def delete_conv' split: if_splits)

lemma then_invalidate_step:
  assumes "then_invalidate P b' (in_transaction e body s) = (res, s')"
    and "\<And>db'. commits body (ck_db s) res db' \<Longrightarrow> db_step C b R (ck_db s) db'"
  shows "ck_step C b R s s'"
proof -
  obtain res1 s1 where 1: "in_transaction e body s = (res1, s1)" by fastforce
  then have "res = res1" "ck_db s' = ck_db s1"
    "\<And>c key. route_archived (ck_routes s') c = Some key \<Longrightarrow> route_archived (ck_routes s1) c = Some key"
    using assms(1) by (auto simp: then_invalidate_def dest: route_invalidate_Some split: sum.splits if_splits)
  then show ?thesis using in_transaction_step [OF 1, of C b R] assms(2) by (auto simp: ck_step_def)
qed

lemma cache_archive_at_Some:
  assumes "route_archived (cache_archive_at b key t rc) c = Some k"
  shows "c = b \<and> k = key \<or> route_archived rc c = Some k"
  using assms
  by (auto simp: route_archived_def cache_archive_at_def Let_def update_conv' delete_conv'
      split: if_splits option.splits prod.splits)

lemma performs_Err [simp]: "performs guard f v (Inl e) v"
  by (simp add: performs_def)

lemma claims_Err [simp]: "claims guard f b v (Inl e) v"
  by (simp add: claims_def)

lemma with_generation_step:
  assumes "with_generation ses s k = (res, s')" and "db_inv C (ck_db s)" and "\<And>e v. R (Err e) v v"
    and "\<And>g. i64_generation ses = Ok g \<Longrightarrow> k g = (res, s') \<Longrightarrow> ck_step C b (R res) s s'"
  shows "ck_step C b (R res) s s'"
  using assms by (auto simp: with_generation_def ck_step_refl split: sum.splits)

lemma with_deadline_step:
  assumes "with_deadline D e d s k = (res, s')" and "db_inv C (ck_db s)" and "\<And>e v. R (Err e) v v"
    and "\<And>t. k t = (res, s') \<Longrightarrow> ck_step C b (R res) s s'"
  shows "ck_step C b (R res) s s'"
  using assms by (auto simp: with_deadline_def ck_step_refl split: sum.splits)

lemma ck_append_step:
  assumes "db_inv C (ck_db s)" and "canonical C b" and "utc_calendar C" and "timestamptz_exact D"
    and "fits b r" and "whole_micros (rec_event_time r)" and "ck_append D e b r s = (res, s')"
  shows "ck_step C b (\<lambda>v v'. performs (\<lambda>v. v_state v = Hot) (v_append r) v res v') s s'"
  by (rule in_transaction_step [OF assms(7) [unfolded ck_append_def]])
    (rule performs_commit [OF assms(1)], assumption, rule append_step [OF assms(1-6)])

lemma ck_claim_archive_step:
  assumes "db_inv C (ck_db s)" and "canonical C b" and "ck_claim_archive D e b d s = (res, s')"
  shows "ck_step C b (\<lambda>v v'. claims open_or_archiving v_claim b v res v') s s'"
proof (cases "archive_lease_expiry D (ce_utc_now e) d")
  case (Inr t)
  then show ?thesis
    using assms(3) unfolding ck_claim_archive_def
    by (auto elim!: then_invalidate_step intro: claims_commit [OF assms(1)] claim_archive_step [OF assms(1,2)])
qed (use assms in \<open>auto simp: ck_claim_archive_def ck_step_refl\<close>)

lemma ck_claim_cleanup_step:
  assumes "db_inv C (ck_db s)" and "canonical C b" and "ck_claim_cleanup D e b d s = (res, s')"
  shows "ck_step C b (\<lambda>v v'. claims (\<lambda>v. cleanup_pending (v_state v)) v_claim_cleanup b v res v') s s'"
proof (cases "archive_lease_expiry D (ce_utc_now e) d")
  case (Inr t)
  then show ?thesis
    using assms(3) unfolding ck_claim_cleanup_def
    by (auto elim!: in_transaction_step intro: claims_commit [OF assms(1)] claim_cleanup_step [OF assms(1,2)])
qed (use assms in \<open>auto simp: ck_claim_cleanup_def ck_step_refl\<close>)

lemma ck_begin_archive_step:
  assumes "db_inv C (ck_db s)" and "canonical C b" and "utc_calendar C" and "timestamptz_exact D"
    and "ck_begin_archive D e b s = (res, s')"
  shows "ck_step C b (\<lambda>v v'. claims open_or_archiving v_claim b v (map_sum id Some res) v') s s'"
proof (rule then_invalidate_step [OF assms(5) [unfolded ck_begin_archive_def]])
  fix db'
  assume c: "commits (begin_archive_body D b (ce_uuid e)) (ck_db s) res db'"
  show "db_step C b (\<lambda>v v'. claims open_or_archiving v_claim b v (map_sum id Some res) v') (ck_db s) db'"
    by (rule db_step_mono [OF commits_step [OF assms(1) c begin_step [OF assms(1-4)]]])
      (auto simp: claims_def claimed_def split: sum.splits)
qed

lemma ck_session_steps:
  assumes inv: "db_inv C (ck_db s)" and b: "canonical C (ses_bucket ses)"
  shows "ck_renew_archive_lease D e ses d s = (res, s') \<Longrightarrow> ck_step C (ses_bucket ses) (\<lambda>v v'. v' = v) s s'"
    "ck_defer_cleanup D e ses d s = (res, s') \<Longrightarrow> ck_step C (ses_bucket ses) (\<lambda>v v'. v' = v) s s'"
    "ck_defer_archive D e ses d s = (res, s') \<Longrightarrow>
       ck_step C (ses_bucket ses) (\<lambda>v v'. performs (holds_session ses Archiving) v_reopen v res v') s s'"
    "ck_publish_archive e ses key s = (res, s') \<Longrightarrow>
       ck_step C (ses_bucket ses) (\<lambda>v v'. performs (holds_session ses Archiving) (v_publish key) v res v') s s'"
    "ck_abort_archive e ses s = (res, s') \<Longrightarrow>
       ck_step C (ses_bucket ses) (\<lambda>v v'. performs (holds_session ses Archiving) v_reopen v res v') s s'"
    "ck_delete_hot_bucket e ses s = (res, s') \<Longrightarrow>
       ck_step C (ses_bucket ses) (\<lambda>v v'. performs (\<lambda>v. cleanup_pending (v_state v) \<and> v_gen v = ses_generation ses)
         v_delete v res v') s s'"
proof -
  have quiet: "db_step C (ses_bucket ses) (\<lambda>v v'. v' = v) (ck_db s) db'"
    if "commits body (ck_db s) res db'"
      "\<And>now x db''. body now (ck_db s) = Ok (x, db'') \<Longrightarrow> db_step C (ses_bucket ses) (\<lambda>v v'. v' = v) (ck_db s) db''"
    for body :: "unit tx_body" and res db'
    by (rule db_step_mono [OF commits_step [OF inv that(1), where R = "\<lambda>_ v v'. v' = v"]])
      (use that(2) in \<open>auto split: sum.splits\<close>)
  show "ck_step C (ses_bucket ses) (\<lambda>v v'. v' = v) s s'" if "ck_renew_archive_lease D e ses d s = (res, s')"
    using that unfolding ck_renew_archive_lease_def
    by (elim with_generation_step [where R = "\<lambda>_ v v'. v' = v"] with_deadline_step [where R = "\<lambda>_ v v'. v' = v"]
        in_transaction_step quiet)
      (auto intro: inv renew_step [OF inv b])
  show "ck_step C (ses_bucket ses) (\<lambda>v v'. v' = v) s s'" if "ck_defer_cleanup D e ses d s = (res, s')"
    using that unfolding ck_defer_cleanup_def
    by (elim with_generation_step [where R = "\<lambda>_ v v'. v' = v"] with_deadline_step [where R = "\<lambda>_ v v'. v' = v"]
        in_transaction_step quiet)
      (auto intro: inv defer_cleanup_step [OF inv b])
  show "ck_step C (ses_bucket ses) (\<lambda>v v'. performs (holds_session ses Archiving) v_reopen v res v') s s'"
    if "ck_defer_archive D e ses d s = (res, s')"
    using that unfolding ck_defer_archive_def
    by (elim with_generation_step [where R = "\<lambda>res v v'. performs (holds_session ses Archiving) v_reopen v res v'"]
        with_deadline_step [where R = "\<lambda>res v v'. performs (holds_session ses Archiving) v_reopen v res v'"]
        then_invalidate_step performs_commit [OF inv])
      (auto intro: inv defer_archive_step [OF inv b])
  show "ck_step C (ses_bucket ses) (\<lambda>v v'. performs (holds_session ses Archiving) (v_publish key) v res v') s s'"
    if "ck_publish_archive e ses key s = (res, s')"
    using that unfolding ck_publish_archive_def
    by (elim with_generation_step [where R = "\<lambda>res v v'. performs (holds_session ses Archiving) (v_publish key) v res v'"]
        then_invalidate_step performs_commit [OF inv])
      (auto intro: inv publish_step [OF inv b])
  show "ck_step C (ses_bucket ses) (\<lambda>v v'. performs (holds_session ses Archiving) v_reopen v res v') s s'"
    if "ck_abort_archive e ses s = (res, s')"
    using that unfolding ck_abort_archive_def
    by (elim with_generation_step [where R = "\<lambda>res v v'. performs (holds_session ses Archiving) v_reopen v res v'"]
        then_invalidate_step performs_commit [OF inv])
      (auto intro: inv abort_step [OF inv b])
  show "ck_step C (ses_bucket ses) (\<lambda>v v'. performs (\<lambda>v. cleanup_pending (v_state v) \<and> v_gen v = ses_generation ses)
         v_delete v res v') s s'"
    if "ck_delete_hot_bucket e ses s = (res, s')"
    using that unfolding ck_delete_hot_bucket_def
    by (elim with_generation_step [where R = "\<lambda>res v v'. performs
          (\<lambda>v. cleanup_pending (v_state v) \<and> v_gen v = ses_generation ses) v_delete v res v'"]
        in_transaction_step performs_commit [OF inv])
      (blast intro: inv performs_Err delete_step [OF inv b])+
qed

definition routes_ok :: "database \<Rightarrow> RouteCache \<Rightarrow> bool" where
  "routes_ok db rc \<longleftrightarrow> (\<forall>b key. route_archived rc b = Some key \<longrightarrow> published db (bucket_pk b) key)"

lemma ck_read_range_cases:
  assumes inv: "db_inv C (ck_db s)" and routes: "routes_ok (ck_db s) (ck_routes s)"
    and op: "ck_read_range D e b rng after limit s = (res, s')"
  shows "ck_step C b (\<lambda>v v'. v' = v) s s'"
    "res = Ok (ArchiveRead key) \<Longrightarrow> \<exists>d. v_state (db_view (ck_db s) b) = Archived key d"
    "res = Ok (HotRead rs) \<Longrightarrow> read_snapshot D (ck_db s) b rng after limit = Ok (HotRead rs)"
proof -
  have pub: "published (ck_db s) (bucket_pk b) k" if "read_snapshot D (ck_db s) b rng after limit = Ok (ArchiveRead k)" for k
    by (cases rule: read_snapshot_cases [OF inv that, case_names archive hot]) auto
  show "ck_step C b (\<lambda>v v'. v' = v) s s'"
    using op inv pub
    by (auto simp: ck_read_range_def ck_step_def db_step_refl dest!: cache_archive_at_Some split: option.splits if_splits sum.splits
        DurableBucketRead.splits)
  show "\<exists>d. v_state (db_view (ck_db s) b) = Archived key d" if "res = Ok (ArchiveRead key)"
    using op that pub routes published_view [OF inv]
    by (auto simp: ck_read_range_def routes_ok_def split: option.splits if_splits sum.splits DurableBucketRead.splits)
  show "read_snapshot D (ck_db s) b rng after limit = Ok (HotRead rs)" if "res = Ok (HotRead rs)"
    using op that
    by (auto simp: ck_read_range_def split: option.splits if_splits sum.splits DurableBucketRead.splits)
qed

lemma ck_state_same:
  assumes inv: "db_inv C (ck_db s)" and op: "ck_state e b s = (res, s')"
  shows "s' = s" "res = Ok st \<Longrightarrow> st = v_state (db_view (ck_db s) b)"
proof -
  show "s' = s" using op by (auto simp: ck_state_def split: if_splits option.splits)
  show "st = v_state (db_view (ck_db s) b)" if "res = Ok st"
    using op that find_meta_check [OF inv, of "bucket_pk b"] metadata_state_check
    by (fastforce simp: ck_state_def db_view_def row_view_def split: if_splits option.splits)
qed

lemma ck_discover_same:
  assumes inv: "db_inv C (ck_db s)" and op: "ck_discover_archive_work D e scan s = (res, s')"
  shows "s' = s" "res = Ok ws \<Longrightarrow> w \<in> set ws \<Longrightarrow> canonical C (work_bucket w)"
proof -
  show "s' = s" using op by (auto simp: ck_discover_archive_work_def split: if_splits option.splits)
  have rows: "set (discover_rows P n db) \<subseteq> set (db_meta db)" for P n db
    by (auto simp: discover_rows_def dest!: in_set_takeD)
  show "canonical C (work_bucket w)" if ok: "res = Ok ws" and w: "w \<in> set ws"
  proof -
    from op ok obtain work where
      1: "collect_results (map (\<lambda>r. and_then (bucket_from_row r) (\<lambda>b. Ok (Cleanup b)))
        (discover_rows (cleanup_due (ce_now e)) (scan_limit scan) (ck_db s))) = Ok work" and
      2: "ws = work \<or> (\<exists>P n cutover. ws = work @ cutover \<and> collect_results (map (\<lambda>r. and_then (bucket_from_row r)
        (\<lambda>b. Ok (Cutover b))) (discover_rows P n (ck_db s))) = Ok cutover)"
      by (auto simp: ck_discover_archive_work_def and_then_eq_Inr split: if_splits option.splits)
    note clean = discovered_rows_canonical [OF inv rows 1]
    from 2 w consider "w \<in> set work"
      | P n cutover where "w \<in> set cutover" "collect_results (map (\<lambda>r. and_then (bucket_from_row r)
        (\<lambda>b. Ok (Cutover b))) (discover_rows P n (ck_db s))) = Ok cutover" by auto
    then show ?thesis
    proof cases
      case 1
      from clean [OF this] show ?thesis by auto
    next
      case (2 P n cutover)
      from discovered_rows_canonical [OF inv rows 2(2,1)] show ?thesis by auto
    qed
  qed
qed

lemma ck_snapshot_same:
  assumes inv: "db_inv C (ck_db s)" and b: "canonical C (ses_bucket ses)" and op: "ck_snapshot e ses s = (res, s')"
  shows "ck_step C (ses_bucket ses) (\<lambda>v v'. v' = v) s s'"
    "res = Ok rs \<Longrightarrow> holds_session ses Archiving (db_view (ck_db s) (ses_bucket ses))
       \<and> rs = v_recs (db_view (ck_db s) (ses_bucket ses))"
proof -
  have "ck_db s' = ck_db s \<and> ck_routes s' = ck_routes s
    \<and> (\<forall>rs. res = Ok rs \<longrightarrow> holds_session ses Archiving (db_view (ck_db s) (ses_bucket ses))
         \<and> rs = v_recs (db_view (ck_db s) (ses_bucket ses)))"
  proof (cases "i64_generation ses")
    case (Inr g)
    then have t: "in_transaction e (snapshot_body ses g) s = (res, s')"
      using op by (simp add: ck_snapshot_def with_generation_def)
    show ?thesis
      using in_transaction_commits [OF t] snapshot_reads [OF inv Inr]
      by (fastforce simp: commits_def split: sum.splits)
  qed (use op in \<open>auto simp: ck_snapshot_def with_generation_def\<close>)
  then show "ck_step C (ses_bucket ses) (\<lambda>v v'. v' = v) s s'"
    "res = Ok rs \<Longrightarrow> holds_session ses Archiving (db_view (ck_db s) (ses_bucket ses))
       \<and> rs = v_recs (db_view (ck_db s) (ses_bucket ses))"
    using inv by (auto simp: ck_step_def db_step_refl)
qed

section \<open>The fleet keeps the contract\<close>

definition fleet_inv :: "chrono \<Rightarrow> fleet \<Rightarrow> bool" where
  "fleet_inv C s \<longleftrightarrow> db_inv C (fl_db s) \<and> (\<forall>p. routes_ok (fl_db s) (fl_routes s p))"

definition fleet_view :: "fleet \<Rightarrow> BucketId \<Rightarrow> bucket_view" where
  "fleet_view s b = db_view (fl_db s) b"

definition whole_record :: "Record \<Rightarrow> bool" where
  "whole_record r \<longleftrightarrow> whole_micros (rec_event_time r)"

definition fleet_step :: "chrono \<Rightarrow> BucketId \<Rightarrow> (bucket_view \<Rightarrow> bucket_view \<Rightarrow> bool) \<Rightarrow> fleet \<Rightarrow> fleet \<Rightarrow> bool" where
  "fleet_step C b R s s' \<longleftrightarrow> fleet_inv C s'
     \<and> (\<forall>b'. canonical C b' \<longrightarrow> b' \<noteq> b \<longrightarrow> fleet_view s' b' = fleet_view s b')
     \<and> R (fleet_view s b) (fleet_view s' b)"

lemma process_inv:
  "fleet_inv C s \<Longrightarrow> db_inv C (ck_db (process_of p s)) \<and> routes_ok (ck_db (process_of p s)) (ck_routes (process_of p s))"
  by (simp add: fleet_inv_def process_of_def)

text \<open>A step of one process keeps the cached routes of every process true, because it keeps every published
  route.\<close>

lemma on_process_step:
  assumes inv: "fleet_inv C s" and op: "on_process p op s = (res, s')"
    and step: "\<And>t. op (process_of p s) = (res, t) \<Longrightarrow> ck_step C b R (process_of p s) t"
  shows "fleet_step C b R s s'"
proof -
  from op obtain t where t: "op (process_of p s) = (res, t)"
    "s' = \<lparr> fl_db = ck_db t, fl_routes = (fl_routes s)(p := ck_routes t) \<rparr>"
    by (auto simp: on_process_def split: prod.splits)
  from step [OF t(1)] have st: "db_step C b R (fl_db s) (ck_db t)"
    and rt: "\<And>c key. route_archived (ck_routes t) c = Some key
      \<Longrightarrow> route_archived (fl_routes s p) c = Some key \<or> published (ck_db t) (bucket_pk c) key"
    by (auto simp: ck_step_def process_of_def)
  have keep: "published (ck_db t) k key" if "published (fl_db s) k key" for k key
    using st that unfolding db_step_def by blast
  have "routes_ok (ck_db t) (fl_routes s' q)" for q
    unfolding routes_ok_def
  proof (intro allI impI)
    fix c key
    assume c: "route_archived (fl_routes s' q) c = Some key"
    have old: "published (ck_db t) (bucket_pk c) key" if "route_archived (fl_routes s r) c = Some key" for r
      using inv that keep unfolding fleet_inv_def routes_ok_def by blast
    show "published (ck_db t) (bucket_pk c) key"
      using c t(2) rt [of c key] old by (cases "q = p") auto
  qed
  then show ?thesis
    using st t(2) by (auto simp: fleet_step_def fleet_inv_def fleet_view_def db_step_def)
qed

lemma fleet_stepD:
  assumes "fleet_step C b R s s'"
  shows "fleet_inv C s'" "canonical C b' \<Longrightarrow> b' \<noteq> b \<Longrightarrow> fleet_view s' b' = fleet_view s b'"
    "R (fleet_view s b) (fleet_view s' b)"
  using assms by (auto simp: fleet_step_def)

lemma fleet_step_sameD:
  "fleet_step C b (\<lambda>v v'. v' = v) s s' \<Longrightarrow> canonical C b' \<Longrightarrow> fleet_view s' b' = fleet_view s b'"
  by (cases "b' = b") (auto simp: fleet_step_def)

lemma fleet_ops:
  "ds_append (cockroach_fleet D) pe b r = on_process (fst pe) (ck_append D (snd pe) b r)"
  "ds_state (cockroach_fleet D) pe b = on_process (fst pe) (ck_state (snd pe) b)"
  "ds_discover_archive_work (cockroach_fleet D) pe scan = on_process (fst pe) (ck_discover_archive_work D (snd pe) scan)"
  "ds_claim_archive (cockroach_fleet D) pe b d = on_process (fst pe) (ck_claim_archive D (snd pe) b d)"
  "ds_claim_cleanup (cockroach_fleet D) pe b d = on_process (fst pe) (ck_claim_cleanup D (snd pe) b d)"
  "ds_renew_archive_lease (cockroach_fleet D) pe ses d = on_process (fst pe) (ck_renew_archive_lease D (snd pe) ses d)"
  "ds_defer_archive (cockroach_fleet D) pe ses d = on_process (fst pe) (ck_defer_archive D (snd pe) ses d)"
  "ds_defer_cleanup (cockroach_fleet D) pe ses d = on_process (fst pe) (ck_defer_cleanup D (snd pe) ses d)"
  "ds_read_range (cockroach_fleet D) pe b rng after limit = on_process (fst pe) (ck_read_range D (snd pe) b rng after limit)"
  "ds_begin_archive (cockroach_fleet D) pe b = on_process (fst pe) (ck_begin_archive D (snd pe) b)"
  "ds_snapshot (cockroach_fleet D) pe ses = on_process (fst pe) (ck_snapshot (snd pe) ses)"
  "ds_publish_archive (cockroach_fleet D) pe ses key = on_process (fst pe) (ck_publish_archive (snd pe) ses key)"
  "ds_delete_hot_bucket (cockroach_fleet D) pe ses = on_process (fst pe) (ck_delete_hot_bucket (snd pe) ses)"
  "ds_abort_archive (cockroach_fleet D) pe ses = on_process (fst pe) (ck_abort_archive (snd pe) ses)"
  by (simp_all add: cockroach_fleet_def cockroach_store_def Let_def split_beta)

lemma fleet_steps:
  assumes inv: "fleet_inv C s" and cal: "utc_calendar C" and ex: "timestamptz_exact D" and b: "canonical C b"
  shows "fits b r \<Longrightarrow> whole_record r \<Longrightarrow> on_process p (ck_append D e b r) s = (ures, s')
      \<Longrightarrow> fleet_step C b (\<lambda>v v'. performs (\<lambda>v. v_state v = Hot) (v_append r) v ures v') s s'"
    "on_process p (ck_claim_archive D e b d) s = (cres, s')
      \<Longrightarrow> fleet_step C b (\<lambda>v v'. claims open_or_archiving v_claim b v cres v') s s'"
    "on_process p (ck_claim_cleanup D e b d) s = (cres, s')
      \<Longrightarrow> fleet_step C b (\<lambda>v v'. claims (\<lambda>v. cleanup_pending (v_state v)) v_claim_cleanup b v cres v') s s'"
    "on_process p (ck_begin_archive D e b) s = (bres, s')
      \<Longrightarrow> fleet_step C b (\<lambda>v v'. claims open_or_archiving v_claim b v (map_sum id Some bres) v') s s'"
    "on_process p (ck_read_range D e b rng after limit) s = (rres, s') \<Longrightarrow> fleet_step C b (\<lambda>v v'. v' = v) s s'"
proof -
  note pi = conjunct1 [OF process_inv [OF inv]] and pr = conjunct2 [OF process_inv [OF inv]]
  note on = on_process_step [OF inv]
  show "fleet_step C b (\<lambda>v v'. performs (\<lambda>v. v_state v = Hot) (v_append r) v ures v') s s'"
    if r: "fits b r" "whole_record r" and op: "on_process p (ck_append D e b r) s = (ures, s')"
    by (rule on [OF op]) (rule ck_append_step [OF pi b cal ex r(1) r(2) [unfolded whole_record_def]])
  show "fleet_step C b (\<lambda>v v'. claims open_or_archiving v_claim b v cres v') s s'"
    if op: "on_process p (ck_claim_archive D e b d) s = (cres, s')"
    by (rule on [OF op]) (rule ck_claim_archive_step [OF pi b])
  show "fleet_step C b (\<lambda>v v'. claims (\<lambda>v. cleanup_pending (v_state v)) v_claim_cleanup b v cres v') s s'"
    if op: "on_process p (ck_claim_cleanup D e b d) s = (cres, s')"
    by (rule on [OF op]) (rule ck_claim_cleanup_step [OF pi b])
  show "fleet_step C b (\<lambda>v v'. claims open_or_archiving v_claim b v (map_sum id Some bres) v') s s'"
    if op: "on_process p (ck_begin_archive D e b) s = (bres, s')"
    by (rule on [OF op]) (rule ck_begin_archive_step [OF pi b cal ex])
  show "fleet_step C b (\<lambda>v v'. v' = v) s s'"
    if op: "on_process p (ck_read_range D e b rng after limit) s = (rres, s')"
    by (rule on [OF op]) (rule ck_read_range_cases(1) [OF pi pr])
qed

lemma fleet_session_steps:
  assumes inv: "fleet_inv C s" and b: "canonical C (ses_bucket ses)"
  shows "on_process p (ck_renew_archive_lease D e ses d) s = (res, s')
      \<Longrightarrow> fleet_step C (ses_bucket ses) (\<lambda>v v'. v' = v) s s'"
    "on_process p (ck_defer_cleanup D e ses d) s = (res, s') \<Longrightarrow> fleet_step C (ses_bucket ses) (\<lambda>v v'. v' = v) s s'"
    "on_process p (ck_defer_archive D e ses d) s = (res, s') \<Longrightarrow>
       fleet_step C (ses_bucket ses) (\<lambda>v v'. performs (holds_session ses Archiving) v_reopen v res v') s s'"
    "on_process p (ck_publish_archive e ses key) s = (res, s') \<Longrightarrow>
       fleet_step C (ses_bucket ses) (\<lambda>v v'. performs (holds_session ses Archiving) (v_publish key) v res v') s s'"
    "on_process p (ck_abort_archive e ses) s = (res, s') \<Longrightarrow>
       fleet_step C (ses_bucket ses) (\<lambda>v v'. performs (holds_session ses Archiving) v_reopen v res v') s s'"
    "on_process p (ck_delete_hot_bucket e ses) s = (res, s') \<Longrightarrow>
       fleet_step C (ses_bucket ses) (\<lambda>v v'. performs (\<lambda>v. cleanup_pending (v_state v) \<and> v_gen v = ses_generation ses)
         v_delete v res v') s s'"
    "on_process p (ck_snapshot e ses) s = (sres, s') \<Longrightarrow> fleet_step C (ses_bucket ses) (\<lambda>v v'. v' = v) s s'"
  by (erule on_process_step [OF inv], erule ck_session_steps [OF conjunct1 [OF process_inv [OF inv]] b]
      ck_snapshot_same(1) [OF conjunct1 [OF process_inv [OF inv]] b])+

lemma on_process_same:
  assumes "on_process p op s = (res, s')" and "\<And>r t. op (process_of p s) = (r, t) \<Longrightarrow> t = process_of p s"
  shows "s' = s"
  using assms by (auto simp: on_process_def process_of_def split: prod.splits)

lemma fleet_same:
  assumes inv: "fleet_inv C s"
  shows "on_process p (ck_state e b) s = (tres, s') \<Longrightarrow> s' = s"
    "on_process p (ck_discover_archive_work D e scan) s = (dres, s') \<Longrightarrow> s' = s"
  by (erule on_process_same, erule ck_state_same(1) [OF conjunct1 [OF process_inv [OF inv]]]
      ck_discover_same(1) [OF conjunct1 [OF process_inv [OF inv]]])+

lemma on_process_result: "on_process p op s = (res, s') \<Longrightarrow> \<exists>t. op (process_of p s) = (res, t)"
  by (auto simp: on_process_def split: prod.splits)

lemma process_view [simp]: "db_view (ck_db (process_of p s)) b = fleet_view s b"
  by (simp add: process_of_def fleet_view_def)

lemma fleet_answers:
  assumes inv: "fleet_inv C s"
  shows "on_process p (ck_state e b) s = (Ok st, s') \<Longrightarrow> st = v_state (fleet_view s b)"
    "on_process p (ck_discover_archive_work D e scan) s = (Ok ws, s') \<Longrightarrow> w \<in> set ws \<Longrightarrow> canonical C (work_bucket w)"
    "on_process p (ck_read_range D e b rng after limit) s = (Ok (ArchiveRead key), s')
      \<Longrightarrow> \<exists>d. v_state (fleet_view s b) = Archived key d"
    "on_process p (ck_read_range D e b rng after limit) s = (Ok (HotRead rs), s') \<Longrightarrow> timestamptz_exact D
      \<Longrightarrow> exact_page rng after limit
      \<Longrightarrow> open_or_archiving (fleet_view s b) \<and> rs = page_of rng after limit (v_recs (fleet_view s b))"
    "on_process p (ck_snapshot e ses) s = (Ok rs, s') \<Longrightarrow> canonical C (ses_bucket ses)
      \<Longrightarrow> holds_session ses Archiving (fleet_view s (ses_bucket ses)) \<and> rs = v_recs (fleet_view s (ses_bucket ses))"
proof -
  note pi = conjunct1 [OF process_inv [OF inv]] and pr = conjunct2 [OF process_inv [OF inv]]
  show "on_process p (ck_state e b) s = (Ok st, s') \<Longrightarrow> st = v_state (fleet_view s b)"
    using ck_state_same(2) [OF pi] on_process_result process_view by metis
  show "on_process p (ck_discover_archive_work D e scan) s = (Ok ws, s') \<Longrightarrow> w \<in> set ws \<Longrightarrow> canonical C (work_bucket w)"
    using ck_discover_same(2) [OF pi] on_process_result by metis
  show "on_process p (ck_read_range D e b rng after limit) s = (Ok (ArchiveRead key), s')
      \<Longrightarrow> \<exists>d. v_state (fleet_view s b) = Archived key d"
    using ck_read_range_cases(2) [OF pi pr] on_process_result process_view by metis
  show "on_process p (ck_read_range D e b rng after limit) s = (Ok (HotRead rs), s') \<Longrightarrow> timestamptz_exact D
      \<Longrightarrow> exact_page rng after limit
      \<Longrightarrow> open_or_archiving (fleet_view s b) \<and> rs = page_of rng after limit (v_recs (fleet_view s b))"
    using ck_read_range_cases(3) [OF pi pr] read_snapshot_hot [OF pi] on_process_result process_view by metis
  show "on_process p (ck_snapshot e ses) s = (Ok rs, s') \<Longrightarrow> canonical C (ses_bucket ses)
      \<Longrightarrow> holds_session ses Archiving (fleet_view s (ses_bucket ses)) \<and> rs = v_recs (fleet_view s (ses_bucket ses))"
    using ck_snapshot_same(2) [OF pi] on_process_result process_view by metis
qed

lemma cockroach_fleet_store:
  assumes cal: "utc_calendar C" and ex: "timestamptz_exact D"
  shows "bucket_store (cockroach_fleet D) fleet_view (fleet_inv C) (canonical C) whole_record exact_page"
proof (unfold_locales, unfold fleet_ops, goal_cases)
  case (1 s b)
  then show ?case by (simp add: fleet_view_def db_view_def row_view_def db_recs_def split: option.splits)
qed (blast intro: fleet_steps [OF _ cal ex, THEN fleet_stepD(1)] fleet_steps [OF _ cal ex, THEN fleet_stepD(2)]
      fleet_steps [OF _ cal ex, THEN fleet_stepD(3)] fleet_session_steps [THEN fleet_stepD(1)]
      fleet_session_steps [THEN fleet_stepD(2)] fleet_session_steps [THEN fleet_stepD(3)]
      fleet_steps(5) [OF _ cal ex, THEN fleet_step_sameD] fleet_session_steps(1,2,7) [THEN fleet_step_sameD] ex
    dest: fleet_same fleet_answers)+

end
