(* ===== verification/Opendal_Store.thy ===== *)
theory Opendal_Store
  imports Memory_Store
begin

text \<open>
  The object-store archive, \<open>src/src/adapters/opendal_store.rs\<close>: content-addressed payloads, manifests
  with a digest in their key, verified uploads, and the Parquet columns of the records. The object
  store client is a record of two operations and the codecs (\<open>serde_json\<close>, the Arrow and Parquet crates,
  \<open>Sha256::digest\<close>) are a record of functions; \<open>operator_ok\<close> and \<open>codec_ok\<close> state the documented behaviour
  that the code relies on. Metrics and tracing have no effect on the state and are left out.
\<close>

section \<open>Formats\<close>

definition ARCHIVE_MANIFEST_VERSION :: nat where
  "ARCHIVE_MANIFEST_VERSION = 4"

definition RECORD_SCHEMA_VERSION :: nat where
  "RECORD_SCHEMA_VERSION = 2"

datatype ArchiveFormat = Json | Parquet

fun extension :: "ArchiveFormat \<Rightarrow> string" where
  "extension Json = ''json''"
| "extension Parquet = ''parquet''"

fun format_display :: "ArchiveFormat \<Rightarrow> string" where
  "format_display Json = ''json''"
| "format_display Parquet = ''parquet''"

datatype ArchiveFormatParseError = ArchiveFormatParseError string

definition ascii_lower :: "char \<Rightarrow> char" where
  "ascii_lower c = (if 65 \<le> (of_char c :: nat) \<and> of_char c \<le> (90 :: nat) then char_of (of_char c + 32 :: nat) else c)"

definition format_from_str :: "string \<Rightarrow> (ArchiveFormatParseError, ArchiveFormat) result" where
  "format_from_str value =
     (let v = map ascii_lower (trim value) in
      if v = ''json'' then Ok Json
      else if v = ''parquet'' then Ok Parquet
      else Err (ArchiveFormatParseError value))"

section \<open>Configuration of the object store\<close>

datatype S3ServerSideEncryption = S3Managed | AwsManagedKms | CustomerManagedKms string

record S3ArchiveConfig =
  s3_endpoint :: "string option"
  s3_bucket :: string
  s3_region :: "string option"
  s3_access_key_id :: "string option"
  s3_secret_access_key :: "string option"
  s3_session_token :: "string option"
  s3_prefix :: string
  s3_allow_http :: bool
  s3_encryption :: "S3ServerSideEncryption option"

definition S3ArchiveConfig_new :: "string \<Rightarrow> string \<Rightarrow> S3ArchiveConfig" where
  "S3ArchiveConfig_new bucket prefix = \<lparr> s3_endpoint = None, s3_bucket = bucket, s3_region = None,
     s3_access_key_id = None, s3_secret_access_key = None, s3_session_token = None, s3_prefix = prefix,
     s3_allow_http = False, s3_encryption = None \<rparr>"

text \<open>What the builder of the S3 service is given.\<close>

record S3Service =
  srv_bucket :: string
  srv_endpoint :: "string option"
  srv_region :: "string option"
  srv_credentials :: "(string \<times> string) option"
  srv_session_token :: "string option"
  srv_encryption :: "S3ServerSideEncryption option"

record OpenDalArchiveStore =
  od_bucket :: string
  od_prefix :: string
  od_format :: ArchiveFormat
  od_operation_timeout :: duration

definition starts_with :: "string \<Rightarrow> string \<Rightarrow> bool" where
  "starts_with p s \<longleftrightarrow> take (length p) s = p"

definition trim_matches :: "char \<Rightarrow> string \<Rightarrow> string" where
  "trim_matches c s = rev (dropWhile (\<lambda>x. x = c) (rev (dropWhile (\<lambda>x. x = c) s)))"

definition with_operator :: "string \<Rightarrow> string \<Rightarrow> OpenDalArchiveStore" where
  "with_operator bucket prefix = \<lparr> od_bucket = bucket, od_prefix = trim_matches (CHR ''/'') prefix,
     od_format = Json, od_operation_timeout = 30 * 10 ^ 9 \<rparr>"

definition s3_config ::
    "(S3Service \<Rightarrow> (string, unit) result) \<Rightarrow> S3ArchiveConfig
     \<Rightarrow> (StoreError, S3Service \<times> OpenDalArchiveStore) result" where
  "s3_config operator_new config =
     (if trim (s3_bucket config) = [] then Err (Other ''S3 archive bucket is required'')
      else if (case s3_endpoint config of None \<Rightarrow> False | Some endpoint \<Rightarrow> starts_with ''http://'' endpoint)
        \<and> \<not> s3_allow_http config
      then Err (Other ''S3 archive endpoint must use HTTPS unless allow_http is explicitly enabled for development'')
      else if (s3_access_key_id config \<noteq> None) \<noteq> (s3_secret_access_key config \<noteq> None)
      then Err (Other ''S3 access key and secret key must be configured together'')
      else if s3_session_token config \<noteq> None \<and> s3_access_key_id config = None
      then Err (Other ''an explicit S3 session token requires explicit access and secret keys'')
      else
        let service = \<lparr> srv_bucket = s3_bucket config, srv_endpoint = s3_endpoint config,
              srv_region = s3_region config,
              srv_credentials = (case (s3_access_key_id config, s3_secret_access_key config) of
                 (Some access_key, Some secret_key) \<Rightarrow> Some (access_key, secret_key) | _ \<Rightarrow> None),
              srv_session_token = s3_session_token config, srv_encryption = s3_encryption config \<rparr>
        in case operator_new service of
             Inl e \<Rightarrow> Err (Other (''object store: '' @ e))
           | Inr _ \<Rightarrow> Ok (service, with_operator (s3_bucket config) (s3_prefix config)))"

definition s3 ::
    "(S3Service \<Rightarrow> (string, unit) result) \<Rightarrow> string \<Rightarrow> string \<Rightarrow> string \<Rightarrow> string \<Rightarrow> string
     \<Rightarrow> (StoreError, S3Service \<times> OpenDalArchiveStore) result" where
  "s3 operator_new endpoint bucket access_key secret_key prefix =
     s3_config operator_new ((S3ArchiveConfig_new bucket prefix)\<lparr> s3_endpoint := Some endpoint,
       s3_region := Some ''us-east-1'', s3_access_key_id := Some access_key,
       s3_secret_access_key := Some secret_key, s3_allow_http := True \<rparr>)"

definition with_format :: "ArchiveFormat \<Rightarrow> OpenDalArchiveStore \<Rightarrow> OpenDalArchiveStore" where
  "with_format format store = store\<lparr> od_format := format \<rparr>"

definition with_operation_timeout ::
    "duration \<Rightarrow> OpenDalArchiveStore \<Rightarrow> (StoreError, OpenDalArchiveStore) result" where
  "with_operation_timeout timeout store =
     (if timeout = 0 then Err (Other ''object-store operation timeout must be greater than zero'')
      else Ok (store\<lparr> od_operation_timeout := timeout \<rparr>))"

section \<open>Columns\<close>

text \<open>The part of the Arrow data model that the code uses; every field of a batch carries its column.\<close>

datatype DataType = Binary | TimestampNs string | OtherType nat

record Field =
  fd_name :: string
  fd_type :: DataType
  fd_nullable :: bool

datatype Column =
    BinaryColumn "byte list option list"
  | TimestampColumn "int option list"
  | OtherColumn nat

record RecordBatch =
  rb_columns :: "(Field \<times> Column) list"
  rb_rows :: nat

record ArchiveManifest =
  mf_version :: nat
  mf_format :: ArchiveFormat
  mf_schema_version :: nat
  mf_bucket :: BucketId
  mf_generation :: "nat option"
  mf_payload_key :: string
  mf_record_count :: nat
  mf_payload_bytes :: nat
  mf_sha256 :: string
  mf_clustering_key :: "string list"

record codec =
  cd_digest :: "byte list \<Rightarrow> byte list"
  cd_json_records :: "Record list \<Rightarrow> (string, byte list) result"
  cd_records_json :: "byte list \<Rightarrow> (string, Record list) result"
  cd_json_manifest :: "ArchiveManifest \<Rightarrow> (string, byte list) result"
  cd_manifest_json :: "byte list \<Rightarrow> (string, ArchiveManifest) result"
  cd_zstd_level :: "nat \<Rightarrow> (string, unit) result"
  cd_batch_try_new :: "Field list \<Rightarrow> Column list \<Rightarrow> (string, RecordBatch) result"
  cd_parquet_write :: "RecordBatch \<Rightarrow> (string, byte list) result"
  cd_parquet_read :: "byte list \<Rightarrow> (string, (string, RecordBatch) result list) result"

definition archive_schema :: "Field list" where
  "archive_schema =
     [\<lparr> fd_name = ''partition_key'', fd_type = Binary, fd_nullable = False \<rparr>,
      \<lparr> fd_name = ''event_time'', fd_type = TimestampNs ''UTC'', fd_nullable = False \<rparr>,
      \<lparr> fd_name = ''sort_key'', fd_type = Binary, fd_nullable = False \<rparr>,
      \<lparr> fd_name = ''value'', fd_type = Binary, fd_nullable = False \<rparr>]"

definition timestamp_nanos_opt :: "datetime \<Rightarrow> int option" where
  "timestamp_nanos_opt t = (if I64_MIN \<le> t \<and> t \<le> I64_MAX then Some t else None)"

definition serialize_parquet :: "codec \<Rightarrow> Record list \<Rightarrow> (StoreError, byte list) result" where
  "serialize_parquet cd records =
     and_then (collect_results (map (\<lambda>r.
         ok_or (Other ''archive event time cannot be represented as nanoseconds'')
           (timestamp_nanos_opt (rec_event_time r))) records)) (\<lambda>event_times.
     and_then (map_err (\<lambda>e. Other (''archive parquet serialization: '' @ e))
         (cd_batch_try_new cd archive_schema
            [BinaryColumn (map (\<lambda>r. Some (pk_bytes (rec_partition_key r))) records),
             TimestampColumn (map Some event_times),
             BinaryColumn (map (\<lambda>r. Some (sk_bytes (rec_sort_key r))) records),
             BinaryColumn (map (\<lambda>r. Some (rec_value r)) records)])) (\<lambda>batch.
     and_then (map_err (\<lambda>e. Other (''archive parquet compression: '' @ e)) (cd_zstd_level cd 3)) (\<lambda>_.
     map_err (\<lambda>e. Other (''archive parquet serialization: '' @ e)) (cd_parquet_write cd batch))))"

definition cell :: "'x option list \<Rightarrow> nat \<Rightarrow> 'x option" where
  "cell xs row = (if row < length xs then xs ! row else None)"

definition record_from_row ::
    "byte list option list \<Rightarrow> int option list \<Rightarrow> byte list option list \<Rightarrow> byte list option list \<Rightarrow> nat
     \<Rightarrow> (StoreError, Record) result" where
  "record_from_row partition_key event_time sort_keys value row =
     (case (cell partition_key row, cell event_time row, cell sort_keys row, cell value row) of
        (Some p, Some t, Some s, Some v) \<Rightarrow>
          Ok \<lparr> rec_partition_key = PartitionKey p, rec_event_time = t, rec_sort_key = SortKey s, rec_value = v \<rparr>
      | _ \<Rightarrow> Err (Other ''archive parquet contains null record fields''))"

definition binary_column :: "string \<Rightarrow> Column \<Rightarrow> (StoreError, byte list option list) result" where
  "binary_column error c = (case c of BinaryColumn xs \<Rightarrow> Ok xs | _ \<Rightarrow> Err (Other error))"

definition records_from_batch :: "RecordBatch \<Rightarrow> (StoreError, Record list) result" where
  "records_from_batch batch =
     (if map fst (rb_columns batch) \<noteq> archive_schema
      then Err (Other (''archive parquet schema is unsupported; expected partition_key Binary, '' @
        ''event_time Timestamp(ns UTC), sort_key Binary, value Binary''))
      else
        and_then (binary_column ''archive parquet partition key column is invalid'' (snd (rb_columns batch ! 0))) (\<lambda>partition_key.
        and_then (case snd (rb_columns batch ! 1) of
            TimestampColumn ts \<Rightarrow> Ok ts
          | _ \<Rightarrow> Err (Other ''archive parquet event time column is invalid'')) (\<lambda>event_time.
        and_then (binary_column ''archive parquet sort key column is invalid'' (snd (rb_columns batch ! 2))) (\<lambda>sort_keys.
        and_then (binary_column ''archive parquet value column is invalid'' (snd (rb_columns batch ! 3))) (\<lambda>value.
        collect_results (map (record_from_row partition_key event_time sort_keys value) [0..<rb_rows batch]))))))"

definition deserialize_parquet :: "codec \<Rightarrow> byte list \<Rightarrow> (StoreError, Record list) result" where
  "deserialize_parquet cd body =
     (let err = \<lambda>e. Other (''archive parquet deserialization: '' @ e) in
      and_then (map_err err (cd_parquet_read cd body)) (\<lambda>reader.
      and_then (collect_results (map (\<lambda>batch. and_then (map_err err batch) records_from_batch) reader)) (\<lambda>parts.
      Ok (concat parts))))"

definition serialize :: "codec \<Rightarrow> ArchiveFormat \<Rightarrow> Record list \<Rightarrow> (StoreError, byte list) result" where
  "serialize cd format records =
     (case format of
        Json \<Rightarrow> map_err (\<lambda>e. Other (''archive serialization: '' @ e)) (cd_json_records cd records)
      | Parquet \<Rightarrow> serialize_parquet cd records)"

definition deserialize :: "codec \<Rightarrow> ArchiveFormat \<Rightarrow> byte list \<Rightarrow> (StoreError, Record list) result" where
  "deserialize cd format body =
     (case format of
        Json \<Rightarrow> map_err (\<lambda>e. Other (''archive deserialization: '' @ e)) (cd_records_json cd body)
      | Parquet \<Rightarrow> deserialize_parquet cd body)"

section \<open>Manifests and keys\<close>

definition sha256 :: "codec \<Rightarrow> byte list \<Rightarrow> string" where
  "sha256 cd payload = concat (map hex_byte (cd_digest cd payload))"

definition encode_path_segment :: "byte list \<Rightarrow> string" where
  "encode_path_segment value = concat (map hex_byte value)"

definition CLUSTERING_KEY :: "string list" where
  "CLUSTERING_KEY = [''event_time'', ''sort_key'']"

definition u64_try_from :: "string \<Rightarrow> nat \<Rightarrow> (StoreError, nat) result" where
  "u64_try_from error n = (if n \<le> U64_MAX then Ok n else Err (Other error))"

definition ArchiveManifest_new ::
    "codec \<Rightarrow> BucketId \<Rightarrow> nat option \<Rightarrow> ArchiveFormat \<Rightarrow> string \<Rightarrow> Record list \<Rightarrow> byte list
     \<Rightarrow> (StoreError, ArchiveManifest) result" where
  "ArchiveManifest_new cd bucket generation format payload_key records payload =
     and_then (u64_try_from ''archive record count exceeds u64'' (length records)) (\<lambda>record_count.
     and_then (u64_try_from ''archive payload exceeds u64 bytes'' (length payload)) (\<lambda>payload_bytes.
     Ok \<lparr> mf_version = ARCHIVE_MANIFEST_VERSION, mf_format = format,
          mf_schema_version = RECORD_SCHEMA_VERSION, mf_bucket = bucket, mf_generation = generation,
          mf_payload_key = payload_key, mf_record_count = record_count, mf_payload_bytes = payload_bytes,
          mf_sha256 = sha256 cd payload, mf_clustering_key = CLUSTERING_KEY \<rparr>))"

definition manifest_validate :: "ArchiveManifest \<Rightarrow> (StoreError, unit) result" where
  "manifest_validate m =
     (if mf_version m \<noteq> ARCHIVE_MANIFEST_VERSION
      then Err (Other (''unsupported archive manifest version '' @ dec (mf_version m)))
      else if mf_schema_version m \<noteq> RECORD_SCHEMA_VERSION
      then Err (Other (''unsupported archive record schema version '' @ dec (mf_schema_version m)))
      else if mf_payload_key m = [] then Err (Other ''archive manifest payload key is empty'')
      else if mf_clustering_key m \<noteq> CLUSTERING_KEY
      then Err (Other ''archive manifest has an unsupported clustering key'')
      else Ok ())"

definition verify_payload :: "codec \<Rightarrow> ArchiveManifest \<Rightarrow> byte list \<Rightarrow> (StoreError, unit) result" where
  "verify_payload cd m payload =
     and_then (u64_try_from ''archive payload exceeds u64 bytes'' (length payload)) (\<lambda>payload_bytes.
     if payload_bytes \<noteq> mf_payload_bytes m then Err (Other ''archive payload length does not match manifest'')
     else if sha256 cd payload \<noteq> mf_sha256 m then Err (Other ''archive payload checksum does not match manifest'')
     else Ok ())"

definition bucket_prefix :: "OpenDalArchiveStore \<Rightarrow> BucketId \<Rightarrow> string" where
  "bucket_prefix store bucket =
     od_prefix store @ ''/'' @ encode_path_segment (as_bytes (tid_str (bid_table_id bucket)))
     @ ''/'' @ encode_path_segment (pk_bytes (bid_partition_key bucket))
     @ ''/'' @ encode_path_segment (as_bytes (bk_str (bid_key bucket)))"

definition object_directory :: "OpenDalArchiveStore \<Rightarrow> BucketId \<Rightarrow> nat option \<Rightarrow> string" where
  "object_directory store bucket generation =
     (case generation of
        Some g \<Rightarrow> bucket_prefix store bucket @ ''/generation-'' @ dec g
      | None \<Rightarrow> bucket_prefix store bucket)"

definition content_payload_key :: "OpenDalArchiveStore \<Rightarrow> BucketId \<Rightarrow> nat option \<Rightarrow> string \<Rightarrow> string" where
  "content_payload_key store bucket generation digest =
     object_directory store bucket generation @ ''/records-'' @ digest @ ''.'' @ extension (od_format store)"

definition content_manifest_key :: "OpenDalArchiveStore \<Rightarrow> BucketId \<Rightarrow> nat option \<Rightarrow> string \<Rightarrow> string" where
  "content_manifest_key store bucket generation digest =
     object_directory store bucket generation @ ''/manifest-'' @ digest @ ''.json''"

text \<open>\<open>rsplit('/').next()\<close>, \<open>strip_prefix\<close> and \<open>strip_suffix\<close>.\<close>

definition last_segment :: "string \<Rightarrow> string" where
  "last_segment s = rev (takeWhile (\<lambda>c. c \<noteq> CHR ''/'') (rev s))"

definition strip_prefix :: "string \<Rightarrow> string \<Rightarrow> string option" where
  "strip_prefix p s = (if take (length p) s = p then Some (drop (length p) s) else None)"

definition strip_suffix :: "string \<Rightarrow> string \<Rightarrow> string option" where
  "strip_suffix p s = map_option rev (strip_prefix (rev p) (rev s))"

definition is_ascii_hexdigit :: "char \<Rightarrow> bool" where
  "is_ascii_hexdigit c = (let n = of_char c :: nat in
     48 \<le> n \<and> n \<le> 57 \<or> 65 \<le> n \<and> n \<le> 70 \<or> 97 \<le> n \<and> n \<le> 102)"

definition manifest_digest :: "string \<Rightarrow> (StoreError, string option) result" where
  "manifest_digest key =
     (case Option.bind (strip_prefix ''manifest-'' (last_segment key)) (strip_suffix ''.json'') of
        None \<Rightarrow> Ok None
      | Some digest \<Rightarrow>
          if length digest \<noteq> 64 \<or> \<not> list_all is_ascii_hexdigit digest
          then Err (Other ''archive manifest object key contains an invalid checksum'')
          else Ok (Some digest))"

definition validate_records :: "BucketId \<Rightarrow> Record list \<Rightarrow> (StoreError, unit) result" where
  "validate_records bucket records =
     (if list_ex (\<lambda>r. rec_partition_key r \<noteq> bid_partition_key bucket
                     \<or> \<not> bid_contains bucket (rec_event_time r)) records
      then Err (Other ''archive records do not all belong to the requested bucket'')
      else if list_ex (\<lambda>(a, b). ckey a > ckey b) (zip records (drop 1 records))
      then Err (Other ''archive records are not sorted by event time and sort key'')
      else Ok ())"

section \<open>Objects\<close>

datatype write_outcome = WriteOk | WriteConditionNotMatch | WriteFailed string | WriteTimeout

datatype read_outcome = ReadOk "byte list" | ReadFailed string | ReadTimeout

record ('v, 'o) operator =
  op_write :: "'v \<Rightarrow> string \<Rightarrow> byte list \<Rightarrow> 'o \<Rightarrow> write_outcome \<times> 'o"
  op_read :: "'v \<Rightarrow> string \<Rightarrow> 'o \<Rightarrow> read_outcome \<times> 'o"

definition operation_timeout_error :: StoreError where
  "operation_timeout_error = Other ''object-store operation timed out''"

definition object_error :: "string \<Rightarrow> StoreError" where
  "object_error error = Other (''object store: '' @ error)"

definition read_object ::
    "('v, 'o) operator \<Rightarrow> 'v \<Rightarrow> string \<Rightarrow> 'o \<Rightarrow> (StoreError, byte list) result \<times> 'o" where
  "read_object opr v key obj =
     (case op_read opr v key obj of
        (ReadOk body, obj) \<Rightarrow> (Ok body, obj)
      | (ReadFailed e, obj) \<Rightarrow> (Err (object_error e), obj)
      | (ReadTimeout, obj) \<Rightarrow> (Err operation_timeout_error, obj))"

text \<open>An operation makes several calls; \<open>v n\<close> is what the object store is given at the \<open>n\<close>th.\<close>

definition create_object_verified ::
    "('v, 'o) operator \<Rightarrow> 'v \<Rightarrow> 'v \<Rightarrow> string \<Rightarrow> byte list \<Rightarrow> 'o \<Rightarrow> (StoreError, byte list) result \<times> 'o" where
  "create_object_verified opr v v' key expected obj =
     (case op_write opr v key expected obj of
        (written, obj) \<Rightarrow>
          let write_error =
            (case written of
               WriteOk \<Rightarrow> None
             | WriteConditionNotMatch \<Rightarrow> None
             | WriteFailed e \<Rightarrow> Some (object_error e)
             | WriteTimeout \<Rightarrow> Some operation_timeout_error)
          in case read_object opr v' key obj of
               (Inr uploaded, obj) \<Rightarrow>
                 if uploaded = expected then (Ok uploaded, obj)
                 else (Err (Other ''immutable archive object already exists with different content''), obj)
             | (Inl error, obj) \<Rightarrow>
                 (case write_error of Some e \<Rightarrow> (Err e, obj) | None \<Rightarrow> (Err error, obj)))"

text \<open>The part of \<open>write_records\<close> before the first call: the payload, its key, the manifest, its body and key.\<close>

definition prepare ::
    "codec \<Rightarrow> OpenDalArchiveStore \<Rightarrow> BucketId \<Rightarrow> nat option \<Rightarrow> Record list
     \<Rightarrow> (StoreError, byte list \<times> string \<times> ArchiveManifest \<times> byte list \<times> string) result" where
  "prepare cd store bucket generation records =
     and_then (validate_records bucket records) (\<lambda>_.
     and_then (serialize cd (od_format store) records) (\<lambda>payload.
     let payload_key = content_payload_key store bucket generation (sha256 cd payload) in
     and_then (ArchiveManifest_new cd bucket generation (od_format store) payload_key records payload) (\<lambda>manifest.
     and_then (map_err (\<lambda>e. Other (''archive manifest serialization: '' @ e)) (cd_json_manifest cd manifest)) (\<lambda>body.
     Ok (payload, payload_key, manifest, body, content_manifest_key store bucket generation (sha256 cd body))))))"

definition check_uploaded_payload ::
    "codec \<Rightarrow> OpenDalArchiveStore \<Rightarrow> ArchiveManifest \<Rightarrow> byte list \<Rightarrow> (StoreError, unit) result" where
  "check_uploaded_payload cd store manifest uploaded =
     and_then (verify_payload cd manifest uploaded) (\<lambda>_.
     and_then (deserialize cd (od_format store) uploaded) (\<lambda>records.
     and_then (u64_try_from ''archive record count exceeds u64'' (length records)) (\<lambda>n.
     if n \<noteq> mf_record_count manifest then Err (Other ''uploaded archive record count does not match manifest'')
     else Ok ())))"

definition check_uploaded_manifest ::
    "codec \<Rightarrow> ArchiveManifest \<Rightarrow> byte list \<Rightarrow> (StoreError, unit) result" where
  "check_uploaded_manifest cd manifest uploaded =
     and_then (map_err (\<lambda>e. Other (''archive manifest deserialization: '' @ e)) (cd_manifest_json cd uploaded)) (\<lambda>verified.
     and_then (manifest_validate verified) (\<lambda>_.
     if verified \<noteq> manifest then Err (Other ''uploaded archive manifest does not match the intended manifest'')
     else Ok ()))"

definition write_records ::
    "codec \<Rightarrow> ('v, 'o) operator \<Rightarrow> OpenDalArchiveStore \<Rightarrow> (nat \<Rightarrow> 'v) \<Rightarrow> BucketId \<Rightarrow> nat option \<Rightarrow> Record list
     \<Rightarrow> 'o \<Rightarrow> (StoreError, string) result \<times> 'o" where
  "write_records cd opr store v bucket generation records obj =
     (case prepare cd store bucket generation records of
        Inl e \<Rightarrow> (Err e, obj)
      | Inr (payload, payload_key, manifest, manifest_body, manifest_key) \<Rightarrow>
          (case create_object_verified opr (v 0) (v 1) payload_key payload obj of
             (Inl e, obj) \<Rightarrow> (Err e, obj)
           | (Inr uploaded_payload, obj) \<Rightarrow>
               (case check_uploaded_payload cd store manifest uploaded_payload of
                  Inl e \<Rightarrow> (Err e, obj)
                | Inr _ \<Rightarrow>
                    (case create_object_verified opr (v 2) (v 3) manifest_key manifest_body obj of
                       (Inl e, obj) \<Rightarrow> (Err e, obj)
                     | (Inr uploaded_manifest, obj) \<Rightarrow>
                         (case check_uploaded_manifest cd manifest uploaded_manifest of
                            Inl e \<Rightarrow> (Err e, obj)
                          | Inr _ \<Rightarrow> (Ok manifest_key, obj))))))"

definition check_records ::
    "codec \<Rightarrow> BucketId \<Rightarrow> ArchiveManifest \<Rightarrow> byte list \<Rightarrow> (StoreError, Record list) result" where
  "check_records cd expected_bucket manifest payload =
     and_then (verify_payload cd manifest payload) (\<lambda>_.
     and_then (deserialize cd (mf_format manifest) payload) (\<lambda>records.
     and_then (u64_try_from ''archive record count exceeds u64'' (length records)) (\<lambda>n.
     if n \<noteq> mf_record_count manifest then Err (Other ''archive record count does not match manifest'')
     else and_then (validate_records expected_bucket records) (\<lambda>_. Ok records))))"

definition check_manifest :: "BucketId \<Rightarrow> ArchiveManifest \<Rightarrow> (StoreError, unit) result" where
  "check_manifest expected_bucket manifest =
     and_then (manifest_validate manifest) (\<lambda>_.
     if mf_bucket manifest \<noteq> expected_bucket
     then Err (Other ''archive manifest does not match the requested bucket'') else Ok ())"

definition read_manifest_records ::
    "codec \<Rightarrow> ('v, 'o) operator \<Rightarrow> 'v \<Rightarrow> BucketId \<Rightarrow> ArchiveManifest \<Rightarrow> 'o
     \<Rightarrow> (StoreError, Record list) result \<times> 'o" where
  "read_manifest_records cd opr v expected_bucket manifest obj =
     (case check_manifest expected_bucket manifest of
        Inl e \<Rightarrow> (Err e, obj)
      | Inr _ \<Rightarrow>
          (case read_object opr v (mf_payload_key manifest) obj of
             (Inl e, obj) \<Rightarrow> (Err e, obj)
           | (Inr payload, obj) \<Rightarrow> (check_records cd expected_bucket manifest payload, obj)))"

definition parse_manifest :: "codec \<Rightarrow> string \<Rightarrow> byte list \<Rightarrow> (StoreError, ArchiveManifest) result" where
  "parse_manifest cd key object =
     and_then (manifest_digest key) (\<lambda>digest.
     if (case digest of None \<Rightarrow> False | Some expected_digest \<Rightarrow> sha256 cd object \<noteq> expected_digest)
     then Err (Other ''archive manifest checksum does not match its object key'')
     else map_err (\<lambda>e. Other (''archive manifest deserialization: '' @ e)) (cd_manifest_json cd object))"

definition od_put_bucket where
  "od_put_bucket cd opr store v bucket records obj = write_records cd opr store v bucket None records obj"

definition od_put_bucket_generation where
  "od_put_bucket_generation cd opr store v bucket generation records obj =
     write_records cd opr store v bucket (Some generation) records obj"

definition od_get_bucket ::
    "codec \<Rightarrow> ('v, 'o) operator \<Rightarrow> (nat \<Rightarrow> 'v) \<Rightarrow> BucketId \<Rightarrow> string \<Rightarrow> 'o
     \<Rightarrow> (StoreError, Record list) result \<times> 'o" where
  "od_get_bucket cd opr v bucket key obj =
     (case read_object opr (v 0) key obj of
        (Inl e, obj) \<Rightarrow> (Err e, obj)
      | (Inr object, obj) \<Rightarrow>
          (case parse_manifest cd key object of
             Inl e \<Rightarrow> (Err e, obj)
           | Inr manifest \<Rightarrow>
               (case read_manifest_records cd opr (v 1) bucket manifest obj of
                  (Inl e, obj) \<Rightarrow> (Err e, obj)
                | (Inr records, obj) \<Rightarrow>
                    (and_then (u64_try_from ''archive manifest exceeds u64 bytes'' (length object)) (\<lambda>_. Ok records), obj))))"

definition opendal_archive ::
    "codec \<Rightarrow> ('v, 'o) operator \<Rightarrow> OpenDalArchiveStore \<Rightarrow> (nat \<Rightarrow> 'v, 'o) ArchiveStore" where
  "opendal_archive cd opr store = \<lparr>
     as_put_bucket = od_put_bucket cd opr store,
     as_put_bucket_generation = od_put_bucket_generation cd opr store,
     as_get_bucket = od_get_bucket cd opr \<rparr>"

section \<open>What a configuration must satisfy\<close>

text \<open>An S3 configuration is accepted only when it names a bucket, uses HTTPS unless plain HTTP is allowed
  explicitly, gives both static keys or neither, and gives a session token only with them; the service is
  then built with exactly those settings and the prefix without slashes at its ends.\<close>

theorem s3_config_accepts:
  assumes "s3_config operator_new config = Ok (service, store)"
  shows "trim (s3_bucket config) \<noteq> [] \<and> srv_bucket service = s3_bucket config
    \<and> (\<forall>e. srv_endpoint service = Some e \<longrightarrow> starts_with ''http://'' e \<longrightarrow> s3_allow_http config)
    \<and> map_option fst (srv_credentials service) = s3_access_key_id config
    \<and> map_option snd (srv_credentials service) = s3_secret_access_key config
    \<and> (srv_session_token service \<noteq> None \<longrightarrow> srv_credentials service \<noteq> None)
    \<and> srv_session_token service = s3_session_token config \<and> srv_encryption service = s3_encryption config
    \<and> (od_prefix store = [] \<or> hd (od_prefix store) \<noteq> CHR ''/'' \<and> last (od_prefix store) \<noteq> CHR ''/'')"
proof -
  have ends: "t = [] \<or> hd t \<noteq> c \<and> last t \<noteq> c" if t: "t = trim_matches c s" for t c s
  proof -
    define u where "u = dropWhile (\<lambda>x. x = c) s"
    have u: "u = [] \<or> hd u \<noteq> c" unfolding u_def using hd_dropWhile [of "\<lambda>x. x = c" s] by auto
    have t: "t = rev (dropWhile (\<lambda>x. x = c) (rev u))" using t by (simp add: trim_matches_def u_def)
    show ?thesis
    proof (cases "t = []")
      case False
      then have ne: "dropWhile (\<lambda>x. x = c) (rev u) \<noteq> []" using t by simp
      obtain v where v: "rev u = v @ dropWhile (\<lambda>x. x = c) (rev u)" by (metis takeWhile_dropWhile_id)
      then have "u = t @ rev v" using t by (metis rev_append rev_rev_ident)
      then have "hd t = hd u" "u \<noteq> []" using False by auto
      moreover have "last t \<noteq> c" using hd_dropWhile [OF ne] t by (simp add: last_rev)
      ultimately show ?thesis using u by auto
    qed simp
  qed
  show ?thesis
    using assms ends [OF refl, of "CHR ''/''" "s3_prefix config"]
    by (cases "s3_access_key_id config"; cases "s3_secret_access_key config")
      (auto simp: s3_config_def with_operator_def Let_def split: if_splits sum.splits option.splits)
qed

theorem s3_config_accepts_witness:
  "\<exists>service store. s3 (\<lambda>_. Ok ()) ''http://localhost:9000'' ''archives'' ''id'' ''secret'' ''/prod/'' = Ok (service, store)
     \<and> map_option fst (srv_credentials service) = Some ''id''"
proof -
  let ?c = "(S3ArchiveConfig_new ''archives'' ''/prod/'')\<lparr> s3_endpoint := Some ''http://localhost:9000'',
       s3_region := Some ''us-east-1'', s3_access_key_id := Some ''id'',
       s3_secret_access_key := Some ''secret'', s3_allow_http := True \<rparr>"
  have "trim ''archives'' \<noteq> []" by (subst trim_plain) (simp_all add: not_ws_ascii)
  then obtain service store where c: "s3_config (\<lambda>_. Ok ()) ?c = Ok (service, store)"
    by (simp add: s3_config_def S3ArchiveConfig_new_def starts_with_def)
  from s3_config_accepts [OF this] show ?thesis using c by (auto simp: s3_def S3ArchiveConfig_new_def)
qed

end
