(* ===== verification/Opendal_Contract.thy ===== *)
theory Opendal_Contract
  imports Opendal_Store
begin

text \<open>
  What the object-store archive guarantees. \<open>codec_ok\<close> states that the codecs invert each other and that a
  digest has 32 bytes, \<open>operator_ok\<close> that a conditional write never replaces an object and that a read
  returns what is stored; calls may fail or time out at any point, with or without effect. Under these
  hypotheses records survive both encodings, and the store keeps the contract of an archive store: a
  published manifest names records that no later upload changes.
\<close>

section \<open>The hypotheses\<close>

fun column_length :: "Column \<Rightarrow> nat" where
  "column_length (BinaryColumn xs) = length xs"
| "column_length (TimestampColumn xs) = length xs"
| "column_length (OtherColumn n) = n"

fun slice_column :: "nat \<Rightarrow> nat \<Rightarrow> Column \<Rightarrow> Column" where
  "slice_column i n (BinaryColumn xs) = BinaryColumn (take n (drop i xs))"
| "slice_column i n (TimestampColumn xs) = TimestampColumn (take n (drop i xs))"
| "slice_column i n (OtherColumn m) = OtherColumn n"

definition batch_slice :: "nat \<Rightarrow> nat \<Rightarrow> RecordBatch \<Rightarrow> RecordBatch" where
  "batch_slice i n batch = \<lparr> rb_columns = map (\<lambda>(f, c). (f, slice_column i n c)) (rb_columns batch), rb_rows = n \<rparr>"

fun slices :: "nat \<Rightarrow> nat list \<Rightarrow> RecordBatch \<Rightarrow> RecordBatch list" where
  "slices i [] batch = []"
| "slices i (n # ns) batch = batch_slice i n batch # slices (i + n) ns batch"

text \<open>A Parquet file is read back in batches of consecutive rows; \<open>Vec\<close> holds at most \<open>isize::MAX\<close> bytes.\<close>

definition codec_ok :: "codec \<Rightarrow> bool" where
  "codec_ok cd \<longleftrightarrow>
     (\<forall>x. length (cd_digest cd x) = 32)
     \<and> (\<forall>rs body. cd_json_records cd rs = Ok body \<longrightarrow> cd_records_json cd body = Ok rs)
     \<and> (\<forall>m body. trim (bk_str (bid_key (mf_bucket m))) \<noteq> [] \<longrightarrow> cd_json_manifest cd m = Ok body
          \<longrightarrow> cd_manifest_json cd body = Ok m \<and> length body \<le> U64_MAX)
     \<and> (\<forall>fields columns batch. cd_batch_try_new cd fields columns = Ok batch \<longrightarrow>
          rb_columns batch = zip fields columns \<and> (\<forall>c \<in> set columns. column_length c = rb_rows batch))
     \<and> (\<forall>batch body. cd_parquet_write cd batch = Ok body \<longrightarrow>
          (\<exists>ns. sum_list ns = rb_rows batch \<and> cd_parquet_read cd body = Ok (map Ok (slices 0 ns batch))))"

definition operator_ok :: "('v, 'o) operator \<Rightarrow> ('o \<Rightarrow> (string \<rightharpoonup> byte list)) \<Rightarrow> bool" where
  "operator_ok opr objs \<longleftrightarrow>
     (\<forall>v key body obj written obj'. op_write opr v key body obj = (written, obj') \<longrightarrow>
        (case written of
           WriteOk \<Rightarrow> objs obj key = None \<and> objs obj' = (objs obj)(key \<mapsto> body)
         | WriteConditionNotMatch \<Rightarrow> objs obj' = objs obj
         | _ \<Rightarrow> objs obj' = objs obj \<or> objs obj key = None \<and> objs obj' = (objs obj)(key \<mapsto> body)))
     \<and> (\<forall>v key obj read obj'. op_read opr v key obj = (read, obj') \<longrightarrow>
          objs obj' = objs obj \<and> (\<forall>body. read = ReadOk body \<longrightarrow> objs obj key = Some body))"

section \<open>Round trips of the encodings\<close>

lemma cell_map: "cell (map (Some \<circ> f) rs) i = (if i < length rs then Some (f (rs ! i)) else None)"
  by (simp add: cell_def)

definition batch_of :: "Record list \<Rightarrow> RecordBatch" where
  "batch_of rs = \<lparr> rb_columns = zip archive_schema
     [BinaryColumn (map (\<lambda>r. Some (pk_bytes (rec_partition_key r))) rs),
      TimestampColumn (map (\<lambda>r. Some (rec_event_time r)) rs),
      BinaryColumn (map (\<lambda>r. Some (sk_bytes (rec_sort_key r))) rs),
      BinaryColumn (map (\<lambda>r. Some (rec_value r)) rs)], rb_rows = length rs \<rparr>"

lemma batch_slice_of: "n \<le> length rs - i \<Longrightarrow> batch_slice i n (batch_of rs) = batch_of (take n (drop i rs))"
  by (simp add: batch_slice_def batch_of_def archive_schema_def take_map drop_map min_def)

lemma record_from_row_of:
  "i < length rs \<Longrightarrow>
     record_from_row (map (\<lambda>r. Some (pk_bytes (rec_partition_key r))) rs) (map (\<lambda>r. Some (rec_event_time r)) rs)
       (map (\<lambda>r. Some (sk_bytes (rec_sort_key r))) rs) (map (\<lambda>r. Some (rec_value r)) rs) i = Ok (rs ! i)"
  by (simp add: record_from_row_def cell_def)

lemma records_from_batch_of: "records_from_batch (batch_of rs) = Ok rs"
proof -
  let ?row = "record_from_row (map (\<lambda>r. Some (pk_bytes (rec_partition_key r))) rs)
    (map (\<lambda>r. Some (rec_event_time r)) rs) (map (\<lambda>r. Some (sk_bytes (rec_sort_key r))) rs)
    (map (\<lambda>r. Some (rec_value r)) rs)"
  have "map ?row [0..<length rs] = map Ok rs"
    by (rule nth_equalityI) (simp_all add: record_from_row_of)
  then have "collect_results (map ?row [0..<length rs]) = Ok rs"
    by (simp add: collect_results_Inr)
  then show ?thesis
    by (simp add: records_from_batch_def batch_of_def archive_schema_def binary_column_def)
qed

fun cuts :: "nat list \<Rightarrow> 'x list \<Rightarrow> 'x list list" where
  "cuts [] xs = []"
| "cuts (n # ns) xs = take n xs # cuts ns (drop n xs)"

lemma concat_cuts: "sum_list ns = length xs \<Longrightarrow> concat (cuts ns xs) = xs"
  by (induction ns arbitrary: xs) auto

lemma slices_of:
  "i + sum_list ns = length rs \<Longrightarrow> map records_from_batch (slices i ns (batch_of rs)) = map Ok (cuts ns (drop i rs))"
  by (induction ns arbitrary: i) (simp_all add: batch_slice_of records_from_batch_of add.commute)

lemma parquet_roundtrip:
  assumes "codec_ok cd" and "serialize_parquet cd rs = Ok body"
  shows "deserialize_parquet cd body = Ok rs"
proof -
  from assms(2) obtain ts batch where
    ts: "map (\<lambda>r. ok_or (Other ''archive event time cannot be represented as nanoseconds'')
           (timestamp_nanos_opt (rec_event_time r))) rs = map Ok ts"
    and batch: "cd_batch_try_new cd archive_schema
            [BinaryColumn (map (\<lambda>r. Some (pk_bytes (rec_partition_key r))) rs), TimestampColumn (map Some ts),
             BinaryColumn (map (\<lambda>r. Some (sk_bytes (rec_sort_key r))) rs),
             BinaryColumn (map (\<lambda>r. Some (rec_value r)) rs)] = Ok batch"
    and body: "cd_parquet_write cd batch = Ok body"
    by (auto simp: serialize_parquet_def and_then_eq_Inr collect_results_Inr)
  have tt: "ts = map rec_event_time rs"
    using ts by (induction rs arbitrary: ts) (auto simp: timestamp_nanos_opt_def map_eq_Cons_conv split: if_splits)
  from assms(1) batch have "rb_columns batch = rb_columns (batch_of rs)" "rb_rows batch = length rs"
    by (fastforce simp: codec_ok_def batch_of_def tt comp_def)+
  then have b: "batch = batch_of rs" by (simp add: batch_of_def)
  from assms(1) body obtain ns where ns: "sum_list ns = length rs"
    "cd_parquet_read cd body = Ok (map Ok (slices 0 ns (batch_of rs)))"
    unfolding codec_ok_def b by (metis RecordBatch.select_convs(2) batch_of_def)
  have "collect_results (map records_from_batch (slices 0 ns (batch_of rs))) = Ok (cuts ns rs)"
    using slices_of [of 0 ns rs] ns(1) by (simp add: collect_results_Inr)
  then show ?thesis
    using concat_cuts [OF ns(1)] by (simp add: deserialize_parquet_def ns(2) comp_def)
qed

lemma serialize_roundtrip:
  assumes "codec_ok cd" and "serialize cd format rs = Ok body"
  shows "deserialize cd format body = Ok rs"
  using assms parquet_roundtrip
  by (cases format) (auto simp: serialize_def deserialize_def codec_ok_def)

section \<open>Keys\<close>

lemma sha256_hex: "sha256 cd x = hex (cd_digest cd x)"
  by (simp add: sha256_def hex_def)

lemma sha256_digits:
  assumes "codec_ok cd"
  shows "length (sha256 cd x) = 64" "list_all is_ascii_hexdigit (sha256 cd x)" "CHR ''/'' \<notin> set (sha256 cd x)"
proof -
  show "length (sha256 cd x) = 64" using assms by (simp add: sha256_hex length_hex codec_ok_def)
  show "list_all is_ascii_hexdigit (sha256 cd x)"
    using set_hex by (fastforce simp: sha256_hex list_all_iff is_hex_char_def is_ascii_hexdigit_def Let_def)
  show "CHR ''/'' \<notin> set (sha256 cd x)" by (simp add: sha256_hex slash_not_hex)
qed

lemma last_segment_append:
  assumes "CHR ''/'' \<notin> set s"
  shows "last_segment (d @ CHR ''/'' # s) = s"
proof -
  have "takeWhile (\<lambda>c. c \<noteq> CHR ''/'') (rev s @ CHR ''/'' # rev d) = rev s"
    using assms by (subst takeWhile_append2) auto
  then show ?thesis by (simp add: last_segment_def)
qed

lemma manifest_digest_key:
  assumes "codec_ok cd"
  shows "manifest_digest (content_manifest_key store b g (sha256 cd x)) = Ok (Some (sha256 cd x))"
proof -
  let ?f = "''manifest-'' @ sha256 cd x @ ''.json''"
  have "CHR ''/'' \<notin> set ?f" using sha256_digits(3) [OF assms] by simp
  from last_segment_append [OF this, of "object_directory store b g"]
  have "last_segment (content_manifest_key store b g (sha256 cd x)) = ?f"
    by (simp add: content_manifest_key_def)
  moreover have "strip_suffix ''.json'' (sha256 cd x @ ''.json'') = Some (sha256 cd x)"
    by (simp add: strip_suffix_def strip_prefix_def)
  ultimately show ?thesis
    using sha256_digits [OF assms] by (simp add: manifest_digest_def strip_prefix_def)
qed

lemma content_manifest_key_inject:
  assumes "CHR ''/'' \<notin> set d" and "CHR ''/'' \<notin> set d'"
    and "content_manifest_key store b (Some g) d = content_manifest_key store b' (Some g') d'"
  shows "bid_table_id b = bid_table_id b' \<and> bid_partition_key b = bid_partition_key b'
    \<and> bid_key b = bid_key b' \<and> g = g'"
proof -
  let ?t = "\<lambda>b. hex (as_bytes (tid_str (bid_table_id b)))" and ?h = "\<lambda>b. hex (pk_bytes (bid_partition_key b))"
    and ?k = "\<lambda>b. hex (as_bytes (bk_str (bid_key b)))" and ?g = "\<lambda>g. ''generation-'' @ dec g"
    and ?d = "\<lambda>d. ''manifest-'' @ d @ ''.json''"
  have key: "content_manifest_key store b (Some g) d = ((((od_prefix store @ CHR ''/'' # ?t b) @ CHR ''/'' # ?h b)
      @ CHR ''/'' # ?k b) @ CHR ''/'' # ?g g) @ CHR ''/'' # ?d d" for b g d
    by (simp add: content_manifest_key_def object_directory_def bucket_prefix_def encode_path_segment_def hex_def)
  have g: "CHR ''/'' \<notin> set (?g g)" for g using slash_not_dec by auto
  have d: "CHR ''/'' \<notin> set (?d d)" "CHR ''/'' \<notin> set (?d d')" using assms(1,2) by auto
  from append_sep_inject_right [OF d assms(3) [unfolded key]]
  have 1: "(((od_prefix store @ CHR ''/'' # ?t b) @ CHR ''/'' # ?h b) @ CHR ''/'' # ?k b) @ CHR ''/'' # ?g g
      = (((od_prefix store @ CHR ''/'' # ?t b') @ CHR ''/'' # ?h b') @ CHR ''/'' # ?k b') @ CHR ''/'' # ?g g'" by simp
  note 2 = append_sep_inject_right [OF g g 1]
  note 3 = append_sep_inject_right [OF slash_not_hex slash_not_hex 2 [THEN conjunct1]]
  note 4 = append_sep_inject_right [OF slash_not_hex slash_not_hex 3 [THEN conjunct1]]
  note 5 = append_sep_inject_right [OF slash_not_hex slash_not_hex 4 [THEN conjunct1]]
  show ?thesis
    using 2 3 4 5 by (auto intro: TableId.expand PartitionKey.expand BucketKey.expand)
qed

section \<open>What the objects hold\<close>

text \<open>The records that a bucket and a manifest key name in a set of objects.\<close>

definition result_ok :: "('e, 'x) result \<Rightarrow> 'x option" where
  "result_ok r = (case r of Inl _ \<Rightarrow> None | Inr x \<Rightarrow> Some x)"

lemma result_ok_Some [simp]: "result_ok r = Some x \<longleftrightarrow> r = Ok x"
  by (cases r) (auto simp: result_ok_def)

definition stored_records ::
    "codec \<Rightarrow> (string \<rightharpoonup> byte list) \<Rightarrow> BucketId \<Rightarrow> string \<Rightarrow> Record list option" where
  "stored_records cd objects bucket key = do {
     object \<leftarrow> objects key;
     manifest \<leftarrow> result_ok (parse_manifest cd key object);
     _ \<leftarrow> result_ok (check_manifest bucket manifest);
     payload \<leftarrow> objects (mf_payload_key manifest);
     records \<leftarrow> result_ok (check_records cd bucket manifest payload);
     if length object \<le> U64_MAX then Some records else None
   }"

lemma stored_records_Some:
  "stored_records cd objects b key = Some rs \<longleftrightarrow>
     (\<exists>object m payload. objects key = Some object \<and> parse_manifest cd key object = Ok m
        \<and> check_manifest b m = Ok () \<and> objects (mf_payload_key m) = Some payload
        \<and> check_records cd b m payload = Ok rs \<and> length object \<le> U64_MAX)"
  unfolding stored_records_def bind_eq_Some_conv result_ok_Some by (auto split: if_splits)

lemma stored_records_mono:
  assumes "objects \<subseteq>\<^sub>m objects'" and "stored_records cd objects b key = Some rs"
  shows "stored_records cd objects' b key = Some rs"
proof -
  have "objects k = Some x \<Longrightarrow> objects' k = Some x" for k x
    using assms(1) by (auto simp: map_le_def dom_def)
  then show ?thesis using assms(2) unfolding stored_records_Some by blast
qed

lemma operator_read:
  assumes "operator_ok opr objs" and "op_read opr v key obj = (read, obj')"
  shows "objs obj' = objs obj" "read = ReadOk body \<Longrightarrow> objs obj key = Some body"
  using assms unfolding operator_ok_def by blast+

lemma operator_write:
  assumes "operator_ok opr objs" and "op_write opr v key body obj = (written, obj')"
  shows "objs obj' = objs obj \<or> objs obj key = None \<and> objs obj' = (objs obj)(key \<mapsto> body)"
proof -
  have "case written of
       WriteOk \<Rightarrow> objs obj key = None \<and> objs obj' = (objs obj)(key \<mapsto> body)
     | WriteConditionNotMatch \<Rightarrow> objs obj' = objs obj
     | _ \<Rightarrow> objs obj' = objs obj \<or> objs obj key = None \<and> objs obj' = (objs obj)(key \<mapsto> body)"
    using assms unfolding operator_ok_def by blast
  then show ?thesis by (cases written) auto
qed

lemma read_object_ok:
  assumes "operator_ok opr objs" and "read_object opr v key obj = (res, obj')"
  shows "objs obj' = objs obj" "res = Ok body \<Longrightarrow> objs obj key = Some body"
proof -
  obtain r where r: "op_read opr v key obj = (r, obj')"
    using assms(2) by (auto simp: read_object_def split: prod.splits read_outcome.splits)
  show "objs obj' = objs obj" by (rule operator_read(1) [OF assms(1) r])
  show "objs obj key = Some body" if "res = Ok body"
    by (rule operator_read(2) [OF assms(1) r])
      (use assms(2) r that in \<open>auto simp: read_object_def split: read_outcome.splits\<close>)
qed

lemma write_object_ok:
  assumes "operator_ok opr objs" and "op_write opr v key body obj = (written, obj')"
  shows "objs obj \<subseteq>\<^sub>m objs obj'"
  using operator_write [OF assms] by (auto simp: map_le_def)

lemma create_object_ok:
  assumes ok: "operator_ok opr objs" and op: "create_object_verified opr v v' key body obj = (res, obj')"
  shows "objs obj \<subseteq>\<^sub>m objs obj'" "res = Ok uploaded \<Longrightarrow> objs obj' key = Some body \<and> uploaded = body"
proof -
  obtain w o1 where w: "op_write opr v key body obj = (w, o1)" by fastforce
  obtain r o2 where r: "read_object opr v' key o1 = (r, o2)" by fastforce
  have o2: "obj' = o2" using op w r
    by (auto simp: create_object_verified_def Let_def split: sum.splits if_splits option.splits)
  show "objs obj \<subseteq>\<^sub>m objs obj'" using write_object_ok [OF ok w] read_object_ok(1) [OF ok r] o2 by simp
  show "objs obj' key = Some body \<and> uploaded = body" if "res = Ok uploaded"
    using op w r that read_object_ok [OF ok r] o2
    by (auto simp: create_object_verified_def Let_def split: sum.splits if_splits option.splits)
qed

lemma get_bucket_stored:
  assumes ok: "operator_ok opr objs" and op: "od_get_bucket cd opr v b key obj = (res, obj')"
  shows "objs obj' = objs obj" "res = Ok rs \<Longrightarrow> stored_records cd (objs obj) b key = Some rs"
proof -
  obtain r o1 where r: "read_object opr (v 0) key obj = (r, o1)" by fastforce
  note r1 = read_object_ok [OF ok r]
  have "objs obj' = objs obj \<and> (\<forall>rs. res = Ok rs \<longrightarrow> stored_records cd (objs obj) b key = Some rs)"
  proof (cases "\<exists>object m. r = Ok object \<and> parse_manifest cd key object = Ok m \<and> check_manifest b m = Ok ()")
    case True
    then obtain object m where m: "r = Ok object" "parse_manifest cd key object = Ok m" "check_manifest b m = Ok ()"
      by blast
    obtain p o2 where p: "read_object opr (v 1) (mf_payload_key m) o1 = (p, o2)" by fastforce
    note r2 = read_object_ok [OF ok p]
    have "res = Ok rs \<Longrightarrow> \<exists>payload. p = Ok payload \<and> check_records cd b m payload = Ok rs \<and> length object \<le> U64_MAX"
      for rs
      using op r m p by (auto simp: od_get_bucket_def read_manifest_records_def u64_try_from_def and_then_eq_Inr
          split: sum.splits if_splits)
    moreover have "obj' = o2"
      using op r m p by (auto simp: od_get_bucket_def read_manifest_records_def split: sum.splits)
    ultimately show ?thesis
      using r1 r2 m unfolding stored_records_Some by (metis (no_types))
  next
    case False
    then have "obj' = o1 \<and> (\<exists>e. res = Err e)"
      using op r by (auto simp: od_get_bucket_def read_manifest_records_def split: sum.splits)
    then show ?thesis using r1(1) by auto
  qed
  then show "objs obj' = objs obj" "res = Ok rs \<Longrightarrow> stored_records cd (objs obj) b key = Some rs" by blast+
qed

section \<open>Uploads\<close>

lemma write_records_cases:
  assumes ok: "operator_ok opr objs" and op: "write_records cd opr store v b g rs obj = (res, obj')"
  shows "objs obj \<subseteq>\<^sub>m objs obj'"
    "res = Ok key \<Longrightarrow> \<exists>payload pk m body. prepare cd store b g rs = Ok (payload, pk, m, body, key)
       \<and> objs obj' pk = Some payload \<and> objs obj' key = Some body"
proof -
  have "objs obj \<subseteq>\<^sub>m objs obj' \<and> (\<forall>key. res = Ok key \<longrightarrow> (\<exists>payload pk m body.
      prepare cd store b g rs = Ok (payload, pk, m, body, key)
      \<and> objs obj' pk = Some payload \<and> objs obj' key = Some body))"
  proof (cases "prepare cd store b g rs")
    case (Inl e)
    then show ?thesis using op by (auto simp: write_records_def)
  next
    case (Inr prep)
    obtain payload pk m body mk where prep: "prep = (payload, pk, m, body, mk)" by (metis surj_pair)
    obtain r1 o1 where c1: "create_object_verified opr (v 0) (v 1) pk payload obj = (r1, o1)" by fastforce
    obtain r2 o2 where c2: "create_object_verified opr (v 2) (v 3) mk body o1 = (r2, o2)" by fastforce
    note k1 = create_object_ok [OF ok c1] and k2 = create_object_ok [OF ok c2]
    consider "obj' = o1" "\<exists>e. res = Err e" | "obj' = o2" "\<exists>e. res = Err e"
      | u1 u2 where "obj' = o2" "res = Ok mk" "r1 = Ok u1" "r2 = Ok u2"
      using op Inr prep c1 c2 by (auto simp: write_records_def split: sum.splits)
    then show ?thesis
    proof cases
      case 3
      then have "objs o1 pk = Some payload" "objs o2 mk = Some body" using k1(2) k2(2) by auto
      moreover from this have "objs o2 pk = Some payload" using k2(1) by (auto simp: map_le_def dom_def)
      ultimately show ?thesis using 3 Inr prep k1(1) k2(1) by (auto intro: map_le_trans)
    qed (use k1(1) k2(1) in \<open>auto intro: map_le_trans\<close>)
  qed
  then show "objs obj \<subseteq>\<^sub>m objs obj'"
    "res = Ok key \<Longrightarrow> \<exists>payload pk m body. prepare cd store b g rs = Ok (payload, pk, m, body, key)
       \<and> objs obj' pk = Some payload \<and> objs obj' key = Some body" by blast+
qed

text \<open>Once the payload and the manifest are stored, the key names the records.\<close>

lemma prepared_stored:
  assumes cd: "codec_ok cd" and key: "trim (bk_str (bid_key b)) \<noteq> []"
    and prep: "prepare cd store b g rs = Ok (payload, pk, m, body, mk)"
    and pay: "objects pk = Some payload" and man: "objects mk = Some body"
  shows "stored_records cd objects b mk = Some rs"
  unfolding stored_records_Some
proof (intro exI conjI)
  from prep have v: "validate_records b rs = Ok ()"
    and ser: "serialize cd (od_format store) rs = Ok payload"
    and pk: "pk = content_payload_key store b g (sha256 cd payload)"
    and m: "ArchiveManifest_new cd b g (od_format store) pk rs payload = Ok m"
    and body: "cd_json_manifest cd m = Ok body"
    and mk: "mk = content_manifest_key store b g (sha256 cd body)"
    by (auto simp: prepare_def and_then_eq_Inr Let_def)
  from m have fields: "mf_version m = ARCHIVE_MANIFEST_VERSION" "mf_format m = od_format store"
    "mf_schema_version m = RECORD_SCHEMA_VERSION" "mf_bucket m = b" "mf_payload_key m = pk"
    "mf_record_count m = length rs" "mf_payload_bytes m = length payload" "mf_sha256 m = sha256 cd payload"
    "mf_clustering_key m = CLUSTERING_KEY" "length rs \<le> U64_MAX" "length payload \<le> U64_MAX"
    by (auto simp: ArchiveManifest_new_def and_then_eq_Inr u64_try_from_def split: if_splits)
  from cd body key fields(4) have inv: "cd_manifest_json cd body = Ok m" "length body \<le> U64_MAX"
    by (auto simp: codec_ok_def)
  have "pk \<noteq> []" by (simp add: pk content_payload_key_def)
  show "objects mk = Some body" by (rule man)
  show "parse_manifest cd mk body = Ok m"
    using inv by (simp add: parse_manifest_def mk manifest_digest_key [OF cd])
  show "check_manifest b m = Ok ()"
    using fields \<open>pk \<noteq> []\<close> by (simp add: check_manifest_def manifest_validate_def)
  show "objects (mf_payload_key m) = Some payload" using pay fields by simp
  show "check_records cd b m payload = Ok rs"
    using serialize_roundtrip [OF cd ser] fields v by (simp add: check_records_def verify_payload_def u64_try_from_def)
  show "length body \<le> U64_MAX" by (rule inv)
qed

text \<open>The key under which the records of a generation are published.\<close>

definition od_key :: "codec \<Rightarrow> OpenDalArchiveStore \<Rightarrow> BucketId \<Rightarrow> nat \<Rightarrow> Record list \<Rightarrow> string" where
  "od_key cd store b g rs =
     (case prepare cd store b (Some g) rs of
        Inr (_, _, _, _, key) \<Rightarrow> key
      | Inl _ \<Rightarrow> content_manifest_key store b (Some g) [])"

lemma od_key_digest:
  assumes "codec_ok cd"
  shows "\<exists>d. CHR ''/'' \<notin> set d \<and> od_key cd store b g rs = content_manifest_key store b (Some g) d"
proof (cases "prepare cd store b (Some g) rs")
  case (Inr x)
  then obtain body where "od_key cd store b g rs = content_manifest_key store b (Some g) (sha256 cd body)"
    by (cases x) (auto simp: od_key_def prepare_def and_then_eq_Inr Let_def)
  then show ?thesis using sha256_digits(3) [OF assms] by blast
qed (auto simp: od_key_def intro!: exI [of _ "[]"])

lemma canonical_key_nonblank: "canonical C b \<Longrightarrow> trim (bk_str (bid_key b)) \<noteq> []"
proof -
  assume "canonical C b"
  then obtain t where k: "bid_key b = BucketKey (bucket_key_text C (bid_strategy b) t)"
    using for_event_time_key by (auto simp: canonical_def)
  have "BucketKey_new (bucket_key_text C (bid_strategy b) t) = Ok (bid_key b)"
    using bucket_key_eq [of C "bid_strategy b" t] k by (auto simp: bucket_key_def split: sum.splits)
  then show ?thesis using k by (auto simp: BucketKey_new_def split: if_splits)
qed

lemma opendal_archive_store:
  assumes cd: "codec_ok cd" and opr: "operator_ok opr objs"
  shows "archive_store (opendal_archive cd opr store) (\<lambda>obj. stored_records cd (objs obj)) (\<lambda>_. True)
    (canonical C) (od_key cd store)"
proof (rule archive_store.intro, unfold opendal_archive_def ArchiveStore.select_convs od_put_bucket_generation_def,
    goal_cases)
  case (1 b b' g rs g' rs')
  obtain d d' where "CHR ''/'' \<notin> set d" "CHR ''/'' \<notin> set d'" "content_manifest_key store b (Some g) d
      = content_manifest_key store b' (Some g') d'"
    using od_key_digest [OF cd, of store] 1(3) by metis
  from content_manifest_key_inject [OF this] show ?case using canonical_eq_iff [OF 1(1,2)] by simp
next
  case (3 obj b rs v g res obj' b' k g' rs' x)
  then show ?case using stored_records_mono [OF write_records_cases(1) [OF opr]] by blast
next
  case (4 obj b rs v g k obj')
  from write_records_cases(2) [OF opr 4(5) refl] obtain payload pk m body where
    w: "prepare cd store b (Some g) rs = Ok (payload, pk, m, body, k)"
    "objs obj' pk = Some payload" "objs obj' k = Some body" by blast
  then have "k = od_key cd store b g rs" by (simp add: od_key_def)
  moreover have "stored_records cd (objs obj') b k = Some rs"
    by (rule prepared_stored [OF cd canonical_key_nonblank [OF 4(2)] w])
  ultimately show ?case ..
next
  case (6 obj b v k res obj')
  then show ?case using get_bucket_stored(1) [OF opr] by metis
next
  case (7 obj b k g rs' v rs obj')
  then show ?case using get_bucket_stored(2) [OF opr] by blast
qed simp_all

section \<open>An object store and codecs for the examples\<close>

text \<open>An object store in memory whose calls may fail before or after they take effect.\<close>

datatype fault = NoFault | FailBefore | FailAfter

definition memory_operator :: "(fault, string \<rightharpoonup> byte list) operator" where
  "memory_operator = \<lparr>
     op_write = (\<lambda>v key body objects.
       let created = (if objects key = None then objects(key \<mapsto> body) else objects) in
       case v of
         NoFault \<Rightarrow> (if objects key = None then WriteOk else WriteConditionNotMatch, created)
       | FailBefore \<Rightarrow> (WriteFailed ''refused'', objects)
       | FailAfter \<Rightarrow> (WriteTimeout, created)),
     op_read = (\<lambda>v key objects.
       case v of
         NoFault \<Rightarrow> (case objects key of None \<Rightarrow> (ReadFailed ''not found'', objects) | Some body \<Rightarrow> (ReadOk body, objects))
       | _ \<Rightarrow> (ReadTimeout, objects)) \<rparr>"

lemma memory_operator_ok: "operator_ok memory_operator id"
  by (auto simp: operator_ok_def memory_operator_def Let_def split: fault.splits option.splits if_splits)

text \<open>Codecs that know the records \<open>rs0\<close> and the manifest \<open>m0\<close> and refuse everything else.\<close>

definition small_codec :: "Record list \<Rightarrow> ArchiveManifest \<Rightarrow> codec" where
  "small_codec rs0 m0 = \<lparr>
     cd_digest = (\<lambda>x. replicate 32 (of_nat (length x))),
     cd_json_records = (\<lambda>rs. if rs = rs0 then Ok [1] else Err ''unknown records''),
     cd_records_json = (\<lambda>x. if x = [1] then Ok rs0 else Err ''unknown body''),
     cd_json_manifest = (\<lambda>m. if m = m0 then Ok [2, 2] else Err ''unknown manifest''),
     cd_manifest_json = (\<lambda>x. if x = [2, 2] then Ok m0 else Err ''unknown body''),
     cd_zstd_level = (\<lambda>n. Ok ()),
     cd_batch_try_new = (\<lambda>fields columns.
       if columns \<noteq> [] \<and> list_all (\<lambda>c. column_length c = column_length (hd columns)) columns
       then Ok \<lparr> rb_columns = zip fields columns, rb_rows = column_length (hd columns) \<rparr> else Err ''lengths''),
     cd_parquet_write = (\<lambda>batch. if batch = batch_of rs0 then Ok [3] else Err ''unknown batch''),
     cd_parquet_read = (\<lambda>x. if x = [3] then Ok (map Ok (slices 0 (replicate (length rs0) 1) (batch_of rs0)))
       else Err ''unknown body'') \<rparr>"

lemma rows: "rb_rows (batch_of rs) = length rs"
  by (simp add: batch_of_def)

lemma small_codec_ok: "codec_ok (small_codec rs0 m0)"
  unfolding codec_ok_def
proof (intro conjI allI impI)
  fix batch body
  assume "cd_parquet_write (small_codec rs0 m0) batch = Ok body"
  then have "batch = batch_of rs0" "body = [3]" by (auto simp: small_codec_def split: if_splits)
  moreover have "cd_parquet_read (small_codec rs0 m0) [3]
      = Ok (map Ok (slices 0 (replicate (length rs0) 1) (batch_of rs0)))"
    by (simp add: small_codec_def)
  ultimately show "\<exists>ns. sum_list ns = rb_rows batch
      \<and> cd_parquet_read (small_codec rs0 m0) body = Ok (map Ok (slices 0 ns batch))"
    by (intro exI [of _ "replicate (length rs0) 1"]) (simp add: sum_list_replicate rows)
next
  fix fields columns batch
  assume ok: "cd_batch_try_new (small_codec rs0 m0) fields columns = Ok batch"
  then have eq: "list_all (\<lambda>c. column_length c = column_length (hd columns)) columns"
    "batch = \<lparr> rb_columns = zip fields columns, rb_rows = column_length (hd columns) \<rparr>"
    by (simp_all add: small_codec_def split: if_splits)
  show "rb_columns batch = zip fields columns" by (simp add: eq(2))
  show "\<forall>c \<in> set columns. column_length c = rb_rows batch"
    using eq(1) unfolding eq(2) list_all_iff RecordBatch.select_convs by blast
qed (auto simp: small_codec_def U64_MAX_def split: if_splits)

definition example_store :: OpenDalArchiveStore where
  "example_store = with_format Parquet (with_operator ''archives'' ''/prod/'')"

definition example_records :: "Record list" where
  "example_records = [\<lparr> rec_partition_key = PartitionKey [7], rec_event_time = greg_start 2024 3 5 + 5,
     rec_sort_key = SortKey [1], rec_value = [42] \<rparr>, \<lparr> rec_partition_key = PartitionKey [7],
     rec_event_time = greg_start 2024 3 5 + 9, rec_sort_key = SortKey [1], rec_value = [43] \<rparr>]"

section \<open>The properties of the archive\<close>

text \<open>C21. Both encodings are lossless: what \<open>serialize\<close> writes, \<open>deserialize\<close> reads back as the same records,
  for JSON and for the four Parquet columns, which are read back in batches of any sizes.\<close>

theorem archive_formats_roundtrip:
  assumes "codec_ok cd" and "serialize cd format rs = Ok body"
  shows "deserialize cd format body = Ok rs"
  by (rule serialize_roundtrip [OF assms])

lemma example_serialize: "serialize (small_codec example_records m0) Parquet example_records = Ok [3]"
proof -
  have "collect_results (map (\<lambda>r. ok_or (Other ''archive event time cannot be represented as nanoseconds'')
      (timestamp_nanos_opt (rec_event_time r))) example_records) = Ok (map rec_event_time example_records)"
    by (simp add: example_records_def timestamp_nanos_opt_def greg_start_value I64_MIN_def I64_MAX_def)
  then show ?thesis
    by (simp add: serialize_def serialize_parquet_def small_codec_def batch_of_def comp_def)
qed

theorem archive_formats_roundtrip_witness:
  "deserialize (small_codec example_records undefined) Parquet [3] = Ok example_records"
  by (rule archive_formats_roundtrip [OF small_codec_ok example_serialize])

text \<open>The reads of an operation all answer.\<close>

definition reads_answer :: "('v, 'o) operator \<Rightarrow> ('o \<Rightarrow> (string \<rightharpoonup> byte list)) \<Rightarrow> (nat \<Rightarrow> 'v) \<Rightarrow> bool" where
  "reads_answer opr objs v \<longleftrightarrow>
     (\<forall>n key body obj. objs obj key = Some body \<longrightarrow> fst (op_read opr (v n) key obj) = ReadOk body)"

lemma get_bucket_answers:
  assumes ok: "operator_ok opr objs" and ans: "reads_answer opr objs v"
    and st: "stored_records cd (objs obj) b key = Some rs"
  shows "fst (od_get_bucket cd opr v b key obj) = Ok rs"
proof -
  have read: "\<exists>o'. read_object opr (v n) k o1 = (Ok x, o') \<and> objs o' = objs o1" if "objs o1 k = Some x" for n k x o1
  proof -
    obtain r o' where r: "op_read opr (v n) k o1 = (r, o')" by fastforce
    with ans that have "r = ReadOk x" unfolding reads_answer_def by (metis fst_conv)
    then show ?thesis using r operator_read(1) [OF ok r] by (simp add: read_object_def)
  qed
  from st obtain object m payload where m: "objs obj key = Some object" "parse_manifest cd key object = Ok m"
    "check_manifest b m = Ok ()" "objs obj (mf_payload_key m) = Some payload"
    "check_records cd b m payload = Ok rs" "length object \<le> U64_MAX"
    unfolding stored_records_Some by blast
  obtain o1 where o1: "read_object opr (v 0) key obj = (Ok object, o1)" "objs o1 = objs obj"
    using read [OF m(1)] by blast
  obtain o2 where "read_object opr (v 1) (mf_payload_key m) o1 = (Ok payload, o2)"
    using read [of o1 "mf_payload_key m" payload 1] m(4) o1(2) by auto
  then show ?thesis
    using o1 m by (simp add: od_get_bucket_def read_manifest_records_def u64_try_from_def)
qed

text \<open>Later uploads of any stores, buckets and records to the same object store.\<close>

definition later_uploads ::
    "codec \<Rightarrow> ('v, 'o) operator \<Rightarrow> (OpenDalArchiveStore \<times> (nat \<Rightarrow> 'v) \<times> BucketId \<times> nat option \<times> Record list) list
     \<Rightarrow> 'o \<Rightarrow> 'o" where
  "later_uploads cd opr ups obj =
     fold (\<lambda>(store, v, b, g, rs) obj. snd (write_records cd opr store v b g rs obj)) ups obj"

lemma later_uploads_keep: "operator_ok opr objs \<Longrightarrow> objs obj \<subseteq>\<^sub>m objs (later_uploads cd opr ups obj)"
proof (induction ups arbitrary: obj)
  case (Cons u ups)
  obtain store v b g rs where u: "u = (store, v, b, g, rs)" by (metis surj_pair)
  have "objs obj \<subseteq>\<^sub>m objs (snd (write_records cd opr store v b g rs obj))"
    by (rule write_records_cases(1) [OF Cons.prems surjective_pairing])
  then show ?case
    using Cons.IH [OF Cons.prems, of "snd (write_records cd opr store v b g rs obj)"] u
    by (auto simp: later_uploads_def intro: map_le_trans)
qed (simp add: later_uploads_def)

text \<open>C18. A published archive stays readable: once an upload has returned its manifest key, every later read
  of that key returns exactly the uploaded records or an error of the object store, and it returns the
  records whenever the object store answers, whatever other uploads, failed or successful, came in between.\<close>

theorem published_archive_stays_readable:
  assumes "operator_ok opr objs" and "codec_ok cd" and "canonical C b"
    and "write_records cd opr store v b g rs obj = (Ok key, obj')"
  shows "(\<forall>rs'. fst (od_get_bucket cd opr w b key (later_uploads cd opr ups obj')) = Ok rs' \<longrightarrow> rs' = rs)
    \<and> (reads_answer opr objs w \<longrightarrow> fst (od_get_bucket cd opr w b key (later_uploads cd opr ups obj')) = Ok rs)"
proof -
  from write_records_cases(2) [OF assms(1,4) refl] obtain payload pk m body where
    w: "prepare cd store b g rs = Ok (payload, pk, m, body, key)"
    "objs obj' pk = Some payload" "objs obj' key = Some body" by blast
  have "stored_records cd (objs obj') b key = Some rs"
    by (rule prepared_stored [OF assms(2) canonical_key_nonblank [OF assms(3)] w])
  then have st: "stored_records cd (objs (later_uploads cd opr ups obj')) b key = Some rs"
    by (rule stored_records_mono [OF later_uploads_keep [OF assms(1)]])
  then show ?thesis
    using get_bucket_answers [OF assms(1) _ st] get_bucket_stored(2) [OF assms(1) surjective_pairing]
    by (metis option.inject)
qed


text \<open>C19. A read verifies what it returns: the manifest has the digest that its key names, it describes the
  requested bucket, the payload has the length and digest of the manifest and decodes to the returned
  records, as many as the manifest counts, and they belong to the bucket and are sorted.\<close>

theorem reads_are_verified:
  assumes "operator_ok opr objs" and "fst (od_get_bucket cd opr v b key obj) = Ok rs"
  shows "\<exists>object m payload digest. objs obj key = Some object \<and> cd_manifest_json cd object = Ok m
    \<and> manifest_digest key = Ok digest \<and> (digest = None \<or> digest = Some (sha256 cd object))
    \<and> mf_bucket m = b \<and> objs obj (mf_payload_key m) = Some payload
    \<and> sha256 cd payload = mf_sha256 m \<and> length payload = mf_payload_bytes m
    \<and> deserialize cd (mf_format m) payload = Ok rs \<and> length rs = mf_record_count m
    \<and> list_all (fits b) rs \<and> validate_records b rs = Ok ()"
proof -
  from get_bucket_stored(2) [OF assms(1) surjective_pairing assms(2)]
  obtain object m payload where m: "objs obj key = Some object" "parse_manifest cd key object = Ok m"
    "check_manifest b m = Ok ()" "objs obj (mf_payload_key m) = Some payload" "check_records cd b m payload = Ok rs"
    unfolding stored_records_Some by blast
  have "validate_records b rs = Ok ()" "deserialize cd (mf_format m) payload = Ok rs" "length rs = mf_record_count m"
    "sha256 cd payload = mf_sha256 m" "length payload = mf_payload_bytes m"
    using m(5) by (auto simp: check_records_def verify_payload_def u64_try_from_def and_then_eq_Inr split: if_splits)
  moreover from this(1) have "list_all (fits b) rs"
    by (auto simp: validate_records_def list_all_iff list_ex_iff fits_def split: if_splits)
  moreover have "mf_bucket m = b"
    using m(3) by (auto simp: check_manifest_def and_then_eq_Inr split: if_splits)
  moreover obtain digest where "manifest_digest key = Ok digest" "digest = None \<or> digest = Some (sha256 cd object)"
    "cd_manifest_json cd object = Ok m"
    using m(2) by (auto simp: parse_manifest_def and_then_eq_Inr split: if_splits option.splits)
  ultimately show ?thesis using m(1,4) by blast
qed

section \<open>An upload and its reads\<close>

definition example_payload_key :: string where
  "example_payload_key = content_payload_key example_store (year_bucket 2024) (Some 2)
     (concat (map hex_byte (replicate 32 1)))"

definition example_manifest :: ArchiveManifest where
  "example_manifest = \<lparr> mf_version = 4, mf_format = Parquet, mf_schema_version = 2, mf_bucket = year_bucket 2024,
     mf_generation = Some 2, mf_payload_key = example_payload_key, mf_record_count = 2, mf_payload_bytes = 1,
     mf_sha256 = concat (map hex_byte (replicate 32 1)), mf_clustering_key = CLUSTERING_KEY \<rparr>"

definition example_key :: string where
  "example_key = content_manifest_key example_store (year_bucket 2024) (Some 2)
     (concat (map hex_byte (replicate 32 2)))"

abbreviation example_codec :: codec where
  "example_codec \<equiv> small_codec example_records example_manifest"

lemma small_sha256 [simp]: "sha256 (small_codec rs0 m0) x = concat (replicate 32 (hex_byte (of_nat (length x))))"
  by (simp add: sha256_def small_codec_def)

lemma example_length: "length example_records = 2"
  by (simp add: example_records_def)

lemma example_prepare:
  "prepare example_codec example_store (year_bucket 2024) (Some 2) example_records
   = Ok ([3], example_payload_key, example_manifest, [2, 2], example_key)"
proof -
  have v: "validate_records (year_bucket 2024) example_records = Ok ()"
    using greg_start_value
    by (simp add: validate_records_def example_records_def year_bucket_def bid_contains_def ckey_def)
  have f: "od_format example_store = Parquet" by (simp add: example_store_def with_format_def)
  have "ArchiveManifest_new example_codec (year_bucket 2024) (Some 2) Parquet example_payload_key example_records [3]
      = Ok example_manifest"
    by (simp add: ArchiveManifest_new_def u64_try_from_def U64_MAX_def example_length)
      (simp add: example_manifest_def ARCHIVE_MANIFEST_VERSION_def RECORD_SCHEMA_VERSION_def)
  moreover have "cd_json_manifest example_codec example_manifest = Ok [2, 2]" by (simp add: small_codec_def)
  ultimately show ?thesis
    using v example_serialize [of example_manifest]
    by (simp add: prepare_def f Let_def example_payload_key_def example_key_def)
qed

lemma example_keys: "example_payload_key \<noteq> example_key"
  by (simp add: example_payload_key_def example_key_def content_payload_key_def content_manifest_key_def)

lemma example_upload:
  "write_records example_codec memory_operator example_store (\<lambda>_. NoFault) (year_bucket 2024) (Some 2)
     example_records Map.empty = (Ok example_key, [example_payload_key \<mapsto> [3], example_key \<mapsto> [2, 2]])"
proof -
  have c1: "create_object_verified memory_operator NoFault NoFault example_payload_key [3] Map.empty
      = (Ok [3], [example_payload_key \<mapsto> [3]])"
    and c2: "create_object_verified memory_operator NoFault NoFault example_key [2, 2] [example_payload_key \<mapsto> [3]]
      = (Ok [2, 2], [example_payload_key \<mapsto> [3], example_key \<mapsto> [2, 2]])"
    using example_keys by (simp_all add: create_object_verified_def read_object_def memory_operator_def Let_def)
  have sha: "sha256 example_codec [3] = mf_sha256 example_manifest"
    by simp (simp add: example_manifest_def)
  have "deserialize example_codec Parquet [3] = Ok example_records"
    by (rule serialize_roundtrip [OF small_codec_ok example_serialize])
  then have "check_uploaded_payload example_codec example_store example_manifest [3] = Ok ()"
    by (simp add: check_uploaded_payload_def verify_payload_def u64_try_from_def U64_MAX_def sha
        example_store_def with_format_def) (simp add: example_manifest_def example_length)
  moreover have "check_uploaded_manifest example_codec example_manifest [2, 2] = Ok ()"
    by (simp add: check_uploaded_manifest_def small_codec_def manifest_validate_def)
      (simp add: example_manifest_def ARCHIVE_MANIFEST_VERSION_def RECORD_SCHEMA_VERSION_def
        example_payload_key_def content_payload_key_def)
  ultimately show ?thesis by (simp add: write_records_def example_prepare c1 c2)
qed

lemma example_canonical: "canonical gregorian (year_bucket 2024)"
  by (rule year_bucket_canonical) (simp_all add: in_years_def)

lemma memory_reads: "reads_answer memory_operator id (\<lambda>_. NoFault)"
  by (simp add: reads_answer_def memory_operator_def)

definition example_ups ::
    "(OpenDalArchiveStore \<times> (nat \<Rightarrow> fault) \<times> BucketId \<times> nat option \<times> Record list) list" where
  "example_ups = [(example_store, (\<lambda>_. FailAfter), year_bucket 2024, Some 2, example_records)]"

theorem published_archive_stays_readable_witness:
  "fst (od_get_bucket example_codec memory_operator (\<lambda>_. NoFault) (year_bucket 2024) example_key
     (later_uploads example_codec memory_operator example_ups
       [example_payload_key \<mapsto> [3], example_key \<mapsto> [2, 2]])) = Ok example_records"
  using published_archive_stays_readable [OF memory_operator_ok small_codec_ok example_canonical example_upload,
      of "\<lambda>_. NoFault" example_ups] memory_reads by blast


theorem reads_are_verified_witness:
  "\<exists>object m payload digest. [example_payload_key \<mapsto> [3], example_key \<mapsto> [2, 2]] example_key = Some object
    \<and> cd_manifest_json example_codec object = Ok m
    \<and> manifest_digest example_key = Ok digest \<and> (digest = None \<or> digest = Some (sha256 example_codec object))
    \<and> mf_bucket m = year_bucket 2024
    \<and> [example_payload_key \<mapsto> [3], example_key \<mapsto> [2, 2]] (mf_payload_key m) = Some payload
    \<and> sha256 example_codec payload = mf_sha256 m \<and> length payload = mf_payload_bytes m
    \<and> deserialize example_codec (mf_format m) payload = Ok example_records \<and> length example_records = mf_record_count m
    \<and> list_all (fits (year_bucket 2024)) example_records
    \<and> validate_records (year_bucket 2024) example_records = Ok ()"
proof -
  have "stored_records example_codec [example_payload_key \<mapsto> [3], example_key \<mapsto> [2, 2]] (year_bucket 2024) example_key
      = Some example_records"
    by (rule prepared_stored [OF small_codec_ok canonical_key_nonblank [OF example_canonical] example_prepare])
      (use example_keys in simp_all)
  from get_bucket_answers [OF memory_operator_ok memory_reads] this
  have "fst (od_get_bucket example_codec memory_operator (\<lambda>_. NoFault) (year_bucket 2024) example_key
      [example_payload_key \<mapsto> [3], example_key \<mapsto> [2, 2]]) = Ok example_records" by simp
  from reads_are_verified [OF memory_operator_ok this] show ?thesis by simp
qed

end
