(* ===== verification/Archive_Fleet.thy ===== *)
theory Archive_Fleet
  imports Archive_Cache Opendal_Contract
begin

text \<open>
  Processes that share one archive, each behind a read cache of its own. The documentation of the cache asks
  for an archive whose published objects are immutable; the locale \<open>immutable_archive\<close> states that, the
  object-store archive has it, and under it every cache of the fleet stays coherent, so that the fleet keeps
  the contract of the port.
\<close>

record 'a archive_fleet =
  af_archive :: 'a
  af_caches :: "nat \<Rightarrow> cache"

definition on_cache :: "nat \<Rightarrow> ('a \<times> cache \<Rightarrow> 'r \<times> 'a \<times> cache) \<Rightarrow> 'a archive_fleet \<Rightarrow> 'r \<times> 'a archive_fleet" where
  "on_cache p op s =
     (case op (af_archive s, af_caches s p) of (res, a, c) \<Rightarrow>
        (res, \<lparr> af_archive = a, af_caches = (af_caches s)(p := c) \<rparr>))"

definition fleet_archive ::
    "nat \<Rightarrow> nat \<Rightarrow> nat \<Rightarrow> ('f, 'a) ArchiveStore \<Rightarrow> (nat \<times> 'f, 'a archive_fleet) ArchiveStore" where
  "fleet_archive sz mb me A = (let K = cached_archive sz mb me A in \<lparr>
     as_put_bucket = (\<lambda>(p, f) b rs. on_cache p (as_put_bucket K f b rs)),
     as_put_bucket_generation = (\<lambda>(p, f) b g rs. on_cache p (as_put_bucket_generation K f b g rs)),
     as_get_bucket = (\<lambda>(p, f) b k. on_cache p (as_get_bucket K f b k)) \<rparr>)"

lemma fleet_archive_ops:
  "as_put_bucket_generation (fleet_archive sz mb me A) pf b g rs
   = on_cache (fst pf) (cached_put_bucket_generation A (snd pf) b g rs)"
  "as_get_bucket (fleet_archive sz mb me A) pf b k = on_cache (fst pf) (cached_get_bucket sz mb me A (snd pf) b k)"
  by (simp_all add: fleet_archive_def cached_archive_def Let_def split_beta)

locale immutable_archive = archive_store A content ainv valid akey
  for A :: "('f, 'a) ArchiveStore" and content ainv valid akey +
  assumes put_immutable: "\<lbrakk> ainv a; valid b; list_all (fits b) rs; sorted_by ckey rs;
      as_put_bucket_generation A f b g rs a = (pres, a'); content a b' k = Some x \<rbrakk> \<Longrightarrow> content a' b' k = Some x"
begin

definition caches_inv :: "'a archive_fleet \<Rightarrow> bool" where
  "caches_inv s \<longleftrightarrow> (\<forall>p. cached_inv (af_archive s, af_caches s p))"

lemma on_cache_cases:
  assumes "on_cache p op s = (res, s')"
  obtains a c where "op (af_archive s, af_caches s p) = (res, a, c)" "af_archive s' = a"
    "af_caches s' = (af_caches s)(p := c)"
  using assms by (auto simp: on_cache_def split: prod.splits)

lemma caches_inv_update:
  assumes inv: "caches_inv s" and new: "cached_inv (a, c)" and s': "af_archive s' = a" "af_caches s' = (af_caches s)(p := c)"
    and mono: "\<And>b k x. content (af_archive s) b k = Some x \<Longrightarrow> content a b k = Some x"
  shows "caches_inv s'"
  unfolding caches_inv_def
proof
  fix q
  show "cached_inv (af_archive s', af_caches s' q)"
  proof (cases "q = p")
    case False
    then have "keyed (ca_state (af_caches s q))" "coherent (af_archive s) (af_caches s q)"
      using inv by (auto simp: caches_inv_def cached_inv_def)
    then show ?thesis
      using False new s' mono unfolding cached_inv_def coherent_def by auto
  qed (use new s' in simp)
qed

lemma fleet_put:
  assumes inv: "caches_inv s" and b: "valid b" and rs: "list_all (fits b) rs" "sorted_by ckey rs"
    and op: "on_cache p (cached_put_bucket_generation A f b g rs) s = (res, s')"
  shows "caches_inv s'" "as_put_bucket_generation A f b g rs (af_archive s) = (res, af_archive s')"
proof -
  have i: "cached_inv (af_archive s, af_caches s p)" "ainv (af_archive s)"
    using inv by (auto simp: caches_inv_def cached_inv_def)
  from op obtain a c where c: "cached_put_bucket_generation A f b g rs (af_archive s, af_caches s p) = (res, a, c)"
    "af_archive s' = a" "af_caches s' = (af_caches s)(p := c)" by (rule on_cache_cases)
  from cached_put_cases(2) [OF i(1) b rs c(1)]
  show put: "as_put_bucket_generation A f b g rs (af_archive s) = (res, af_archive s')" using c(2) by simp
  show "caches_inv s'"
    by (rule caches_inv_update [OF inv cached_put_cases(1) [OF i(1) b rs c(1)] c(2,3)])
      (use put_immutable [OF i(2) b rs put] c(2) in simp)
qed

lemma fleet_get:
  assumes inv: "caches_inv s" and b: "valid b" and op: "on_cache p (cached_get_bucket sz mb me A f b k) s = (res, s')"
  shows "caches_inv s'" "content (af_archive s') = content (af_archive s)"
    "k = akey b g rs' \<Longrightarrow> res = Ok rs \<Longrightarrow> content (af_archive s) b k = Some rs"
proof -
  have i: "cached_inv (af_archive s, af_caches s p)" using inv by (auto simp: caches_inv_def)
  from op obtain a c where c: "cached_get_bucket sz mb me A f b k (af_archive s, af_caches s p) = (res, a, c)"
    "af_archive s' = a" "af_caches s' = (af_caches s)(p := c)" by (rule on_cache_cases)
  note get = cached_get_cases [OF i b c(1)]
  show same: "content (af_archive s') = content (af_archive s)" using get(2) c(2) by simp
  show "caches_inv s'" by (rule caches_inv_update [OF inv get(1) c(2,3)]) (use same c(2) in simp)
  show "k = akey b g rs' \<Longrightarrow> res = Ok rs \<Longrightarrow> content (af_archive s) b k = Some rs" using get(3) by simp
qed

lemma fleet_archive_store:
  "archive_store (fleet_archive sz mb me A) (\<lambda>s. content (af_archive s)) caches_inv valid akey"
proof (unfold_locales, unfold fleet_archive_ops, goal_cases)
  case (1 b b' g rs g' rs')
  then show ?case using akey_inj by blast
next
  case (3 s b rs f g res s' b' k g' rs' x)
  then have i: "ainv (af_archive s)" by (simp add: caches_inv_def cached_inv_def)
  show ?case using put_keeps [OF i 3(2-4) fleet_put(2) [OF 3(1-5)] 3(6-8)] .
next
  case (4 s b rs f g k s')
  then have i: "ainv (af_archive s)" by (simp add: caches_inv_def cached_inv_def)
  show ?case using put_ok [OF i 4(2-4) fleet_put(2) [OF 4(1-5)]] .
qed (blast intro: fleet_put(1) fleet_get(1,2,3))+

end

section \<open>The object store is immutable\<close>

lemma opendal_immutable:
  assumes cd: "codec_ok cd" and opr: "operator_ok opr objs"
  shows "immutable_archive (opendal_archive cd opr store) (\<lambda>obj. stored_records cd (objs obj)) (\<lambda>_. True)
    (canonical C) (od_key cd store)"
proof (rule immutable_archive.intro [OF opendal_archive_store [OF assms]], unfold_locales)
  fix a b rs f g pres a' b' k x
  assume "as_put_bucket_generation (opendal_archive cd opr store) f b g rs a = (pres, a')"
    and st: "stored_records cd (objs a) b' k = Some x"
  then have "write_records cd opr store f b (Some g) rs a = (pres, a')"
    by (simp add: opendal_archive_def od_put_bucket_generation_def)
  from write_records_cases(1) [OF opr this] st show "stored_records cd (objs a') b' k = Some x"
    by (rule stored_records_mono)
qed

interpretation odm: immutable_archive "opendal_archive (small_codec rs0 m0) memory_operator store"
    "\<lambda>obj. stored_records (small_codec rs0 m0) (id obj)" "\<lambda>_. True" "canonical C" "od_key (small_codec rs0 m0) store"
    for C rs0 m0 store
  by (rule opendal_immutable [OF small_codec_ok memory_operator_ok])

end
