(* ===== verification/Memory_System.thy ===== *)
theory Memory_System
  imports Table_Reads Memory_Store
begin

text \<open>
  The library on the two in-memory stores: the interpretation of \<open>archival_system\<close>, and with it what the
  whole system promises in every configuration that its tasks can reach, whatever their interleaving.
\<close>

section \<open>The interpretation\<close>

interpretation ims: archival_system in_memory_store im_view "im_inv (canonical C)" "canonical C" "\<lambda>_. True"
    "\<lambda>_ _ _. True"
    in_memory_archive im_content "\<lambda>_. True" "\<lambda>b g rs. im_generation_key b g" for C
  ..

definition memory_reachable :: "chrono \<Rightarrow> (im_store, im_archive) config \<Rightarrow> bool" where
  "memory_reachable C c \<longleftrightarrow>
     reachable in_memory_store in_memory_archive (library_task C (\<lambda>_. True)) [] [] c"

lemma im_view_empty: "im_view [] b = \<lparr> v_state = Hot, v_gen = 0, v_recs = [] \<rparr>"
  by (simp add: im_view_def entry_view_def default_entry_def)

lemma memory_inv:
  assumes "memory_reachable C c" and "utc_calendar C"
  shows "ims.sys_inv C c"
  by (rule ims.sys_inv_reachable [OF assms(1) [unfolded memory_reachable_def]])
    (use assms(2) in \<open>auto simp: library_task_disciplined im_inv_def im_view_empty\<close>)

lemma memory_answering: "ims.answering C W rng after limit"
  unfolding ims.answering_def
  by (auto simp: in_memory_store_def in_memory_archive_def im_read_range_def im_get_bucket_def
      im_content_def list_all_iff list_ex_iff split: option.splits BucketState.splits if_splits)

section \<open>Example configurations\<close>

definition message :: "int \<Rightarrow> Record" where
  "message k = \<lparr> rec_partition_key = PartitionKey [7], rec_event_time = greg_start 2024 3 5 + k,
     rec_sort_key = SortKey [1], rec_value = [42] \<rparr>"

definition example_answers :: "(im_env, unit) answers" where
  "example_answers = \<lparr> w_store = \<lparr> env_now = 0, env_now2 = 0, env_uuid = ''token'' \<rparr>, w_archive = (),
     w_renewal = None, w_now = greg_start 2024 3 5 + 77, w_choice = 0 \<rparr>"

lemma message_bucket:
  assumes "0 \<le> k" and "k < DAY"
  shows "bucket_for gregorian chat_example (message k) = Some (year_bucket 2024)"
    "c_rep gregorian (rec_event_time (message k))"
  using year_bucket_for [of 2024 3 5 k] gregorian_start(1) [of 2024 3 5 k] assms
  by (simp_all add: bucket_for_def message_def date_simps)

lemma example_window:
  "writable_buckets_at gregorian chat_example (PartitionKey [7]) (greg_start 2024 3 5 + 77)
   = Some [year_bucket 2023, year_bucket 2024]"
proof -
  have ch: "bucket_chain gregorian chat_example (PartitionKey [7]) ([year_bucket 2023] @ [year_bucket 2024])"
    using year_bucket_for [of 2023 1 1 0] year_bucket_for [of 2024 1 1 0]
      gregorian_start(1) [of 2023 1 1 0] gregorian_start(1) [of 2024 1 1 0]
    by (auto simp: bucket_chain_def date_simps year_bucket_def)
  have "bucket_for_event_time gregorian chat_example (PartitionKey [7]) (greg_start 2024 3 5 + 77)
      = Some (year_bucket 2024)"
    by (rule year_bucket_for) (simp_all add: date_simps)
  from greg.recent_buckets_chain [OF ch this, of 2] show ?thesis
    by (simp add: writable_buckets_at_def chat_example_def)
qed

text \<open>A task that reads the clock and then appends.\<close>

lemma append_program_reaches:
  fixes ans :: "('e, 'f) answers" and A :: "('f, 'a) ArchiveStore"
  assumes "reachable S A T s0 a0 c" and "cf_tasks c i = None" and "T (Now k)" and "k (w_now ans) = Append b r k'"
    and op: "ds_append S (w_store ans) b r (cf_store c) = (Ok (), s')"
  shows "\<exists>c' t. reachable S A T s0 a0 c' \<and> cf_store c' = s' \<and> cf_archive c' = cf_archive c
    \<and> cf_tasks c' = (cf_tasks c)(i \<mapsto> t) \<and> cf_acked c' = (cf_acked c)(b := add_mset r (cf_acked c b))"
proof -
  let ?p = "Now k" and ?q = "Append b r k'"
  define c1 where "c1 = c\<lparr> cf_tasks := (cf_tasks c)(i \<mapsto> ?p) \<rparr>"
  define c2 where "c2 = c\<lparr> cf_tasks := (cf_tasks c)(i \<mapsto> ?q) \<rparr>"
  define c3 where "c3 = c2\<lparr> cf_store := s', cf_tasks := (cf_tasks c2)(i \<mapsto> k' (Ok ())),
    cf_attempted := note_attempt ?q (cf_attempted c2),
    cf_acked := note_ack S (w_store ans) (cf_store c2) ?q (cf_acked c2) \<rparr>"
  have "sys_step S A T c c1" unfolding c1_def by (intro sys_step.spawn assms(2,3))
  moreover have "sys_step S A T c1 c2"
    using sys_step.advance [of c1 i ?p S A ans ?q "cf_store c1" "cf_archive c1" T] assms(4)
    by (simp add: c1_def c2_def)
  moreover have "sys_step S A T c2 c3"
    unfolding c3_def using sys_step.advance [of c2 i ?q S A ans "k' (Ok ())" s' "cf_archive c2" T] op
    by (simp add: c2_def)
  ultimately have "reachable S A T s0 a0 c3"
    using assms(1) unfolding reachable_def by (meson rtranclp.rtrancl_into_rtrancl)
  then show ?thesis
    using op by (intro exI [of _ c3] exI [of _ "k' (Ok ())"]) (simp add: c3_def c2_def)
qed

lemma append_message:
  assumes "0 \<le> k" and "k < DAY"
  obtains k0 where "table_append gregorian chat_example (message k) = Now k0"
    "k0 (greg_start 2024 3 5 + 77) = Append (year_bucket 2024) (message k) (\<lambda>res. Done (map_err (append_error (year_bucket 2024)) res))"
  using that example_window greg_start_value
  by (simp add: table_append_def message_bucket(1) [OF assms] year_bucket_def Let_def)

lemma append_reaches:
  fixes ans :: "('e, 'f) answers" and A :: "('f, 'a) ArchiveStore"
  assumes "reachable S A (library_task gregorian R) s0 a0 c" and "cf_tasks c i = None" and k: "0 \<le> k" "k < DAY"
    and "R (message k)" and now: "w_now ans = greg_start 2024 3 5 + 77"
    and op: "ds_append S (w_store ans) (year_bucket 2024) (message k) (cf_store c) = (Ok (), s')"
  shows "\<exists>c' r. reachable S A (library_task gregorian R) s0 a0 c' \<and> cf_store c' = s' \<and> cf_archive c' = cf_archive c
    \<and> cf_tasks c' = (cf_tasks c)(i \<mapsto> r)
    \<and> cf_acked c' = (cf_acked c)(year_bucket 2024 := add_mset (message k) (cf_acked c (year_bucket 2024)))"
proof -
  obtain k0 where k0: "table_append gregorian chat_example (message k) = Now k0"
    "k0 (greg_start 2024 3 5 + 77) = Append (year_bucket 2024) (message k) (\<lambda>res. Done (map_err (append_error (year_bucket 2024)) res))"
    using k by (rule append_message)
  have "library_task gregorian R (detach (table_append gregorian chat_example (message k)))"
    by (intro library_task.append_task message_bucket(2) k assms(5))
  with append_program_reaches [OF assms(1,2) _ _ op, where k = "\<lambda>now. detach (k0 now)"] k0 now show ?thesis
    by (simp add: detach_def)
qed

lemma example_append:
  assumes "memory_reachable gregorian c" and "cf_tasks c i = None" and "0 \<le> k" and "k < DAY"
    and op: "im_append (w_store example_answers) (year_bucket 2024) (message k) (cf_store c) = (Ok (), s')"
  shows "\<exists>c' r. memory_reachable gregorian c' \<and> cf_store c' = s' \<and> cf_archive c' = cf_archive c
    \<and> cf_tasks c' = (cf_tasks c)(i \<mapsto> r)
    \<and> cf_acked c' = (cf_acked c)(year_bucket 2024 := add_mset (message k) (cf_acked c (year_bucket 2024)))"
  using append_reaches [of in_memory_store in_memory_archive "\<lambda>_. True" "[]" "[]" c i k example_answers s'] assms
  by (simp add: memory_reachable_def in_memory_store_def example_answers_def)

lemma two_messages:
  "\<exists>c. memory_reachable gregorian c
     \<and> cf_store c = [(year_bucket 2024, default_entry\<lparr> ent_records := [message 5, message 9] \<rparr>)]
     \<and> cf_archive c = [] \<and> cf_acked c (year_bucket 2024) = {# message 5, message 9 #}"
proof -
  have "memory_reachable gregorian (sys_init [] [])" by (simp add: memory_reachable_def reachable_def)
  from example_append [OF this, of 0 5]
  obtain c1 r where c1: "memory_reachable gregorian c1" "cf_archive c1 = []" "cf_tasks c1 = [0 \<mapsto> r]"
    "cf_store c1 = [(year_bucket 2024, default_entry\<lparr> ent_records := [message 5] \<rparr>)]"
    "cf_acked c1 (year_bucket 2024) = {# message 5 #}"
    by (auto simp: sys_init_def im_append_def or_default_def default_entry_def DAY_def)
  have "ckey (message 5) \<le> ckey (message 9)" by (simp add: ckey_def message_def)
  with example_append [OF c1(1), of 1 9] c1(2-5) show ?thesis
    by (auto simp: im_append_def or_default_def default_entry_def DAY_def)
qed

lemma two_years_rep:
  "range_rep gregorian chat_example \<lparr> tr_start = greg_start 2023 1 1, tr_end = greg_start 2025 1 1 \<rparr>"
proof -
  let ?l = "greg_start 2024 12 31 + (DAY - 1)"
  have l: "greg_start 2025 1 1 - 1 = ?l"
    by (simp add: greg_start_def day_number_def days_before_year_def days_before_month_def leap_def
        EPOCH_def DAY_def)
  have "c_rep gregorian (greg_start 2023 1 1)" "c_rep gregorian ?l"
    using gregorian_start(1) [of 2023 1 1 0] gregorian_start(1) [of 2024 12 31 "DAY - 1"]
    by (simp_all add: date_simps)
  moreover have "bucket_bounds gregorian CalendarYearUtc ?l = Some (greg_start 2024 1 1, greg_start 2025 1 1)"
    using year_bucket_bounds [of 2024 12 31 "DAY - 1"] by (simp add: date_simps)
  moreover have "bucket_bounds gregorian CalendarYearUtc (greg_start 2025 1 1) \<noteq> None"
    using year_bucket_bounds [of 2025 1 1 0] by (simp add: date_simps)
  moreover have "greg_start 2023 1 1 < greg_start 2025 1 1" by (simp add: greg_start_value del: One_nat_def)
  ultimately show ?thesis
    unfolding range_rep_def TimeRange.select_convs l by (auto simp: chat_example_def)
qed

section \<open>What the system promises\<close>

text \<open>C4. An acknowledged record is never lost, and no record appears that was not appended: in every
  configuration that appends, queries, direct archivals, recovery cycles and lease renewers can reach in
  any interleaving, with any of them cancelled at any \<open>await\<close>, the records that a bucket routes to, hot or
  archived, contain every acknowledged record as often as it was acknowledged and only records whose
  append was attempted.\<close>

theorem acknowledged_records_survive:
  assumes "memory_reachable C c" and "utc_calendar C" and "canonical C b"
  shows "\<exists>rs. logical im_content (cf_archive c) b (im_view (cf_store c) b) = Some rs
    \<and> cf_acked c b \<subseteq># mset rs \<and> mset rs \<subseteq># cf_attempted c b"
  by (rule ims.no_record_lost [OF assms(1) [unfolded memory_reachable_def]])
    (use assms in \<open>auto simp: library_task_disciplined im_inv_def im_view_empty\<close>)

theorem acknowledged_records_survive_witness:
  "\<exists>c. memory_reachable gregorian c \<and> cf_acked c (year_bucket 2024) = {# message 5, message 9 #}
     \<and> (\<exists>rs. logical im_content (cf_archive c) (year_bucket 2024) (im_view (cf_store c) (year_bucket 2024)) = Some rs
          \<and> cf_acked c (year_bucket 2024) \<subseteq># mset rs \<and> mset rs \<subseteq># cf_attempted c (year_bucket 2024))"
proof -
  obtain c where c: "memory_reachable gregorian c" "cf_acked c (year_bucket 2024) = {# message 5, message 9 #}"
    using two_messages by blast
  have "canonical gregorian (year_bucket 2024)" by (rule year_bucket_canonical) (simp_all add: in_years_def)
  from acknowledged_records_survive [OF c(1) greg.utc_calendar_axioms this] c show ?thesis by blast
qed

lemma memory_query_page:
  assumes "memory_reachable C c" and "utc_calendar C" and "range_rep C td (q_range q)"
    and "buckets_for_range C td (q_partition_key q) (q_range q) = Some bs"
    and "q_limit q < USIZE_MAX
      \<or> q_limit q = USIZE_MAX \<and> length (table_records im_content im_view c bs) \<le> USIZE_MAX"
    and "ims.routed C s a (\<lambda>b. the (logical im_content (cf_archive c) b (im_view (cf_store c) b)))"
  shows "\<exists>page m s' a'. run in_memory_store in_memory_archive W (query_page C td q) n s a = (Some (Ok page), m, s', a')
    \<and> page_exact q (table_records im_content im_view c bs) page
    \<and> ims.routed C s' a' (\<lambda>b. the (logical im_content (cf_archive c) b (im_view (cf_store c) b)))"
  using ims.query_page_reachable [OF memory_inv [OF assms(1,2)] assms(2) _ assms(3-5) TrueI assms(6), of W n] memory_answering
  by (auto split: prod.splits)

lemma range_rep_buckets:
  "utc_calendar C \<Longrightarrow> range_rep C td rng \<Longrightarrow> \<exists>bs. buckets_for_range C td pk rng = Some bs"
  unfolding range_rep_def using utc_calendar.buckets_for_range_chain by blast

lemma range_rep_chain:
  assumes "utc_calendar C" and "range_rep C td rng" and "buckets_for_range C td pk rng = Some bs"
  shows "bucket_chain C td pk bs" "bs \<noteq> []" "bid_contains (hd bs) (tr_start rng)"
    "bid_contains (last bs) (tr_end rng - 1)"
proof -
  obtain a F where "c_rep C (tr_start rng)" "c_rep C (tr_end rng - 1)" "tr_start rng < tr_end rng"
    "bucket_bounds C (td_bucket_strategy td) (tr_end rng - 1) = Some (a, F)"
    "bucket_bounds C (td_bucket_strategy td) F \<noteq> None"
    using assms(2) by (auto simp: range_rep_def)
  from utc_calendar.buckets_for_range_chain [OF assms(1) this, of pk] assms(3)
  show "bucket_chain C td pk bs" "bs \<noteq> []" "bid_contains (hd bs) (tr_start rng)"
    "bid_contains (last bs) (tr_end rng - 1)" by auto
qed

lemma range_rep_member:
  assumes "utc_calendar C" and "range_rep C td rng" and "buckets_for_range C td pk rng = Some bs"
    and "tr_contains rng t" and "bucket_for_event_time C td pk t = Some b"
  shows "b \<in> set bs"
proof -
  note ch = range_rep_chain [OF assms(1-3)]
  have rep: "c_rep C (tr_start rng)" "c_rep C (tr_end rng - 1)" "tr_start rng \<le> tr_end rng - 1"
    using assms(2) by (auto simp: range_rep_def)
  have "tr_start rng \<le> t" "t \<le> tr_end rng - 1" using assms(4) by (auto simp: tr_contains_def)
  then show ?thesis
    using utc_calendar.chain_set [OF assms(1) ch(1,2) rep(3,1,2) ch(3,4)] assms(5) by blast
qed

text \<open>C6. A page is exact: in every reachable configuration, and whatever order the scheduler completes the
  parallel bucket reads in, a query returns the first \<open>limit\<close> records of its range after its cursor, in the
  declared order over all buckets and both tiers, and offers a continuation exactly when records remain.\<close>

theorem query_page_exact:
  assumes "memory_reachable C c" and "utc_calendar C" and "range_rep C td (q_range q)" and "q_limit q < USIZE_MAX"
  shows "\<exists>bs page m s' a'. buckets_for_range C td (q_partition_key q) (q_range q) = Some bs
    \<and> run in_memory_store in_memory_archive W (query_page C td q) n (cf_store c) (cf_archive c)
        = (Some (Ok page), m, s', a')
    \<and> page_exact q (table_records im_content im_view c bs) page"
  using range_rep_buckets [OF assms(2,3), of "q_partition_key q"]
    memory_query_page [OF assms(1-3) _ _ ims.sys_inv_routed(1) [OF memory_inv [OF assms(1,2)]], of _ W n] assms(4)
  by blast

theorem query_page_exact_witness:
  "\<exists>c bs page m s' a'. memory_reachable gregorian c \<and> cf_acked c (year_bucket 2024) = {# message 5, message 9 #}
     \<and> buckets_for_range gregorian chat_example (PartitionKey [7])
          \<lparr> tr_start = greg_start 2023 1 1, tr_end = greg_start 2025 1 1 \<rparr> = Some bs
     \<and> run in_memory_store in_memory_archive (\<lambda>_. example_answers)
          (query_page gregorian chat_example \<lparr> q_partition_key = PartitionKey [7],
             q_range = \<lparr> tr_start = greg_start 2023 1 1, tr_end = greg_start 2025 1 1 \<rparr>, q_after = None, q_limit = 1 \<rparr>)
          0 (cf_store c) (cf_archive c) = (Some (Ok page), m, s', a')
     \<and> page_exact \<lparr> q_partition_key = PartitionKey [7],
          q_range = \<lparr> tr_start = greg_start 2023 1 1, tr_end = greg_start 2025 1 1 \<rparr>, q_after = None, q_limit = 1 \<rparr>
          (table_records im_content im_view c bs) page"
proof -
  obtain c where c: "memory_reachable gregorian c" "cf_acked c (year_bucket 2024) = {# message 5, message 9 #}"
    using two_messages by blast
  from query_page_exact [OF c(1) greg.utc_calendar_axioms, of chat_example "\<lparr> q_partition_key = PartitionKey [7],
      q_range = \<lparr> tr_start = greg_start 2023 1 1, tr_end = greg_start 2025 1 1 \<rparr>, q_after = None, q_limit = 1 \<rparr>"
      "\<lambda>_. example_answers" 0] two_years_rep c
  show ?thesis by (auto simp: USIZE_MAX_def)
qed

text \<open>The records of a table are sorted in the declared order.\<close>

lemma table_records_sorted:
  assumes "memory_reachable C c" and "utc_calendar C" and "range_rep C td rng"
    and "buckets_for_range C td pk rng = Some bs"
  shows "sorted_by ckey (table_records im_content im_view c bs)"
proof -
  note ch = range_rep_chain(1) [OF assms(2-4)]
  have "canonical C b" if "b \<in> set bs" for b
    using buckets_for_range_derives [OF assms(2) _ assms(4) that] derives_canonical assms(3)
    by (auto simp: range_rep_def)
  then have fit: "list_all (fits b) (the (logical im_content (cf_archive c) b (im_view (cf_store c) b)))"
    if "b \<in> set bs" for b
    using ims.sys_inv_routed(2) [OF memory_inv [OF assms(1,2)]] that by blast
  show ?thesis
    unfolding table_records_def
    by (rule sorted_concat_buckets [OF utc_calendar.chain_sorted [OF assms(2) ch, folded time_ordered_def]])
      (use fit in \<open>auto simp: list_all_iff fits_def\<close>)
qed


lemma two_messages_records:
  assumes "cf_store c = [(year_bucket 2024, default_entry\<lparr> ent_records := [message 5, message 9] \<rparr>)]"
  shows "table_records im_content im_view c [year_bucket 2023, year_bucket 2024] = [message 5, message 9]"
proof -
  have "year_bucket 2023 \<noteq> year_bucket 2024" by (simp add: year_bucket_def)
  moreover have "ckey (message 5) \<le> ckey (message 9)" by (simp add: ckey_def message_def)
  ultimately show ?thesis
    by (simp add: table_records_def assms logical_def im_view_def entry_view_def default_entry_def)
qed

definition example_query :: Query where
  "example_query = \<lparr> q_partition_key = PartitionKey [7],
     q_range = \<lparr> tr_start = greg_start 2023 1 1, tr_end = greg_start 2025 1 1 \<rparr>, q_after = None, q_limit = 1 \<rparr>"


text \<open>C7. An acknowledged write is read back: in every reachable configuration, a query of a range that
  contains the event time of an acknowledged record returns that record, in a result that is sorted in
  the declared order and lies in the range.\<close>

theorem acknowledged_record_is_found:
  assumes "memory_reachable C c" and "utc_calendar C" and "range_rep C td rng"
    and "c_rep C (rec_event_time r)" and "bucket_for C td r = Some b" and "r \<in># cf_acked c b"
    and "tr_contains rng (rec_event_time r)"
    and "\<And>bs. buckets_for_range C td (rec_partition_key r) rng = Some bs
      \<Longrightarrow> length (table_records im_content im_view c bs) \<le> USIZE_MAX"
  shows "\<exists>rs m s' a'. run in_memory_store in_memory_archive W (query C td (rec_partition_key r) rng) n
      (cf_store c) (cf_archive c) = (Some (Ok rs), m, s', a')
    \<and> r \<in> set rs \<and> sorted_by ckey rs \<and> list_all (\<lambda>x. tr_contains rng (rec_event_time x)) rs"
proof -
  let ?q = "\<lparr> q_partition_key = rec_partition_key r, q_range = rng, q_after = None, q_limit = USIZE_MAX \<rparr>"
  obtain bs where bs: "buckets_for_range C td (rec_partition_key r) rng = Some bs"
    using range_rep_buckets [OF assms(2,3)] by blast
  let ?rs = "table_records im_content im_view c bs"
  obtain page m s' a' where p: "run in_memory_store in_memory_archive W (query_page C td ?q) n
      (cf_store c) (cf_archive c) = (Some (Ok page), m, s', a')" "page_exact ?q ?rs page"
    using memory_query_page [OF assms(1,2), of td ?q bs "cf_store c" "cf_archive c" W n] assms(3) bs assms(8) [OF bs]
      ims.sys_inv_routed(1) [OF memory_inv [OF assms(1,2)]] by auto
  have sel: "qp_records page = filter (\<lambda>x. tr_contains rng (rec_event_time x)) ?rs"
  proof -
    have "length (filter (\<lambda>x. tr_contains rng (rec_event_time x)) ?rs) \<le> USIZE_MAX"
      using assms(8) [OF bs] length_filter_le le_trans by blast
    then show ?thesis using p(2) by (simp add: page_exact_def selection_def after_cursor_def)
  qed
  have b: "bucket_for_event_time C td (rec_partition_key r) (rec_event_time r) = Some b"
    using assms(5) by (simp add: bucket_for_def)
  have "b \<in> set bs"
    by (rule range_rep_member [OF assms(2,3) bs assms(7) b])
  moreover have "r \<in> set (the (logical im_content (cf_archive c) b (im_view (cf_store c) b)))"
    using ims.no_record_lost [OF assms(1) [unfolded memory_reachable_def] _ _ _ _ canonical_bucket_for [OF b assms(4)]]
      assms(2,6) by (fastforce simp: library_task_disciplined im_inv_def im_view_empty dest: mset_subset_eqD)
  ultimately have "r \<in> set ?rs" by (auto simp: table_records_def)
  then have "r \<in> set (qp_records page)" using sel assms(7) by simp
  moreover have "sorted_by ckey (qp_records page)"
    unfolding sel by (intro sorted_by_filter table_records_sorted [OF assms(1-3) bs])
  ultimately show ?thesis
    using p(1) sel by (auto simp: query_def run_bind list_all_iff)
qed

theorem acknowledged_record_is_found_witness:
  "\<exists>c rs m s' a'. memory_reachable gregorian c
     \<and> run in_memory_store in_memory_archive (\<lambda>_. example_answers)
         (query gregorian chat_example (rec_partition_key (message 9))
            \<lparr> tr_start = greg_start 2023 1 1, tr_end = greg_start 2025 1 1 \<rparr>) 0
         (cf_store c) (cf_archive c) = (Some (Ok rs), m, s', a')
     \<and> message 9 \<in> set rs \<and> sorted_by ckey rs
     \<and> list_all (\<lambda>x. tr_contains \<lparr> tr_start = greg_start 2023 1 1, tr_end = greg_start 2025 1 1 \<rparr> (rec_event_time x)) rs"
proof -
  obtain c where c: "memory_reachable gregorian c" "cf_acked c (year_bucket 2024) = {# message 5, message 9 #}"
    "cf_store c = [(year_bucket 2024, default_entry\<lparr> ent_records := [message 5, message 9] \<rparr>)]"
    using two_messages by blast
  have m: "bucket_for gregorian chat_example (message 9) = Some (year_bucket 2024)"
    "c_rep gregorian (rec_event_time (message 9))"
    using message_bucket [of 9] by (simp_all add: DAY_def)
  have t: "tr_contains \<lparr> tr_start = greg_start 2023 1 1, tr_end = greg_start 2025 1 1 \<rparr> (rec_event_time (message 9))"
    by (simp add: tr_contains_def message_def greg_start_value del: One_nat_def)
  have pk: "rec_partition_key (message 9) = PartitionKey [7]" by (simp add: message_def)
  from acknowledged_record_is_found [OF c(1) greg.utc_calendar_axioms two_years_rep m(2,1) _ t,
      of "\<lambda>_. example_answers" 0] c two_messages_records [OF c(3)]
  show ?thesis by (auto simp: pk two_years_range USIZE_MAX_def simp del: One_nat_def)
qed

end
