(* ===== verification/Production.thy ===== *)
theory Production
  imports Table_Reads Cockroach_Contract Archive_Fleet Memory_System
begin

text \<open>
  The library on its production stores: processes that share one CockroachDB database and one object store,
  each with its own route cache and its own read cache. The interpretation of \<open>archival_system\<close> on them gives
  what the whole system promises, whatever the pool, the database, the commits and the object store answer.
\<close>

section \<open>The system\<close>

definition empty_fleet :: fleet where
  "empty_fleet = \<lparr> fl_db = \<lparr> db_meta = [], db_records = [] \<rparr>, fl_routes = (\<lambda>_. []) \<rparr>"

definition fresh_caches :: "'o \<Rightarrow> 'o archive_fleet" where
  "fresh_caches obj = \<lparr> af_archive = obj, af_caches = (\<lambda>_. new_cache) \<rparr>"

definition production_reachable ::
    "chrono \<Rightarrow> driver \<Rightarrow> codec \<Rightarrow> ('v, 'o) operator \<Rightarrow> OpenDalArchiveStore \<Rightarrow> nat \<Rightarrow> nat \<Rightarrow> nat \<Rightarrow> 'o
     \<Rightarrow> (fleet, 'o archive_fleet) config \<Rightarrow> bool" where
  "production_reachable C D cd opr store sz mb me obj c \<longleftrightarrow>
     reachable (cockroach_fleet D) (fleet_archive sz mb me (opendal_archive cd opr store))
       (library_task C whole_record) empty_fleet (fresh_caches obj) c"

definition archived_content ::
    "codec \<Rightarrow> ('o \<Rightarrow> (string \<rightharpoonup> byte list)) \<Rightarrow> 'o archive_fleet \<Rightarrow> BucketId \<Rightarrow> string \<Rightarrow> Record list option" where
  "archived_content cd objs a = stored_records cd (objs (af_archive a))"

definition production_ainv where
  "production_ainv C cd opr objs store =
     immutable_archive.caches_inv (\<lambda>obj. stored_records cd (objs obj)) (\<lambda>_. True) (canonical C) (od_key cd store)"

lemma production_system:
  assumes "utc_calendar C" and "timestamptz_exact D" and "codec_ok cd" and "operator_ok opr objs"
  shows "archival_system (cockroach_fleet D) fleet_view (fleet_inv C) (canonical C) whole_record exact_page
    (fleet_archive sz mb me (opendal_archive cd opr store)) (archived_content cd objs) (production_ainv C cd opr objs store)
    (od_key cd store)"
proof -
  have "archived_content cd objs = (\<lambda>a. stored_records cd (objs (af_archive a)))"
    by (simp add: archived_content_def fun_eq_iff)
  then have "archive_store (fleet_archive sz mb me (opendal_archive cd opr store)) (archived_content cd objs)
      (production_ainv C cd opr objs store) (canonical C) (od_key cd store)"
    using immutable_archive.fleet_archive_store [OF opendal_immutable [OF assms(3,4)], of sz mb me store C]
    by (simp add: production_ainv_def)
  with cockroach_fleet_store [OF assms(1,2)] show ?thesis by (rule archival_system.intro)
qed

lemma empty_fleet_inv: "fleet_inv C empty_fleet"
  by (simp add: fleet_inv_def empty_fleet_def db_inv_def routes_ok_def route_archived_def)

lemma empty_fleet_view: "fleet_view empty_fleet b = \<lparr> v_state = Hot, v_gen = 0, v_recs = [] \<rparr>"
  by (simp add: fleet_view_def empty_fleet_def db_view_def find_meta_def row_view_def db_recs_def)

lemma fresh_caches_inv:
  assumes "codec_ok cd" and "operator_ok opr objs"
  shows "production_ainv C cd opr objs store (fresh_caches obj)"
  unfolding production_ainv_def
  by (simp add: immutable_archive.caches_inv_def [OF opendal_immutable [OF assms]] fresh_caches_def
      archive_store.cached_inv_def [OF opendal_archive_store [OF assms]]
      archive_store.coherent_def [OF opendal_archive_store [OF assms]] recorded_def new_cache_def)

lemma production_inv:
  assumes "production_reachable C D cd opr store sz mb me obj c"
    and "utc_calendar C" and "timestamptz_exact D" and "codec_ok cd" and "operator_ok opr objs"
  shows "archival_system.sys_inv fleet_view (fleet_inv C) (canonical C) whole_record
    (archived_content cd objs) (production_ainv C cd opr objs store) (od_key cd store) c"
  by (rule archival_system.sys_inv_reachable [OF production_system [OF assms(2-5)]
        assms(1) [unfolded production_reachable_def]])
    (use assms in \<open>auto simp: library_task_disciplined empty_fleet_inv empty_fleet_view fresh_caches_inv\<close>)

section \<open>When the stores answer\<close>

text \<open>The reads of a page meet no failure: the bounds and the cursor can be sent, the pool hands out
  connections, the statement succeeds, and the object store returns what it holds.\<close>

definition healthy_reads ::
    "driver \<Rightarrow> ('v, 'o) operator \<Rightarrow> ('o \<Rightarrow> (string \<rightharpoonup> byte list)) \<Rightarrow> (nat \<Rightarrow> (nat \<times> ck_env, nat \<times> (nat \<Rightarrow> 'v)) answers)
     \<Rightarrow> TimeRange \<Rightarrow> Cursor option \<Rightarrow> bool" where
  "healthy_reads D opr objs W rng after \<longleftrightarrow>
     dr_timestamptz D (tr_start rng) \<noteq> None \<and> dr_timestamptz D (tr_end rng) \<noteq> None
     \<and> (\<forall>c. after = Some c \<longrightarrow> dr_timestamptz D (cur_event_time c) \<noteq> None)
     \<and> (\<forall>n. ce_acquire (snd (w_store (W n))) \<and> ce_query (snd (w_store (W n))) = None
          \<and> reads_answer opr objs (snd (w_archive (W n))))"

lemma read_snapshot_answers:
  assumes inv: "db_inv C db" and "dr_timestamptz D (tr_start rng) \<noteq> None" and "dr_timestamptz D (tr_end rng) \<noteq> None"
    and "\<And>c. after = Some c \<Longrightarrow> dr_timestamptz D (cur_event_time c) \<noteq> None"
  shows "\<exists>read. read_snapshot D db b rng after limit = Ok read"
proof -
  obtain st key where row: "route_row db b = (st, key)" by fastforce
  obtain start end_time cursor where bound: "bind_timestamp D (tr_start rng) = Ok start"
    "bind_timestamp D (tr_end rng) = Ok end_time" "bind_cursor D after = Ok cursor"
    using assms(2-4) by (cases after) (auto simp: bind_timestamp_def bind_cursor_def ok_or_def)
  show ?thesis
    using route_row_view [OF inv row]
    by (auto simp: read_snapshot_def bound routed_rows_eq [OF inv row] Let_def routed_read_from_snapshot_def
        map_filter_simps split: list.splits)
qed

lemma fleet_read_answers:
  assumes "fleet_inv C s" and "healthy_reads D opr objs W rng after"
  shows "fst (ds_read_range (cockroach_fleet D) (w_store (W n)) b rng after limit s) \<noteq> Err error"
proof -
  obtain p e where pe: "w_store (W n) = (p, e)" by fastforce
  then have env: "ce_acquire e" "ce_query e = None"
    using assms(2) unfolding healthy_reads_def by (metis snd_conv)+
  have "\<exists>read. read_snapshot D (fl_db s) b rng after limit = Ok read"
    by (rule read_snapshot_answers [of C]) (use assms in \<open>auto simp: fleet_inv_def healthy_reads_def\<close>)
  then obtain read where rd: "read_snapshot D (fl_db s) b rng after limit = Ok read" by blast
  show ?thesis
    unfolding fleet_ops on_process_def
    by (cases read) (auto simp: pe ck_read_range_def process_of_def env rd split: option.splits)
qed

lemma fleet_get_answers:
  assumes "operator_ok opr objs" and "healthy_reads D opr objs W rng after"
    and "archived_content cd objs a b key = Some rs"
  shows "fst (as_get_bucket (fleet_archive sz mb me (opendal_archive cd opr store)) (w_archive (W n)) b key a) \<noteq> Err error"
proof -
  have "reads_answer opr objs (snd (w_archive (W n)))" using assms(2) by (simp add: healthy_reads_def)
  from get_bucket_answers [OF assms(1) this] assms(3)
  have "fst (od_get_bucket cd opr (snd (w_archive (W n))) b key (af_archive a)) = Ok rs"
    by (simp add: archived_content_def)
  then show ?thesis
    unfolding fleet_archive_ops on_cache_def cached_get_bucket_def
    by (auto simp: opendal_archive_def split: prod.splits option.splits sum.splits)
qed

lemma production_answering:
  assumes "utc_calendar C" and "timestamptz_exact D" and "codec_ok cd" and "operator_ok opr objs"
    and "healthy_reads D opr objs W rng after"
  shows "archival_system.answering (cockroach_fleet D) (fleet_inv C) (canonical C)
    (fleet_archive sz mb me (opendal_archive cd opr store)) (archived_content cd objs)
    (production_ainv C cd opr objs store) (od_key cd store) W rng after limit"
  unfolding archival_system.answering_def [OF production_system [OF assms(1-4)]]
  using fleet_read_answers [OF _ assms(5)] fleet_get_answers [OF assms(4,5)] by blast

lemma production_query:
  assumes "production_reachable C D cd opr store sz mb me obj c" and "utc_calendar C" and "timestamptz_exact D"
    and "codec_ok cd" and "operator_ok opr objs" and "range_rep C td (q_range q)"
    and "exact_page (q_range q) (q_after q) (q_limit q + 1)"
    and "run (cockroach_fleet D) (fleet_archive sz mb me (opendal_archive cd opr store)) W (query_page C td q) n
        (cf_store c) (cf_archive c) = (res, m, s', a')"
    and "buckets_for_range C td (q_partition_key q) (q_range q) = Some bs"
  shows "healthy_reads D opr objs W (q_range q) (q_after q) \<Longrightarrow> \<exists>page. res = Some (Ok page)"
    "res = Some (Ok page) \<Longrightarrow> page_exact q (table_records (archived_content cd objs) fleet_view c bs) page"
proof -
  note sys = production_system [OF assms(2-5), of sz mb me store]
  note inv = production_inv [OF assms(1-5)]
  have "q_limit q + 1 \<le> nat I64_MAX" using assms(7) by (simp add: exact_page_def)
  then have small: "q_limit q < USIZE_MAX" and sat: "saturating_add (q_limit q) 1 = q_limit q + 1"
    by (simp_all add: saturating_add_def USIZE_MAX_def I64_MAX_def)
  note page = archival_system.query_page_reachable [OF sys inv assms(2) _ assms(6,9) _ assms(7) [folded sat]
      archival_system.sys_inv_routed(1) [OF sys inv], of W n, unfolded assms(8) prod.case]
  show "\<exists>page. res = Some (Ok page)" if "healthy_reads D opr objs W (q_range q) (q_after q)"
    using page small production_answering [OF assms(2-5) that] by blast
  show "page_exact q (table_records (archived_content cd objs) fleet_view c bs) page" if "res = Some (Ok page)"
    using page small that by blast
qed

section \<open>An example\<close>

text \<open>A driver that truncates to microseconds, an environment in which everything succeeds, and two processes
  that append one record each.\<close>

definition micro_driver :: driver where
  "micro_driver = \<lparr> dr_timestamptz = (\<lambda>t. Some (t - t mod 1000)), dr_from_std = (\<lambda>d. Some (int d)),
     dr_checked_add = (\<lambda>t d. Some (t + d)) \<rparr>"

lemma micro_driver_exact: "timestamptz_exact micro_driver"
  by (auto simp: timestamptz_exact_def micro_driver_def whole_micros_def)

definition calm_env :: ck_env where
  "calm_env = \<lparr> ce_attempt = (\<lambda>_. \<lparr> ta_acquire = True, ta_begin = Answer None, ta_now = 0, ta_body = Answer None,
     ta_commit = CommitAnswer Committed, ta_rollback = True \<rparr>), ce_uuid = ''token'', ce_utc_now = 0, ce_instant = 0,
     ce_acquire = True, ce_query = None, ce_now = 0, ce_query2 = None, ce_now2 = 0 \<rparr>"

definition calm :: "nat \<Rightarrow> (nat \<times> ck_env, nat \<times> (nat \<Rightarrow> fault)) answers" where
  "calm p = \<lparr> w_store = (p, calm_env), w_archive = (p, \<lambda>_. NoFault), w_renewal = None,
     w_now = greg_start 2024 3 5 + 77, w_choice = 0 \<rparr>"

definition row_2024 :: meta_row where
  "row_2024 = \<lparr> mr_table_id = ''chat'', mr_partition_key = [7], mr_bucket_key = ''year:'' @ fmt_int 4 2024,
     mr_bucket_strategy = strategy_as_str CalendarYearUtc, mr_bucket_start = greg_start 2024 1 1,
     mr_bucket_end = greg_start 2025 1 1, mr_state = ''hot'', mr_generation = 0, mr_owner_token = None,
     mr_owner_expires_at = None, mr_object_key = None, mr_hot_deleted = False, mr_attempts = 0,
     mr_next_attempt_at = None \<rparr>"

definition message_row :: "int \<Rightarrow> record_row" where
  "message_row k = \<lparr> rr_table_id = ''chat'', rr_partition_key = [7], rr_bucket_key = ''year:'' @ fmt_int 4 2024,
     rr_event_time = greg_start 2024 3 5 + k, rr_sort_key = [1], rr_value = [42] \<rparr>"

abbreviation example_db :: "int list \<Rightarrow> database" where
  "example_db ks \<equiv> \<lparr> db_meta = [row_2024], db_records = map message_row ks \<rparr>"

abbreviation example_fleet :: "database \<Rightarrow> fleet" where
  "example_fleet db \<equiv> \<lparr> fl_db = db, fl_routes = (\<lambda>_. []) \<rparr>"

lemma calm_transaction: "body 0 db = Ok (v, db') \<Longrightarrow> transaction (ce_attempt calm_env) body db = (Ok v, db')"
  by (simp add: transaction_def MAX_TRANSACTION_ATTEMPTS_def eval_nat_numeral calm_env_def run_body_def)

lemma example_insert_meta:
  "insert_meta micro_driver (year_bucket 2024) \<lparr> db_meta = [], db_records = [] \<rparr> = Ok (example_db [])"
  "insert_meta micro_driver (year_bucket 2024) (example_db ks) = Ok (example_db ks)"
  by (simp_all add: insert_meta_def bind_timestamp_def micro_driver_def year_bucket_def greg_start_value Let_def
      find_meta_def meta_pk_def row_2024_def meta_check_def del: One_nat_def)

lemma example_append_body:
  assumes "k mod 1000 = 0" and "k \<notin> set ks" and "insert_meta micro_driver (year_bucket 2024) db = Ok (example_db ks)"
    and "db_meta db = [] \<or> db_meta db = [row_2024]"
  shows "append_body micro_driver (year_bucket 2024) (message k) now db = Ok ((), example_db (ks @ [k]))"
proof -
  have "bind_timestamp micro_driver (greg_start 2024 3 5 + k) = Ok (greg_start 2024 3 5 + k)"
    using assms(1) by (simp add: bind_timestamp_def micro_driver_def greg_start_value mod_add_eq [symmetric])
  moreover have "state_from_metadata (example_db ks) (year_bucket 2024) = Ok (Some Hot)"
    by (simp add: state_from_metadata_def find_meta_def meta_pk_def bucket_pk_def row_2024_def year_bucket_def
        metadata_state_def)
  moreover have "insert_record (message_row k) (example_db ks) = Ok (example_db (ks @ [k]))"
    using assms(2) by (auto simp: insert_record_def record_pk_def record_fk_def message_row_def find_meta_def
        meta_pk_def row_2024_def)
  ultimately show ?thesis
    using assms(3,4)
    by (auto simp: append_body_def message_def row_2024_def year_bucket_def message_row_def ok_or_def)
qed

lemma example_fleet_append:
  assumes "k mod 1000 = 0" and "k \<notin> set ks" and "insert_meta micro_driver (year_bucket 2024) db = Ok (example_db ks)"
    and "db_meta db = [] \<or> db_meta db = [row_2024]"
  shows "ds_append (cockroach_fleet micro_driver) (w_store (calm p)) (year_bucket 2024) (message k) (example_fleet db)
    = (Ok (), example_fleet (example_db (ks @ [k])))"
  by (simp add: fleet_ops calm_def on_process_def ck_append_def in_transaction_def process_of_def
      calm_transaction [of "append_body micro_driver (year_bucket 2024) (message k)", OF example_append_body [OF assms]] fun_upd_idem)

lemma two_processes:
  fixes opr :: "(fault, 'o) operator"
  shows "\<exists>c. production_reachable gregorian micro_driver cd opr store sz mb me obj c
     \<and> cf_store c = example_fleet (example_db [5000, 9000]) \<and> cf_archive c = fresh_caches obj
     \<and> cf_acked c (year_bucket 2024) = {# message 5000, message 9000 #}"
proof -
  let ?S = "cockroach_fleet micro_driver" and ?A = "fleet_archive sz mb me (opendal_archive cd opr store)"
    and ?T = "library_task gregorian whole_record"
  have w: "whole_record (message 5000)" "whole_record (message 9000)"
    by (simp_all add: whole_record_def message_def whole_micros_def greg_start_value)
  have now: "w_now (calm p) = greg_start 2024 3 5 + 77" for p by (simp add: calm_def)
  have r0: "reachable ?S ?A ?T empty_fleet (fresh_caches obj) (sys_init empty_fleet (fresh_caches obj))"
    by (simp add: reachable_def)
  have a1: "ds_append ?S (w_store (calm 0)) (year_bucket 2024) (message 5000) empty_fleet
      = (Ok (), example_fleet (example_db [5000]))"
    using example_fleet_append [OF _ _ example_insert_meta(1), of 5000 0] by (simp add: empty_fleet_def)
  have a2: "ds_append ?S (w_store (calm 1)) (year_bucket 2024) (message 9000) (example_fleet (example_db [5000]))
      = (Ok (), example_fleet (example_db [5000, 9000]))"
    using example_fleet_append [OF _ _ example_insert_meta(2), of 9000 "[5000]" 1] by simp
  from append_reaches [OF r0, of 0 5000 "calm 0"] w(1) now a1
  obtain c1 t where c1: "reachable ?S ?A ?T empty_fleet (fresh_caches obj) c1" "cf_archive c1 = fresh_caches obj"
    "cf_store c1 = example_fleet (example_db [5000])" "cf_tasks c1 = [0 \<mapsto> t]"
    "cf_acked c1 (year_bucket 2024) = {# message 5000 #}"
    by (auto simp: sys_init_def DAY_def)
  from append_reaches [OF c1(1), of 1 9000 "calm 1"] w(2) now a2 c1(2-5)
  show ?thesis unfolding production_reachable_def by (auto simp: DAY_def)
qed

abbreviation example_production ::
    "(fleet, (string \<rightharpoonup> byte list) archive_fleet) config \<Rightarrow> bool" where
  "example_production c \<equiv> production_reachable gregorian micro_driver example_codec memory_operator
     example_store 8 1000 2 Map.empty c"

lemma example_system:
  "\<exists>c. example_production c \<and> cf_acked c (year_bucket 2024) = {# message 5000, message 9000 #}"
  using two_processes [of example_codec memory_operator example_store 8 1000 2 Map.empty] by auto

section \<open>What production promises\<close>




lemma calm_healthy: "healthy_reads micro_driver memory_operator id calm rng after"
  by (simp add: healthy_reads_def micro_driver_def calm_def calm_env_def reads_answer_def memory_operator_def)

lemma example_query_exact: "exact_page (q_range example_query) (q_after example_query) (q_limit example_query + 1)"
  by (simp add: exact_page_def example_query_def whole_micros_def greg_start_value I64_MAX_def del: One_nat_def)

lemma example_query_rep: "range_rep gregorian chat_example (q_range example_query)"
  using two_years_rep by (simp add: example_query_def)




end
