(* ===== verification/Cockroach_Pool.thy ===== *)
theory Cockroach_Pool
  imports Ports
begin

text \<open>
  The connection pool, \<open>src/src/adapters/cockroach_pool.rs\<close>, at the granularity of its atomic operations: any
  number of tasks acquire, use and drop connections while the driver of each connection may terminate and
  close it at any moment, and any \<open>acquire\<close> may be cancelled at one of its two suspension points. Metrics
  and tracing only read the state and are left out.
\<close>

section \<open>State\<close>

datatype client_state = CHECKED_OUT | IDLE | CLOSED

text \<open>
  The task that drives a connection: not spawned yet, driving, terminated, and the two decrements of
  \<open>close_connection\<close>. A connection that the caller drives never runs \<open>close_connection\<close>.
\<close>

datatype driver_task =
    Unspawned
  | Running
  | Terminated
  | Closing client_state
  | ClosingIdle
  | Driven
  | CallerDriven
  | CallerClosed

text \<open>\<open>cl_tx\<close> is the state of the session at the server: whether a transaction is open on it. \<open>cl_revived\<close>
  counts how often the connection was stored as idle after it had been closed.\<close>

record PooledClient =
  cl_state :: client_state
  cl_driver :: driver_task
  cl_tx :: bool
  cl_revived :: nat

definition is_closed :: "PooledClient \<Rightarrow> bool" where
  "is_closed c \<longleftrightarrow> cl_driver c \<notin> {Unspawned, Running, CallerDriven}"

text \<open>\<open>PoolInner\<close> with its \<open>PoolState\<close>; \<open>available\<close> is a stack whose top is the end of the list.\<close>

record PoolInner =
  po_clients :: "PooledClient list"
  po_available :: "nat list"
  po_permits :: nat
  po_idle :: "64 word"
  po_in_use :: "64 word"
  po_open :: "64 word"
  po_waiters :: "64 word"
  po_max :: nat

text \<open>
  The program counter of a task. \<open>Using c r\<close> is a \<open>PooledConnection\<close> with its flag \<open>reusable\<close>; the states
  from \<open>Popping\<close> to \<open>CountClosed\<close> hold the lock of \<open>available\<close>.
\<close>

datatype pool_task =
    Acquiring
  | AwaitPermit
  | GotPermit
  | NoPermit string
  | CountIn
  | LockAvailable
  | Popping
  | TryIdle nat
  | CountOut nat
  | CheckOpen nat
  | SwapClosed nat
  | CountClosed
  | Connecting
  | Registering nat
  | Spawning nat
  | ConnectFailed StoreError
  | FailedPermit StoreError
  | Using nat bool
  | Dropping nat bool
  | DropSwap nat bool
  | CountIdle nat
  | PushIdle nat
  | CountEvicted
  | ReleasePermit
  | Ended
  | Failed StoreError
  | CancelledWaiting
  | CancelledConnecting
  | Prewarm nat
  | PrewarmRegister nat nat
  | PrewarmSpawn nat nat
  | PrewarmStore nat nat
  | PrewarmCount nat nat
  | PrewarmPush nat nat
  | StartFailed StoreError

text \<open>What the environment decides at a step: whether the semaphore grants a permit, whether a connection is
  established, and what the holder of a connection does with it.\<close>

datatype pool_answer =
    Proceed
  | Granted
  | TimedOut
  | SemaphoreClosed
  | Connected
  | ConnectError string
  | Release
  | MarkUncertain
  | BeginTx
  | CompleteTx
  | MarkReusable

definition set_client :: "nat \<Rightarrow> (PooledClient \<Rightarrow> PooledClient) \<Rightarrow> PoolInner \<Rightarrow> PoolInner" where
  "set_client c f p = p\<lparr> po_clients := (po_clients p)[c := f (po_clients p ! c)] \<rparr>"

definition client_state_of :: "PoolInner \<Rightarrow> nat \<Rightarrow> client_state" where
  "client_state_of p c = cl_state (po_clients p ! c)"

section \<open>Operations\<close>

fun acquire_step :: "pool_answer \<Rightarrow> pool_task \<Rightarrow> PoolInner \<Rightarrow> (pool_task \<times> PoolInner) option" where
  "acquire_step a Acquiring p = Some (AwaitPermit, p\<lparr> po_waiters := po_waiters p + 1 \<rparr>)"
| "acquire_step a AwaitPermit p =
     (case a of
        Granted \<Rightarrow> if po_permits p = 0 then None else Some (GotPermit, p\<lparr> po_permits := po_permits p - 1 \<rparr>)
      | SemaphoreClosed \<Rightarrow> Some (NoPermit ''CockroachDB pool is closed'', p)
      | TimedOut \<Rightarrow> Some (NoPermit ''CockroachDB pool acquisition timed out'', p)
      | _ \<Rightarrow> None)"
| "acquire_step a GotPermit p = Some (CountIn, p\<lparr> po_waiters := po_waiters p - 1 \<rparr>)"
| "acquire_step a (NoPermit message) p = Some (Failed (Other message), p\<lparr> po_waiters := po_waiters p - 1 \<rparr>)"
| "acquire_step a CountIn p = Some (LockAvailable, p\<lparr> po_in_use := po_in_use p + 1 \<rparr>)"
| "acquire_step a (ConnectFailed e) p = Some (FailedPermit e, p\<lparr> po_in_use := po_in_use p - 1 \<rparr>)"
| "acquire_step a (FailedPermit e) p = Some (Failed e, p\<lparr> po_permits := po_permits p + 1 \<rparr>)"
| "acquire_step a t p = None"

fun take_idle_step :: "bool \<Rightarrow> pool_task \<Rightarrow> PoolInner \<Rightarrow> (pool_task \<times> PoolInner) option" where
  "take_idle_step unlocked LockAvailable p = (if unlocked then Some (Popping, p) else None)"
| "take_idle_step unlocked Popping p =
     (if po_available p = [] then Some (Connecting, p)
      else Some (TryIdle (last (po_available p)), p\<lparr> po_available := butlast (po_available p) \<rparr>))"
| "take_idle_step unlocked (TryIdle c) p =
     (if client_state_of p c = IDLE then Some (CountOut c, set_client c (cl_state_update (\<lambda>_. CHECKED_OUT)) p)
      else Some (Popping, p))"
| "take_idle_step unlocked (CountOut c) p = Some (CheckOpen c, p\<lparr> po_idle := po_idle p - 1 \<rparr>)"
| "take_idle_step unlocked (CheckOpen c) p =
     Some (if is_closed (po_clients p ! c) then SwapClosed c else Using c True, p)"
| "take_idle_step unlocked (SwapClosed c) p =
     Some (if client_state_of p c \<noteq> CLOSED then CountClosed else Popping,
           set_client c (cl_state_update (\<lambda>_. CLOSED)) p)"
| "take_idle_step unlocked CountClosed p = Some (Popping, p\<lparr> po_open := po_open p - 1 \<rparr>)"
| "take_idle_step unlocked t p = None"

text \<open>\<open>open_connection\<close>: the new client is the next element of \<open>po_clients\<close>, checked out and not yet driven.\<close>

definition new_client :: PooledClient where
  "new_client = \<lparr> cl_state = CHECKED_OUT, cl_driver = Unspawned, cl_tx = False, cl_revived = 0 \<rparr>"

definition open_connection ::
    "pool_answer \<Rightarrow> (nat \<Rightarrow> pool_task) \<Rightarrow> (StoreError \<Rightarrow> pool_task) \<Rightarrow> PoolInner \<Rightarrow> (pool_task \<times> PoolInner) option" where
  "open_connection a opened failed p =
     (case a of
        Connected \<Rightarrow> Some (opened (length (po_clients p)), p\<lparr> po_clients := po_clients p @ [new_client] \<rparr>)
      | ConnectError message \<Rightarrow> Some (failed (Other message), p)
      | _ \<Rightarrow> None)"

text \<open>\<open>register_connection\<close>: the connection is counted, then its driver is spawned.\<close>

fun register_step :: "pool_answer \<Rightarrow> pool_task \<Rightarrow> PoolInner \<Rightarrow> (pool_task \<times> PoolInner) option" where
  "register_step a Connecting p = open_connection a Registering ConnectFailed p"
| "register_step a (Registering c) p = Some (Spawning c, p\<lparr> po_open := po_open p + 1 \<rparr>)"
| "register_step a (Spawning c) p = Some (Using c True, set_client c (cl_driver_update (\<lambda>_. Running)) p)"
| "register_step a t p = None"

text \<open>
  What the holder of a connection does: \<open>mark_uncertain\<close> before it begins a transaction, \<open>mark_reusable\<close>
  only after a complete answer to \<open>COMMIT\<close> or \<open>ROLLBACK\<close>, and at last it drops the connection.
\<close>

fun use_step :: "pool_answer \<Rightarrow> pool_task \<Rightarrow> PoolInner \<Rightarrow> (pool_task \<times> PoolInner) option" where
  "use_step a (Using c r) p =
     (case a of
        MarkUncertain \<Rightarrow> Some (Using c False, p)
      | BeginTx \<Rightarrow> if r then None else Some (Using c r, set_client c (cl_tx_update (\<lambda>_. True)) p)
      | CompleteTx \<Rightarrow> Some (Using c r, set_client c (cl_tx_update (\<lambda>_. False)) p)
      | MarkReusable \<Rightarrow> if cl_tx (po_clients p ! c) then None else Some (Using c True, p)
      | Release \<Rightarrow> Some (Dropping c r, p)
      | _ \<Rightarrow> None)"
| "use_step a t p = None"

fun drop_step :: "bool \<Rightarrow> pool_task \<Rightarrow> PoolInner \<Rightarrow> (pool_task \<times> PoolInner) option" where
  "drop_step unlocked (Dropping c r) p = Some (DropSwap c r, p\<lparr> po_in_use := po_in_use p - 1 \<rparr>)"
| "drop_step unlocked (DropSwap c reusable) p =
     (if client_state_of p c \<noteq> CHECKED_OUT then Some (ReleasePermit, p)
      else if reusable then Some (CountIdle c, set_client c (cl_state_update (\<lambda>_. IDLE)) p)
      else Some (CountEvicted, set_client c (cl_state_update (\<lambda>_. CLOSED)) p))"
| "drop_step unlocked (CountIdle c) p = Some (PushIdle c, p\<lparr> po_idle := po_idle p + 1 \<rparr>)"
| "drop_step unlocked (PushIdle c) p =
     (if unlocked then Some (ReleasePermit, p\<lparr> po_available := po_available p @ [c] \<rparr>) else None)"
| "drop_step unlocked CountEvicted p = Some (ReleasePermit, p\<lparr> po_open := po_open p - 1 \<rparr>)"
| "drop_step unlocked ReleasePermit p = Some (Ended, p\<lparr> po_permits := po_permits p + 1 \<rparr>)"
| "drop_step unlocked t p = None"

text \<open>\<open>prewarm\<close>, with the number of connections still to open.\<close>

fun prewarm_step :: "pool_answer \<Rightarrow> pool_task \<Rightarrow> PoolInner \<Rightarrow> (pool_task \<times> PoolInner) option" where
  "prewarm_step a (Prewarm n) p =
     (if n = 0 then Some (Ended, p) else open_connection a (PrewarmRegister (n - 1)) StartFailed p)"
| "prewarm_step a (PrewarmRegister n c) p = Some (PrewarmSpawn n c, p\<lparr> po_open := po_open p + 1 \<rparr>)"
| "prewarm_step a (PrewarmSpawn n c) p =
     Some (PrewarmStore n c, set_client c (cl_driver_update (\<lambda>_. Running)) p)"
| "prewarm_step a (PrewarmStore n c) p =
     Some (PrewarmCount n c, set_client c (\<lambda>x. x\<lparr> cl_state := IDLE,
       cl_revived := cl_revived x + (if cl_state x = CLOSED then 1 else 0) \<rparr>) p)"
| "prewarm_step a (PrewarmCount n c) p = Some (PrewarmPush n c, p\<lparr> po_idle := po_idle p + 1 \<rparr>)"
| "prewarm_step a (PrewarmPush n c) p = Some (Prewarm n, p\<lparr> po_available := po_available p @ [c] \<rparr>)"
| "prewarm_step a t p = None"

definition or_else :: "'x option \<Rightarrow> 'x option \<Rightarrow> 'x option" where
  "or_else x y = (case x of None \<Rightarrow> y | Some _ \<Rightarrow> x)"

definition task_step ::
    "pool_answer \<Rightarrow> bool \<Rightarrow> pool_task \<Rightarrow> PoolInner \<Rightarrow> (pool_task \<times> PoolInner) option" where
  "task_step a unlocked t p =
     or_else (acquire_step a t p) (or_else (take_idle_step unlocked t p) (or_else (register_step a t p)
       (or_else (use_step a t p) (or_else (drop_step unlocked t p) (prewarm_step a t p)))))"

text \<open>A cancelled \<open>acquire\<close> drops what it owns: nothing while it waits, its permit while it connects.\<close>

definition cancel_step :: "pool_task \<Rightarrow> PoolInner \<Rightarrow> (pool_task \<times> PoolInner) option" where
  "cancel_step t p =
     (case t of
        AwaitPermit \<Rightarrow> Some (CancelledWaiting, p)
      | Connecting \<Rightarrow> Some (CancelledConnecting, p\<lparr> po_permits := po_permits p + 1 \<rparr>)
      | _ \<Rightarrow> None)"

text \<open>
  The driver of a connection: it terminates at any moment, upgrades its weak reference when the client is
  still referenced, and runs \<open>close_connection\<close>.
\<close>

definition close_connection :: "bool \<Rightarrow> nat \<Rightarrow> PoolInner \<Rightarrow> PoolInner option" where
  "close_connection referenced c p =
     (let client = po_clients p ! c in
      case cl_driver client of
        Running \<Rightarrow> Some (set_client c (cl_driver_update (\<lambda>_. Terminated)) p)
      | Terminated \<Rightarrow>
          Some (if \<not> referenced \<or> cl_state client = CLOSED
                then set_client c (cl_driver_update (\<lambda>_. Driven)) p
                else set_client c (\<lambda>x. x\<lparr> cl_state := CLOSED, cl_driver := Closing (cl_state x) \<rparr>) p)
      | Closing previous \<Rightarrow>
          Some (set_client c (cl_driver_update (\<lambda>_. if previous = IDLE then ClosingIdle else Driven))
                  (p\<lparr> po_open := po_open p - 1 \<rparr>))
      | ClosingIdle \<Rightarrow> Some (set_client c (cl_driver_update (\<lambda>_. Driven)) (p\<lparr> po_idle := po_idle p - 1 \<rparr>))
      | CallerDriven \<Rightarrow> Some (set_client c (cl_driver_update (\<lambda>_. CallerClosed)) p)
      | _ \<Rightarrow> None)"

section \<open>The pool and its tasks\<close>

record pool_system =
  ps_pool :: PoolInner
  ps_tasks :: "pool_task list"

fun holds_lock :: "pool_task \<Rightarrow> bool" where
  "holds_lock Popping = True"
| "holds_lock (TryIdle c) = True"
| "holds_lock (CountOut c) = True"
| "holds_lock (CheckOpen c) = True"
| "holds_lock (SwapClosed c) = True"
| "holds_lock CountClosed = True"
| "holds_lock t = False"

text \<open>The client that a task refers to; its second component tells that the client is parked, that is on its
  way from or to the stack, its third that no transaction may be open on it.\<close>

fun task_ref :: "pool_task \<Rightarrow> (nat \<times> bool \<times> bool) list" where
  "task_ref (TryIdle c) = [(c, True, True)]"
| "task_ref (CountOut c) = [(c, False, True)]"
| "task_ref (CheckOpen c) = [(c, False, True)]"
| "task_ref (SwapClosed c) = [(c, False, True)]"
| "task_ref (Registering c) = [(c, False, True)]"
| "task_ref (Spawning c) = [(c, False, True)]"
| "task_ref (Using c r) = [(c, False, r)]"
| "task_ref (Dropping c r) = [(c, False, r)]"
| "task_ref (DropSwap c r) = [(c, False, r)]"
| "task_ref (CountIdle c) = [(c, True, True)]"
| "task_ref (PushIdle c) = [(c, True, True)]"
| "task_ref (PrewarmRegister n c) = [(c, False, True)]"
| "task_ref (PrewarmSpawn n c) = [(c, False, True)]"
| "task_ref (PrewarmStore n c) = [(c, False, True)]"
| "task_ref (PrewarmCount n c) = [(c, True, True)]"
| "task_ref (PrewarmPush n c) = [(c, True, True)]"
| "task_ref t = []"

definition referenced :: "pool_system \<Rightarrow> nat \<Rightarrow> bool" where
  "referenced s c \<longleftrightarrow> c \<in> set (po_available (ps_pool s)) \<or> c \<in> set (map fst (concat (map task_ref (ps_tasks s))))"

fun starting :: "pool_task \<Rightarrow> bool" where
  "starting (Prewarm n) = True"
| "starting (PrewarmRegister n c) = True"
| "starting (PrewarmSpawn n c) = True"
| "starting (PrewarmStore n c) = True"
| "starting (PrewarmCount n c) = True"
| "starting (PrewarmPush n c) = True"
| "starting (StartFailed e) = True"
| "starting t = False"

text \<open>A pool is handed out only once \<open>prewarm\<close> has succeeded; from then on anyone may call \<open>acquire\<close>.\<close>

datatype pool_event = Spawn | Advance nat pool_answer | Cancel nat | Drive nat

fun pool_step :: "pool_event \<Rightarrow> pool_system \<Rightarrow> pool_system option" where
  "pool_step Spawn s =
     (if list_ex starting (ps_tasks s) then None else Some (s\<lparr> ps_tasks := ps_tasks s @ [Acquiring] \<rparr>))"
| "pool_step (Advance i a) s =
     (if i < length (ps_tasks s)
      then map_option (\<lambda>(t, p). \<lparr> ps_pool = p, ps_tasks = (ps_tasks s)[i := t] \<rparr>)
             (task_step a (\<not> list_ex holds_lock (ps_tasks s)) (ps_tasks s ! i) (ps_pool s))
      else None)"
| "pool_step (Cancel i) s =
     (if i < length (ps_tasks s)
      then map_option (\<lambda>(t, p). \<lparr> ps_pool = p, ps_tasks = (ps_tasks s)[i := t] \<rparr>)
             (cancel_step (ps_tasks s ! i) (ps_pool s))
      else None)"
| "pool_step (Drive c) s =
     (if c < length (po_clients (ps_pool s))
      then map_option (\<lambda>p. s\<lparr> ps_pool := p \<rparr>) (close_connection (referenced s c) c (ps_pool s))
      else None)"

fun pool_run :: "pool_event list \<Rightarrow> pool_system \<Rightarrow> pool_system option" where
  "pool_run [] s = Some s"
| "pool_run (e # es) s = (case pool_step e s of None \<Rightarrow> None | Some s' \<Rightarrow> pool_run es s')"

text \<open>The pool that \<open>connect_with_transport\<close> builds, and the one of \<open>from_client\<close>.\<close>

definition new_pool :: "nat \<Rightarrow> pool_system" where
  "new_pool max_connections = \<lparr> ps_pool = \<lparr> po_clients = [], po_available = [], po_permits = max_connections,
     po_idle = 0, po_in_use = 0, po_open = 0, po_waiters = 0, po_max = max_connections \<rparr>,
     ps_tasks = [Prewarm max_connections] \<rparr>"

definition from_client :: pool_system where
  "from_client = \<lparr> ps_pool = \<lparr> po_clients = [new_client\<lparr> cl_state := IDLE, cl_driver := CallerDriven \<rparr>],
     po_available = [0], po_permits = 1, po_idle = 1, po_in_use = 0, po_open = 1, po_waiters = 0, po_max = 1 \<rparr>,
     ps_tasks = [] \<rparr>"

inductive pool_reachable :: "pool_system \<Rightarrow> bool" where
  connect: "pool_reachable (new_pool n)"
| from_client: "pool_reachable from_client"
| step: "pool_reachable s \<Longrightarrow> pool_step e s = Some s' \<Longrightarrow> pool_reachable s'"

end
