(* ===== verification/Pool_Safety.thy ===== *)
theory Pool_Safety
  imports Cockroach_Pool "HOL-Library.Multiset"
begin

text \<open>
  What the connection pool guarantees in every interleaving of its tasks: a connection is held by one task
  at a time, a connection that may carry an open transaction is never handed out again, permits are neither
  lost nor duplicated, and no more than \<open>max_connections\<close> connections are open.
\<close>

section \<open>The invariant\<close>

text \<open>The references to clients: those on the stack and those of the tasks.\<close>

definition refs :: "PoolInner \<Rightarrow> pool_task multiset \<Rightarrow> (nat \<times> bool \<times> bool) multiset" where
  "refs p M = image_mset (\<lambda>c. (c, True, True)) (mset (po_available p)) + (\<Sum>t \<in># M. mset (task_ref t))"

fun ref_ok :: "PooledClient list \<Rightarrow> nat \<times> bool \<times> bool \<Rightarrow> bool" where
  "ref_ok cs (c, parked, clean) \<longleftrightarrow> c < length cs \<and> (parked \<longrightarrow> cl_state (cs ! c) \<noteq> CHECKED_OUT)
     \<and> (\<not> parked \<longrightarrow> cl_state (cs ! c) \<noteq> IDLE) \<and> (clean \<longrightarrow> \<not> cl_tx (cs ! c))"

definition refs_ok :: "PooledClient list \<Rightarrow> (nat \<times> bool \<times> bool) multiset \<Rightarrow> bool" where
  "refs_ok cs R \<longleftrightarrow> (\<forall>c. count (image_mset fst R) c \<le> 1) \<and> (\<forall>r \<in># R. ref_ok cs r)"

definition covered :: "PooledClient list \<Rightarrow> (nat \<times> bool \<times> bool) multiset \<Rightarrow> bool" where
  "covered cs R \<longleftrightarrow> (\<forall>c < length cs. cl_state (cs ! c) \<noteq> CLOSED \<longrightarrow> c \<in># image_mset fst R)"

fun permit :: "pool_task \<Rightarrow> nat" where
  "permit Acquiring = 0"
| "permit AwaitPermit = 0"
| "permit (NoPermit m) = 0"
| "permit Ended = 0"
| "permit (Failed e) = 0"
| "permit CancelledWaiting = 0"
| "permit CancelledConnecting = 0"
| "permit t = (if starting t then 0 else 1)"

text \<open>The connections that a task holds or may still open.\<close>

fun claimed_slots :: "pool_task \<Rightarrow> nat" where
  "claimed_slots Connecting = 1"
| "claimed_slots (Prewarm n) = n"
| "claimed_slots (PrewarmRegister n c) = n + 1"
| "claimed_slots (PrewarmSpawn n c) = n + 1"
| "claimed_slots (PrewarmStore n c) = n + 1"
| "claimed_slots (PrewarmCount n c) = n + 1"
| "claimed_slots (PrewarmPush n c) = n + 1"
| "claimed_slots t = length (task_ref t)"

lemma refs_add [simp]: "refs p (add_mset t M) = mset (task_ref t) + refs p M"
  by (simp add: refs_def)

lemma refs_pool_update [simp]:
  "refs (p\<lparr> po_permits := n \<rparr>) M = refs p M" "refs (p\<lparr> po_waiters := x \<rparr>) M = refs p M"
  "refs (p\<lparr> po_idle := x \<rparr>) M = refs p M" "refs (p\<lparr> po_in_use := x \<rparr>) M = refs p M"
  "refs (p\<lparr> po_open := x \<rparr>) M = refs p M" "refs (p\<lparr> po_clients := cs \<rparr>) M = refs p M"
  "refs (set_client c f p) M = refs p M"
  by (simp_all add: refs_def set_client_def)

lemma refs_pop:
  "po_available p \<noteq> [] \<Longrightarrow>
     add_mset (last (po_available p), True, True) (refs (p\<lparr> po_available := butlast (po_available p) \<rparr>) M) = refs p M"
  by (cases "po_available p" rule: rev_cases) (simp_all add: refs_def)

lemma refs_push [simp]: "refs (p\<lparr> po_available := po_available p @ [c] \<rparr>) M = add_mset (c, True, True) (refs p M)"
  by (simp add: refs_def)

lemma set_client_simps [simp]:
  "po_clients (set_client c f p) = (po_clients p)[c := f (po_clients p ! c)]"
  "po_available (set_client c f p) = po_available p" "po_permits (set_client c f p) = po_permits p"
  "po_max (set_client c f p) = po_max p" "po_idle (set_client c f p) = po_idle p"
  "po_in_use (set_client c f p) = po_in_use p" "po_open (set_client c f p) = po_open p"
  "po_waiters (set_client c f p) = po_waiters p"
  by (simp_all add: set_client_def)

lemma permit_le: "\<not> starting t \<Longrightarrow> claimed_slots t \<le> permit t"
  by (cases t) simp_all

lemma refs_ok_other:
  assumes "refs_ok cs (add_mset (c, k, cl) R)" and "r \<in># R"
  shows "fst r \<noteq> c" "ref_ok (cs[c := x]) r"
proof -
  have "count (image_mset fst (add_mset (c, k, cl) R)) c \<le> 1" using assms(1) unfolding refs_ok_def by blast
  then have "count (image_mset fst R) c = 0" by simp
  then have "c \<notin># image_mset fst R" by (simp only: not_in_iff)
  then show "fst r \<noteq> c" using assms(2) by auto
  moreover have "ref_ok cs r" using assms unfolding refs_ok_def by auto
  ultimately show "ref_ok (cs[c := x]) r" by (cases r) auto
qed

lemma refs_ok_update:
  assumes "refs_ok cs (add_mset (c, k, cl) R)" and "ref_ok (cs[c := x]) (c, k', cl')"
  shows "refs_ok (cs[c := x]) (add_mset (c, k', cl') R)"
proof -
  have "\<forall>c'. count (image_mset fst (add_mset (c, k', cl') R)) c' \<le> 1" using assms(1) by (simp add: refs_ok_def)
  then show ?thesis using assms(2) refs_ok_other(2) [OF assms(1)] unfolding refs_ok_def by (metis insert_iff set_mset_add_mset_insert)
qed

lemma refs_ok_drop:
  assumes "refs_ok cs (add_mset (c, k, cl) R)"
  shows "refs_ok (cs[c := x]) R"
proof -
  have "count (image_mset fst R) c' \<le> 1" for c'
  proof -
    have "count (image_mset fst (add_mset (c, k, cl) R)) c' \<le> 1" using assms unfolding refs_ok_def by blast
    then show ?thesis by (simp split: if_splits)
  qed
  then show ?thesis using refs_ok_other(2) [OF assms] unfolding refs_ok_def by blast
qed

lemma refs_ok_same:
  assumes "refs_ok cs (add_mset (c, k, cl) R)" and "ref_ok cs (c, k', cl')"
  shows "refs_ok cs (add_mset (c, k', cl') R)"
  using refs_ok_update [OF assms(1), of "cs ! c"] assms(2) by simp

lemma refs_ok_drop_same: "refs_ok cs (add_mset (c, k, cl) R) \<Longrightarrow> refs_ok cs R"
  using refs_ok_drop [of cs c k cl R "cs ! c"] by simp

lemma refs_ok_head: "refs_ok cs (add_mset r R) \<Longrightarrow> ref_ok cs r"
  by (simp add: refs_ok_def)

lemma refs_ok_new:
  assumes "refs_ok cs R"
  shows "refs_ok (cs @ [new_client]) (add_mset (length cs, False, True) R)"
proof -
  have r: "ref_ok (cs @ [new_client]) r" "fst r \<noteq> length cs" if "r \<in># R" for r
    using assms that by (cases r; fastforce simp: refs_ok_def nth_append)+
  have "length cs \<notin># image_mset fst R" using r(2) by force
  then have "count (image_mset fst R) (length cs) = 0" by (simp only: not_in_iff)
  then show ?thesis using assms r(1) by (auto simp: refs_ok_def new_client_def)
qed

lemma covered_new: "covered cs R \<Longrightarrow> covered (cs @ [new_client]) (add_mset (length cs, k, cl) R)"
  by (auto simp: covered_def nth_append less_Suc_eq)

lemma covered_update:
  "covered cs (add_mset (c, k, cl) R) \<Longrightarrow> covered (cs[c := x]) (add_mset (c, k', cl') R)"
  by (auto simp: covered_def nth_list_update)

lemma covered_same: "covered cs (add_mset (c, k, cl) R) \<Longrightarrow> covered cs (add_mset (c, k', cl') R)"
  by (auto simp: covered_def)

lemma covered_drop:
  "covered cs (add_mset (c, k, cl) R) \<Longrightarrow> cl_state x = CLOSED \<Longrightarrow> covered (cs[c := x]) R"
  by (cases "c < length cs") (auto simp: covered_def nth_list_update split: if_splits)

lemma covered_drop_same: "covered cs (add_mset (c, k, cl) R) \<Longrightarrow> cl_state (cs ! c) = CLOSED \<Longrightarrow> covered cs R"
  by (auto simp: covered_def)

definition refs_inv :: "PoolInner \<Rightarrow> pool_task multiset \<Rightarrow> bool" where
  "refs_inv p M \<longleftrightarrow> refs_ok (po_clients p) (refs p M) \<and> covered (po_clients p) (refs p M)"

text \<open>A step of a task keeps its reference, changes the client it refers to, or gives the reference up.\<close>

lemma refs_inv_ref: "refs_inv p (add_mset t M) \<Longrightarrow> task_ref t = [r] \<Longrightarrow> ref_ok (po_clients p) r"
  by (auto simp: refs_inv_def dest: refs_ok_head)

lemma refs_inv_keep:
  assumes "refs_inv p (add_mset t M)" and "task_ref t' = task_ref t" and "po_clients p' = po_clients p"
    and "po_available p' = po_available p"
  shows "refs_inv p' (add_mset t' M)"
  using assms by (simp add: refs_inv_def refs_def)

lemma refs_inv_move:
  assumes "refs_inv p (add_mset t M)" and "task_ref t = [(c, k, cl)]" and "task_ref t' = [(c, k', cl')]"
    and "po_clients p' = (po_clients p)[c := x]" and "po_available p' = po_available p"
    and "ref_ok (po_clients p') (c, k', cl')"
  shows "refs_inv p' (add_mset t' M)"
proof -
  have "refs p' M = refs p M" using assms(5) by (simp add: refs_def)
  then show ?thesis
    using assms refs_ok_update [of "po_clients p" c k cl "refs p M" x k' cl']
      covered_update [of "po_clients p" c k cl "refs p M" x k' cl'] by (simp add: refs_inv_def del: ref_ok.simps)
qed

lemma refs_inv_leave:
  assumes "refs_inv p (add_mset t M)" and "task_ref t = [(c, k, cl)]" and "task_ref t' = []"
    and "po_clients p' = (po_clients p)[c := x]" and "po_available p' = po_available p" and "cl_state x = CLOSED"
  shows "refs_inv p' (add_mset t' M)"
proof -
  have "refs p' M = refs p M" using assms(5) by (simp add: refs_def)
  then show ?thesis
    using assms refs_ok_drop [of "po_clients p" c k cl "refs p M" x] covered_drop [of "po_clients p" c k cl "refs p M" x]
    by (simp add: refs_inv_def)
qed

lemma refs_inv_open:
  assumes "refs_inv p (add_mset t M)" and "task_ref t = []" and "open_connection a opened failed p = Some (t', p')"
    and "\<And>c. task_ref (opened c) = [(c, False, True)]" and "\<And>e. task_ref (failed e) = []"
  shows "refs_inv p' (add_mset t' M)"
  using assms refs_ok_new [of "po_clients p" "refs p M"] covered_new [of "po_clients p" "refs p M"]
  by (auto simp: refs_inv_def open_connection_def split: pool_answer.splits)

lemma acquire_step_refs:
  assumes "refs_inv p (add_mset t M)" and "acquire_step a t p = Some (t', p')"
  shows "refs_inv p' (add_mset t' M)"
  using assms by (cases t) (auto simp: refs_inv_def split: pool_answer.splits if_splits)

lemma take_idle_step_refs:
  assumes "refs_inv p (add_mset t M)" and "take_idle_step u t p = Some (t', p')"
  shows "refs_inv p' (add_mset t' M)"
proof (cases t)
  case (TryIdle c)
  then have ok: "ref_ok (po_clients p) (c, True, True)" using refs_inv_ref [OF assms(1)] by simp
  show ?thesis
  proof (cases "client_state_of p c = IDLE")
    case True
    then show ?thesis
      using TryIdle assms(2) ok
      by (intro refs_inv_move [OF assms(1), of c True True _ False True _ "(po_clients p ! c)\<lparr> cl_state := CHECKED_OUT \<rparr>"]) auto
  next
    case False
    then show ?thesis
      using TryIdle assms(2) ok
      by (intro refs_inv_leave [OF assms(1), of c True True _ _ "po_clients p ! c"])
        (auto simp: client_state_of_def intro: client_state.exhaust)
  qed
next
  case (SwapClosed c)
  then show ?thesis
    using assms(2)
    by (intro refs_inv_leave [OF assms(1), of c False True _ _ "(po_clients p ! c)\<lparr> cl_state := CLOSED \<rparr>"]) auto
qed (use assms refs_pop [of p M] in \<open>auto simp: refs_inv_def split: if_splits\<close>)

lemma register_step_refs:
  assumes "refs_inv p (add_mset t M)" and "register_step a t p = Some (t', p')"
  shows "refs_inv p' (add_mset t' M)"
proof (cases t)
  case Connecting
  then show ?thesis using assms(2) by (auto intro: refs_inv_open [OF assms(1)])
next
  case (Spawning c)
  then have "ref_ok (po_clients p) (c, False, True)" using refs_inv_ref [OF assms(1)] by simp
  then show ?thesis
    using Spawning assms(2)
    by (intro refs_inv_move [OF assms(1), of c False True _ False True _ "(po_clients p ! c)\<lparr> cl_driver := Running \<rparr>"]) auto
qed (use assms in \<open>auto simp: refs_inv_def\<close>)

lemma use_step_refs:
  assumes "refs_inv p (add_mset t M)" and "use_step a t p = Some (t', p')"
  shows "refs_inv p' (add_mset t' M)"
proof (cases t)
  case (Using c r)
  then have ok: "ref_ok (po_clients p) (c, False, r)" using refs_inv_ref [OF assms(1)] by simp
  have set_tx: "refs_inv (set_client c (cl_tx_update (\<lambda>_. b)) p) (add_mset (Using c r) M)" if "b \<Longrightarrow> \<not> r" for b
    using Using ok that
    by (intro refs_inv_move [OF assms(1), of c False r _ False r _ "(po_clients p ! c)\<lparr> cl_tx := b \<rparr>"]) auto
  have flag: "refs_inv p (add_mset (Using c r') M)" if "r' \<Longrightarrow> \<not> cl_tx (po_clients p ! c)" for r'
    using Using ok that by (intro refs_inv_move [OF assms(1), of c False r _ False r' _ "po_clients p ! c"]) auto
  have "refs_inv p (add_mset (Dropping c r) M)"
    using Using by (intro refs_inv_keep [OF assms(1)]) auto
  then show ?thesis
    using assms(2) Using set_tx flag [of False] flag [of True] by (cases a) (auto split: if_splits)
qed (use assms in auto)

lemma drop_step_refs:
  assumes "refs_inv p (add_mset t M)" and "drop_step u t p = Some (t', p')"
  shows "refs_inv p' (add_mset t' M)"
proof (cases t)
  case (DropSwap c r)
  then have ok: "ref_ok (po_clients p) (c, False, r)" using refs_inv_ref [OF assms(1)] by simp
  have gone: "refs_inv p (add_mset ReleasePermit M)" if "client_state_of p c \<noteq> CHECKED_OUT"
    using DropSwap ok that
    by (intro refs_inv_leave [OF assms(1), of c False r _ _ "po_clients p ! c"])
      (auto simp: client_state_of_def intro: client_state.exhaust)
  have evict: "refs_inv (set_client c (cl_state_update (\<lambda>_. CLOSED)) p) (add_mset CountEvicted M)"
    using DropSwap
    by (intro refs_inv_leave [OF assms(1), of c False r _ _ "(po_clients p ! c)\<lparr> cl_state := CLOSED \<rparr>"]) auto
  have "refs_inv (set_client c (cl_state_update (\<lambda>_. IDLE)) p) (add_mset (CountIdle c) M)" if r
    using DropSwap ok that
    by (intro refs_inv_move [OF assms(1), of c False r _ True True _ "(po_clients p ! c)\<lparr> cl_state := IDLE \<rparr>"]) auto
  with gone evict show ?thesis using DropSwap assms(2) by (auto split: if_splits)
qed (use assms in \<open>auto simp: refs_inv_def split: if_splits\<close>)

lemma prewarm_step_refs:
  assumes "refs_inv p (add_mset t M)" and "prewarm_step a t p = Some (t', p')"
  shows "refs_inv p' (add_mset t' M)"
proof (cases t)
  case (Prewarm n)
  have "refs_inv p (add_mset Ended M)" using Prewarm by (intro refs_inv_keep [OF assms(1)]) auto
  then show ?thesis using Prewarm assms(2) by (auto intro: refs_inv_open [OF assms(1)] split: if_splits)
next
  case (PrewarmSpawn n c)
  then have "ref_ok (po_clients p) (c, False, True)" using refs_inv_ref [OF assms(1)] by simp
  then show ?thesis
    using PrewarmSpawn assms(2)
    by (intro refs_inv_move [OF assms(1), of c False True _ False True _ "(po_clients p ! c)\<lparr> cl_driver := Running \<rparr>"]) auto
next
  case (PrewarmStore n c)
  then have "ref_ok (po_clients p) (c, False, True)" using refs_inv_ref [OF assms(1)] by simp
  then show ?thesis
    using PrewarmStore assms(2)
    by (intro refs_inv_move [OF assms(1), of c False True _ True True _ "(po_clients p ! c)\<lparr> cl_state := IDLE,
        cl_revived := cl_revived (po_clients p ! c) + (if cl_state (po_clients p ! c) = CLOSED then 1 else 0) \<rparr>"]) auto
qed (use assms in \<open>auto simp: refs_inv_def\<close>)

lemma task_step_cases:
  assumes "task_step a u t p = Some (t', p')"
  obtains "acquire_step a t p = Some (t', p')" | "take_idle_step u t p = Some (t', p')"
    | "register_step a t p = Some (t', p')" | "use_step a t p = Some (t', p')" | "drop_step u t p = Some (t', p')"
    | "prewarm_step a t p = Some (t', p')"
  using assms by (auto simp: task_step_def or_else_def split: option.splits)

lemma task_step_refs:
  assumes "refs_inv p (add_mset t M)" and "task_step a u t p = Some (t', p')"
  shows "refs_inv p' (add_mset t' M)"
  using task_step_cases [OF assms(2)]
    acquire_step_refs [OF assms(1)] take_idle_step_refs [OF assms(1)] register_step_refs [OF assms(1)]
    use_step_refs [OF assms(1)] drop_step_refs [OF assms(1)] prewarm_step_refs [OF assms(1)] by metis

section \<open>Permits and slots\<close>

definition pool_inv :: "PoolInner \<Rightarrow> pool_task multiset \<Rightarrow> bool" where
  "pool_inv p M \<longleftrightarrow> refs_inv p M \<and> po_permits p + (\<Sum>t \<in># M. permit t) = po_max p
     \<and> length (po_available p) + (\<Sum>t \<in># M. claimed_slots t) \<le> po_max p
     \<and> (\<forall>t. starting t \<longrightarrow> t \<in># M \<longrightarrow> M = {#t#})"

lemma task_step_permits:
  assumes "task_step a u t p = Some (t', p')"
  shows "po_permits p' + permit t' = po_permits p + permit t \<and> po_max p' = po_max p"
  by (rule task_step_cases [OF assms]; cases t) (auto simp: open_connection_def split: pool_answer.splits if_splits)

lemma task_step_slots:
  assumes "task_step a u t p = Some (t', p')"
  shows "length (po_available p') + claimed_slots t' \<le> length (po_available p) + claimed_slots t
    \<or> \<not> starting t \<and> permit t = 1 \<and> po_available p' = [] \<and> claimed_slots t' = 1"
  by (rule task_step_cases [OF assms]; cases t) (auto simp: open_connection_def split: pool_answer.splits if_splits)

lemma task_step_starting: "task_step a u t p = Some (t', p') \<Longrightarrow> starting t' \<Longrightarrow> starting t"
  by (erule task_step_cases; cases t) (auto simp: open_connection_def split: pool_answer.splits if_splits)

lemma claimed_le_permits:
  "(\<And>t. t \<in># M \<Longrightarrow> \<not> starting t) \<Longrightarrow> (\<Sum>t \<in># M. claimed_slots t) \<le> (\<Sum>t \<in># M. permit t)"
  by (induction M) (auto simp: permit_le add_mono)

lemma task_step_inv:
  assumes inv: "pool_inv p (add_mset t M)" and step: "task_step a u t p = Some (t', p')"
  shows "pool_inv p' (add_mset t' M)"
proof -
  have others: "\<not> starting x" if "x \<in># M" for x
    using inv that by (auto simp: pool_inv_def)
  have "length (po_available p') + (\<Sum>t \<in># add_mset t' M. claimed_slots t) \<le> po_max p'"
    using task_step_slots [OF step]
  proof
    assume new: "\<not> starting t \<and> permit t = 1 \<and> po_available p' = [] \<and> claimed_slots t' = 1"
    have "(\<Sum>t \<in># M. permit t) + 1 \<le> po_max p" using inv new by (auto simp: pool_inv_def)
    moreover have "(\<Sum>t \<in># M. claimed_slots t) \<le> (\<Sum>t \<in># M. permit t)" by (rule claimed_le_permits [OF others])
    ultimately show ?thesis using new task_step_permits [OF step] by simp
  qed (use inv task_step_permits [OF step] in \<open>auto simp: pool_inv_def\<close>)
  moreover have "refs_inv p' (add_mset t' M)" using inv by (intro task_step_refs [OF _ step]) (simp add: pool_inv_def)
  moreover have "po_permits p' + (\<Sum>t \<in># add_mset t' M. permit t) = po_max p'"
    using inv task_step_permits [OF step] by (auto simp: pool_inv_def)
  moreover have "add_mset t' M = {#x#}" if "starting x" "x \<in># add_mset t' M" for x
  proof -
    have "x = t'" using that others by auto
    then have "starting t" using task_step_starting [OF step] that(1) by simp
    moreover have "t \<in># add_mset t M" by simp
    ultimately have "add_mset t M = {#t#}" using inv unfolding pool_inv_def by blast
    then have "M = {#}" by simp
    then show ?thesis using \<open>x = t'\<close> by simp
  qed
  ultimately show ?thesis by (simp add: pool_inv_def)
qed

lemma cancel_step_inv:
  assumes "pool_inv p (add_mset t M)" and "cancel_step t p = Some (t', p')"
  shows "pool_inv p' (add_mset t' M)"
  using assms by (auto simp: cancel_step_def pool_inv_def refs_inv_def split: pool_task.splits)

lemma refs_inv_client:
  assumes "refs_inv p M" and "po_available p' = po_available p" and "po_clients p' = (po_clients p)[c := x]"
    and "cl_state x = cl_state (po_clients p ! c) \<or> cl_state x = CLOSED" and "cl_tx x = cl_tx (po_clients p ! c)"
  shows "refs_inv p' M"
proof -
  have rf: "refs p' M = refs p M" using assms(2) by (simp add: refs_def)
  have "ref_ok (po_clients p') r" if "ref_ok (po_clients p) r" for r
    using that assms(3-5) by (cases r; cases "fst r = c") (auto simp: nth_list_update)
  moreover have "covered (po_clients p') R" if "covered (po_clients p) R" for R
    using that assms(3,4) by (cases "c < length (po_clients p)") (auto simp: covered_def nth_list_update split: if_splits)
  ultimately show ?thesis using assms(1) unfolding refs_inv_def rf refs_ok_def by blast
qed

lemma close_connection_frame:
  assumes "close_connection r c p = Some p'"
  obtains x where "po_clients p' = (po_clients p)[c := x]" "cl_tx x = cl_tx (po_clients p ! c)"
    "cl_state x = cl_state (po_clients p ! c) \<or> cl_state x = CLOSED"
    "po_available p' = po_available p" "po_permits p' = po_permits p" "po_max p' = po_max p"
  using assms by (auto simp: close_connection_def Let_def split: driver_task.splits if_splits)

lemma close_connection_inv:
  assumes inv: "pool_inv p M" and op: "close_connection r c p = Some p'"
  shows "pool_inv p' M"
proof -
  from op obtain x where x: "po_clients p' = (po_clients p)[c := x]" "cl_tx x = cl_tx (po_clients p ! c)"
    "cl_state x = cl_state (po_clients p ! c) \<or> cl_state x = CLOSED"
    "po_available p' = po_available p" "po_permits p' = po_permits p" "po_max p' = po_max p"
    by (rule close_connection_frame)
  have "refs_inv p M" using inv by (simp add: pool_inv_def)
  from refs_inv_client [OF this x(4,1,3,2)] show ?thesis using inv x by (simp add: pool_inv_def)
qed

lemma mset_tasks:
  assumes "i < length ts"
  obtains M where "mset ts = add_mset (ts ! i) M" "\<And>t. mset (ts[i := t]) = add_mset t M"
  using assms by (metis insert_DiffM mset_update nth_mem_mset add_mset_remove_trivial)

lemma pool_step_inv:
  assumes "pool_inv (ps_pool s) (mset (ps_tasks s))" and "pool_step e s = Some s'"
  shows "pool_inv (ps_pool s') (mset (ps_tasks s'))"
proof (cases e)
  case Spawn
  then have "\<And>t. t \<in># mset (ps_tasks s) \<Longrightarrow> \<not> starting t"
    using assms(2) by (auto simp: list_ex_iff split: if_splits)
  then show ?thesis using Spawn assms by (auto simp: pool_inv_def refs_inv_def split: if_splits)
next
  case (Advance i a)
  then obtain t p where i: "i < length (ps_tasks s)" and
    st: "task_step a (\<not> list_ex holds_lock (ps_tasks s)) (ps_tasks s ! i) (ps_pool s) = Some (t, p)"
    "s' = \<lparr> ps_pool = p, ps_tasks = (ps_tasks s)[i := t] \<rparr>"
    using assms(2) by (auto split: if_splits)
  obtain M where "mset (ps_tasks s) = add_mset (ps_tasks s ! i) M" "mset ((ps_tasks s)[i := t]) = add_mset t M"
    using mset_tasks [OF i] by metis
  then show ?thesis using task_step_inv [OF _ st(1)] assms(1) st(2) by simp
next
  case (Cancel i)
  then obtain t p where i: "i < length (ps_tasks s)" and st: "cancel_step (ps_tasks s ! i) (ps_pool s) = Some (t, p)"
    "s' = \<lparr> ps_pool = p, ps_tasks = (ps_tasks s)[i := t] \<rparr>"
    using assms(2) by (auto split: if_splits)
  obtain M where "mset (ps_tasks s) = add_mset (ps_tasks s ! i) M" "mset ((ps_tasks s)[i := t]) = add_mset t M"
    using mset_tasks [OF i] by metis
  then show ?thesis using cancel_step_inv [OF _ st(1)] assms(1) st(2) by simp
next
  case (Drive c)
  then show ?thesis using assms by (auto intro: close_connection_inv split: if_splits)
qed

lemma pool_reachable_inv: "pool_reachable s \<Longrightarrow> pool_inv (ps_pool s) (mset (ps_tasks s))"
proof (induction rule: pool_reachable.induct)
  case (connect n)
  then show ?case by (simp add: new_pool_def pool_inv_def refs_inv_def refs_def refs_ok_def covered_def)
next
  case from_client
  then show ?case
    by (auto simp: from_client_def pool_inv_def refs_inv_def refs_def refs_ok_def covered_def new_client_def)
qed (rule pool_step_inv)

section \<open>Guarantees\<close>

lemma distinct_concat_nth:
  "distinct (concat xss) \<Longrightarrow> i < length xss \<Longrightarrow> j < length xss \<Longrightarrow> i \<noteq> j \<Longrightarrow> x \<in> set (xss ! i) \<Longrightarrow> x \<notin> set (xss ! j)"
proof (induction xss arbitrary: i j)
  case (Cons xs xss)
  have later: "x \<notin> set (xss ! k) \<or> x \<notin> set xs" if "k < length xss" for k
    using Cons.prems(1) nth_mem [OF that] by (simp add: disjoint_iff) blast
  show ?case
  proof (cases i)
    case 0
    then obtain k where "j = Suc k" using Cons.prems(4) by (cases j) auto
    then show ?thesis using 0 Cons.prems later [of k] by simp
  next
    case (Suc k)
    then show ?thesis using Cons later [of k] by (cases j) auto
  qed
qed simp

definition holders :: "pool_system \<Rightarrow> nat list" where
  "holders s = po_available (ps_pool s) @ concat (map (map fst \<circ> task_ref) (ps_tasks s))"

lemma mset_holders: "image_mset fst (refs (ps_pool s) (mset (ps_tasks s))) = mset (holders s)"
proof -
  have "image_mset fst (\<Sum>t \<in># mset ts. mset (task_ref t)) = mset (concat (map (map fst \<circ> task_ref) ts))" for ts
    by (induction ts) simp_all
  then show ?thesis by (simp add: holders_def refs_def image_mset.compositionality comp_def)
qed

lemma holders_distinct:
  assumes "pool_reachable s"
  shows "distinct (holders s)"
proof -
  have "\<forall>c. count (mset (holders s)) c \<le> 1"
    using pool_reachable_inv [OF assms] unfolding pool_inv_def refs_inv_def refs_ok_def mset_holders by blast
  then show ?thesis
    unfolding distinct_count_atmost_1 by (metis count_greater_eq_one_iff le_antisym set_mset_mset not_in_iff)
qed

lemma task_ref_ok:
  assumes "pool_reachable s" and "i < length (ps_tasks s)" and "r \<in> set (task_ref (ps_tasks s ! i))"
  shows "ref_ok (po_clients (ps_pool s)) r"
proof -
  obtain M where "mset (ps_tasks s) = add_mset (ps_tasks s ! i) M" by (metis mset_tasks [OF assms(2)])
  then have "r \<in># refs (ps_pool s) (mset (ps_tasks s))" using assms(3) by simp
  then show ?thesis
    using pool_reachable_inv [OF assms(1)] unfolding pool_inv_def refs_inv_def refs_ok_def by blast
qed

text \<open>C28. A checkout is exclusive: in every interleaving of acquisitions, drops, cancellations and dying
  connections, a connection in use is neither on the stack nor known to any other task, it is not marked
  idle, and a connection that would return to the stack carries no open transaction.\<close>

theorem checkouts_exclusive:
  assumes "pool_reachable s" and "i < length (ps_tasks s)" and "ps_tasks s ! i = Using c r"
  shows "c \<notin> set (po_available (ps_pool s))
    \<and> (\<forall>j < length (ps_tasks s). j \<noteq> i \<longrightarrow> c \<notin> fst ` set (task_ref (ps_tasks s ! j)))
    \<and> c < length (po_clients (ps_pool s)) \<and> client_state_of (ps_pool s) c \<noteq> IDLE
    \<and> (r \<longrightarrow> \<not> cl_tx (po_clients (ps_pool s) ! c))"
proof -
  let ?rs = "map (map fst \<circ> task_ref) (ps_tasks s)"
  have d: "distinct (concat ?rs)" "set (po_available (ps_pool s)) \<inter> set (concat ?rs) = {}"
    using holders_distinct [OF assms(1)] by (simp_all add: holders_def)
  have c: "c \<in> set (?rs ! i)" "?rs ! i \<in> set ?rs" using assms(2,3) nth_mem [of i ?rs] by simp_all
  have "c \<notin> set (po_available (ps_pool s))" using d(2) c unfolding set_concat by blast
  moreover have "c \<notin> fst ` set (task_ref (ps_tasks s ! j))" if "j < length (ps_tasks s)" "j \<noteq> i" for j
    using distinct_concat_nth [OF d(1), of i j c] c(1) that assms(2) by simp
  ultimately show ?thesis
    using task_ref_ok [OF assms(1,2)] assms(3) by (simp add: client_state_of_def)
qed

text \<open>C29. The pool is bounded: permits are conserved, whatever fails or is cancelled, so that at most
  \<open>max_connections\<close> tasks hold a connection or open one, and never more than \<open>max_connections\<close> connections
  are open.\<close>

theorem pool_is_bounded:
  assumes "pool_reachable s"
  shows "po_permits (ps_pool s) + length (filter (\<lambda>t. permit t = 1) (ps_tasks s)) = po_max (ps_pool s)
    \<and> length (filter (\<lambda>c. cl_state c \<noteq> CLOSED) (po_clients (ps_pool s))) \<le> po_max (ps_pool s)"
proof -
  note inv = pool_reachable_inv [OF assms, unfolded pool_inv_def]
  have "permit t = 0 \<or> permit t = 1" for t by (cases t) simp_all
  then have "(\<Sum>t \<in># mset ts. permit t) = length (filter (\<lambda>t. permit t = 1) ts)" for ts
    by (induction ts) fastforce+
  moreover have "length (task_ref t) \<le> claimed_slots t" for t by (cases t) simp_all
  then have "length (concat (map (map fst \<circ> task_ref) ts)) \<le> (\<Sum>t \<in># mset ts. claimed_slots t)" for ts
    by (induction ts) (simp_all add: add_mono)
  then have le: "length (holders s) \<le> po_max (ps_pool s)"
    using inv unfolding holders_def by (metis (no_types, lifting) add_left_mono length_append order_trans)
  let ?cs = "po_clients (ps_pool s)" and ?open = "\<lambda>c. cl_state (po_clients (ps_pool s) ! c) \<noteq> CLOSED"
  have "\<forall>c < length ?cs. ?open c \<longrightarrow> c \<in># mset (holders s)"
    using inv unfolding refs_inv_def covered_def mset_holders by blast
  then have "set (filter ?open [0..<length ?cs]) \<subseteq> set (holders s)" by auto
  then have some: "length (filter ?open [0..<length ?cs]) \<le> length (holders s)"
    using card_mono [OF List.finite_set, of "set (filter ?open [0..<length ?cs])" "holders s"]
      distinct_card [of "filter ?open [0..<length ?cs]"] card_length [of "holders s"]
    by (simp del: set_filter)
  have "map (\<lambda>c. ?cs ! c) (filter ?open [0..<length ?cs]) = filter (\<lambda>c. cl_state c \<noteq> CLOSED) ?cs"
    by (subst (3) map_nth [symmetric]) (simp only: filter_map comp_def)
  from arg_cong [OF this, of length]
  have "length (filter (\<lambda>c. cl_state c \<noteq> CLOSED) ?cs) = length (filter ?open [0..<length ?cs])" by simp
  moreover have "po_permits (ps_pool s) + (\<Sum>t \<in># mset (ps_tasks s). permit t) = po_max (ps_pool s)" using inv by blast
  ultimately show ?thesis using le some by simp
qed

section \<open>Connections of unknown state\<close>

lemma referenced_iff:
  "referenced s c \<longleftrightarrow> c \<in> set (po_available (ps_pool s)) \<or> (\<exists>t \<in> set (ps_tasks s). c \<in> fst ` set (task_ref t))"
  by (auto simp: referenced_def image_iff)

lemma task_step_no_ref:
  assumes "task_step a u t p = Some (t', p')" and "c < length (po_clients p)"
  shows "c \<in> set (po_available p') \<union> fst ` set (task_ref t') \<Longrightarrow> c \<in> set (po_available p) \<union> fst ` set (task_ref t)"
    "length (po_clients p) \<le> length (po_clients p')"
  by (rule task_step_cases [OF assms(1)]; use assms(2) in \<open>cases t\<close>;
      auto simp: open_connection_def dest: in_set_butlastD split: pool_answer.splits if_splits)+

lemma pool_step_no_ref:
  assumes "pool_step e s = Some s'" and "c < length (po_clients (ps_pool s))" and "\<not> referenced s c"
  shows "\<not> referenced s' c \<and> c < length (po_clients (ps_pool s'))"
proof (cases e)
  case (Advance i a)
  then obtain t p where i: "i < length (ps_tasks s)" and
    st: "task_step a (\<not> list_ex holds_lock (ps_tasks s)) (ps_tasks s ! i) (ps_pool s) = Some (t, p)"
    "s' = \<lparr> ps_pool = p, ps_tasks = (ps_tasks s)[i := t] \<rparr>"
    using assms(1) by (auto split: if_splits)
  have "set ((ps_tasks s)[i := t]) \<subseteq> insert t (set (ps_tasks s))" by (rule set_update_subset_insert)
  then show ?thesis
    using task_step_no_ref [OF st(1) assms(2)] assms(2,3) st(2) nth_mem [OF i]
    unfolding referenced_def by (auto simp: image_iff)
next
  case (Cancel i)
  then obtain t p where i: "i < length (ps_tasks s)" and st: "cancel_step (ps_tasks s ! i) (ps_pool s) = Some (t, p)"
    "s' = \<lparr> ps_pool = p, ps_tasks = (ps_tasks s)[i := t] \<rparr>"
    using assms(1) by (auto split: if_splits)
  then have "task_ref t = []" "po_available p = po_available (ps_pool s)" "po_clients p = po_clients (ps_pool s)"
    by (auto simp: cancel_step_def split: pool_task.splits)
  moreover have "c \<notin> fst ` set (task_ref x)" if "x \<in> set ((ps_tasks s)[i := t])" for x
  proof -
    have "x = t \<or> x \<in> set (ps_tasks s)" using set_update_subset_insert [of "ps_tasks s" i t] that by blast
    then show ?thesis using calculation(1) assms(3) unfolding referenced_iff by auto
  qed
  ultimately show ?thesis
    using assms(2,3) unfolding referenced_iff st(2) pool_system.select_convs by simp
next
  case (Drive x)
  then obtain p where p: "close_connection (referenced s x) x (ps_pool s) = Some p" "s' = s\<lparr> ps_pool := p \<rparr>"
    using assms(1) by (auto split: if_splits)
  from p(1) have "po_available p = po_available (ps_pool s)" "length (po_clients p) = length (po_clients (ps_pool s))"
    by (rule close_connection_frame, simp)+
  then show ?thesis using assms(2,3) p(2) by (simp add: referenced_def)
qed (use assms in \<open>auto simp: referenced_iff split: if_splits\<close>)

lemma pool_run_no_ref:
  "pool_run es s = Some s' \<Longrightarrow> c < length (po_clients (ps_pool s)) \<Longrightarrow> \<not> referenced s c \<Longrightarrow> \<not> referenced s' c"
  by (induction es arbitrary: s) (auto dest: pool_step_no_ref split: option.splits)

text \<open>C30. A connection in an uncertain state never comes back: once a connection is dropped without being
  marked reusable, because its transaction failed, timed out or was cancelled before a complete \<open>COMMIT\<close> or
  \<open>ROLLBACK\<close>, no later run of the pool lets any task refer to it again.\<close>

theorem uncertain_connections_are_evicted:
  assumes "pool_reachable s" and "i < length (ps_tasks s)" and "ps_tasks s ! i = DropSwap c False"
    and "pool_run (Advance i Proceed # es) s = Some s'"
  shows "\<not> referenced s' c"
proof -
  let ?rs = "map (map fst \<circ> task_ref) (ps_tasks s)"
  have d: "distinct (concat ?rs)" "set (po_available (ps_pool s)) \<inter> set (concat ?rs) = {}"
    using holders_distinct [OF assms(1)] by (simp_all add: holders_def)
  have c: "c \<in> set (?rs ! i)" "?rs ! i \<in> set ?rs" using assms(2,3) nth_mem [of i ?rs] by simp_all
  have lt: "c < length (po_clients (ps_pool s))" using task_ref_ok [OF assms(1,2)] assms(3) by simp
  obtain p t where st: "pool_step (Advance i Proceed) s = Some \<lparr> ps_pool = p, ps_tasks = (ps_tasks s)[i := t] \<rparr>"
    "task_ref t = []" "po_available p = po_available (ps_pool s)" "length (po_clients p) = length (po_clients (ps_pool s))"
    using assms(2,3) by (cases "client_state_of (ps_pool s) c = CHECKED_OUT") (auto simp: task_step_def or_else_def)
  have "\<not> referenced \<lparr> ps_pool = p, ps_tasks = (ps_tasks s)[i := t] \<rparr> c"
  proof
    assume "referenced \<lparr> ps_pool = p, ps_tasks = (ps_tasks s)[i := t] \<rparr> c"
    then consider "c \<in> set (po_available (ps_pool s))"
      | j where "j < length (ps_tasks s)" "c \<in> fst ` set (task_ref ((ps_tasks s)[i := t] ! j))"
      using st(3) unfolding referenced_iff by (metis in_set_conv_nth length_list_update pool_system.select_convs)
    then show False
    proof cases
      case 1
      then show False using d(2) c unfolding set_concat by blast
    next
      case 2
      then show False
        using distinct_concat_nth [OF d(1), of i j c] c(1) assms(2) st(2) by (cases "j = i") auto
    qed
  qed
  from pool_run_no_ref [OF _ _ this, of es s'] show ?thesis using assms(4) st(1,4) lt by simp
qed

end
