(* ===== verification/Pool_Progress.thy ===== *)
theory Pool_Progress
  imports Pool_Safety
begin

text \<open>
  Progress and accounting of the connection pool: an acquisition with a permit finishes and takes the topmost
  usable connection, and the counters that the metrics read agree with the pool in every quiet state, up to
  the races that are exhibited as runs.
\<close>

section \<open>Progress\<close>

definition runs :: "nat \<Rightarrow> pool_system \<Rightarrow> pool_system \<Rightarrow> bool" where
  "runs i s s' \<longleftrightarrow> (\<exists>k. pool_run (replicate k (Advance i Proceed)) s = Some s')"

lemma runs_refl: "runs i s s"
  unfolding runs_def by (rule exI [of _ 0]) simp

lemma runs_step:
  assumes "i < length ts" and "\<And>u. task_step Proceed u t p = Some (t', q)"
    and "runs i \<lparr> ps_pool = q, ps_tasks = ts[i := t'] \<rparr> s'"
  shows "runs i \<lparr> ps_pool = p, ps_tasks = ts[i := t] \<rparr> s'"
proof -
  from assms(3) obtain k where
    "pool_run (replicate k (Advance i Proceed)) \<lparr> ps_pool = q, ps_tasks = ts[i := t'] \<rparr> = Some s'"
    by (auto simp: runs_def)
  then have "pool_run (replicate (Suc k) (Advance i Proceed)) \<lparr> ps_pool = p, ps_tasks = ts[i := t] \<rparr> = Some s'"
    using assms(1,2) by simp
  then show ?thesis unfolding runs_def by blast
qed

lemma pool_run_append:
  "pool_run (es @ fs) s = (case pool_run es s of None \<Rightarrow> None | Some s' \<Rightarrow> pool_run fs s')"
  by (induction es arbitrary: s) (auto split: option.splits)

lemma available_valid:
  assumes "pool_reachable s"
  shows "set (po_available (ps_pool s)) \<subseteq> {..<length (po_clients (ps_pool s))}"
proof
  fix c
  assume "c \<in> set (po_available (ps_pool s))"
  then have "(c, True, True) \<in># refs (ps_pool s) (mset (ps_tasks s))" by (simp add: refs_def)
  then have "ref_ok (po_clients (ps_pool s)) (c, True, True)"
    using pool_reachable_inv [OF assms] unfolding pool_inv_def refs_inv_def refs_ok_def by blast
  then show "c \<in> {..<length (po_clients (ps_pool s))}" by simp
qed

definition usable :: "PoolInner \<Rightarrow> nat \<Rightarrow> bool" where
  "usable p c \<longleftrightarrow> client_state_of p c = IDLE \<and> \<not> is_closed (po_clients p ! c)"

definition acquired :: "nat \<Rightarrow> nat option \<Rightarrow> pool_system \<Rightarrow> bool" where
  "acquired i found s \<longleftrightarrow> (case found of
     Some c \<Rightarrow> ps_tasks s ! i = Using c True \<and> \<not> is_closed (po_clients (ps_pool s) ! c)
   | None \<Rightarrow> ps_tasks s ! i = Connecting \<and> po_available (ps_pool s) = [])"

lemma step_results:
  "po_available p \<noteq> [] \<Longrightarrow> task_step a u Popping p
     = Some (TryIdle (last (po_available p)), p\<lparr> po_available := butlast (po_available p) \<rparr>)"
  "client_state_of p c \<noteq> IDLE \<Longrightarrow> task_step a u (TryIdle c) p = Some (Popping, p)"
  "client_state_of p c = IDLE \<Longrightarrow>
     task_step a u (TryIdle c) p = Some (CountOut c, set_client c (cl_state_update (\<lambda>_. CHECKED_OUT)) p)"
  "task_step a u (CountOut c) p = Some (CheckOpen c, p\<lparr> po_idle := po_idle p - 1 \<rparr>)"
  "\<not> is_closed (po_clients p ! c) \<Longrightarrow> task_step a u (CheckOpen c) p = Some (Using c True, p)"
  "is_closed (po_clients p ! c) \<Longrightarrow> task_step a u (CheckOpen c) p = Some (SwapClosed c, p)"
  "client_state_of p c \<noteq> CLOSED \<Longrightarrow>
     task_step a u (SwapClosed c) p = Some (CountClosed, set_client c (cl_state_update (\<lambda>_. CLOSED)) p)"
  "task_step a u CountClosed p = Some (Popping, p\<lparr> po_open := po_open p - 1 \<rparr>)"
  "po_available p = [] \<Longrightarrow> task_step a u Popping p = Some (Connecting, p)"
  by (simp_all add: task_step_def or_else_def)

lemma take_idle_loop:
  assumes i: "i < length ts" and "distinct (po_available p)" and "set (po_available p) \<subseteq> {..<length (po_clients p)}"
  shows "\<exists>s'. runs i \<lparr> ps_pool = p, ps_tasks = ts[i := Popping] \<rparr> s'
    \<and> acquired i (find (usable p) (rev (po_available p))) s'"
  using assms(2,3)
proof (induction "po_available p" arbitrary: p rule: rev_induct)
  case Nil
  then have "runs i \<lparr> ps_pool = p, ps_tasks = ts[i := Popping] \<rparr> \<lparr> ps_pool = p, ps_tasks = ts[i := Connecting] \<rparr>"
    by (intro runs_step [OF i step_results(9) runs_refl]) simp
  then show ?case using Nil i by (fastforce simp: acquired_def)
next
  case (snoc c xs)
  let ?p = "p\<lparr> po_available := xs \<rparr>" and ?at = "\<lambda>p t. \<lparr> ps_pool = p, ps_tasks = ts[i := t] \<rparr>"
  have av: "po_available p = xs @ [c]" using snoc.hyps(2) by simp
  have c: "c < length (po_clients p)" "c \<notin> set xs" using snoc.prems av by auto
  have popped: "runs i (?at p Popping) s'" if "runs i (?at ?p (TryIdle c)) s'" for s'
    by (rule runs_step [OF i _ that]) (use step_results(1) [of p] av in simp)
  have IH: "\<exists>s'. runs i (?at q Popping) s' \<and> acquired i (find (usable q) (rev xs)) s'"
    if "po_available q = xs" "length (po_clients q) = length (po_clients p)" for q
    using snoc.hyps(1) [of q] that snoc.prems av by simp
  show ?case
  proof (cases "client_state_of p c = IDLE")
    case False
    obtain s' where s': "runs i (?at ?p Popping) s'" "acquired i (find (usable ?p) (rev xs)) s'" using IH [of ?p] by auto
    have "runs i (?at ?p (TryIdle c)) s'"
      by (rule runs_step [OF i step_results(2) s'(1)]) (use False in \<open>simp add: client_state_of_def\<close>)
    moreover have "usable ?p = usable p" by (simp add: usable_def client_state_of_def fun_eq_iff)
    ultimately show ?thesis using popped s'(2) False by (auto simp: av usable_def [of p c])
  next
    case True
    define q where "q = (set_client c (cl_state_update (\<lambda>_. CHECKED_OUT)) ?p)\<lparr> po_idle := po_idle p - 1 \<rparr>"
    have out: "runs i (?at ?p (TryIdle c)) s'" if "runs i (?at q (CheckOpen c)) s'" for s'
    proof (rule runs_step [OF i step_results(3)])
      show "runs i (?at (set_client c (cl_state_update (\<lambda>_. CHECKED_OUT)) ?p) (CountOut c)) s'"
        by (rule runs_step [OF i step_results(4)]) (use that in \<open>simp add: q_def\<close>)
    qed (use True in \<open>simp add: client_state_of_def\<close>)
    have closed: "is_closed (po_clients q ! c) \<longleftrightarrow> is_closed (po_clients p ! c)"
      using c by (simp add: q_def is_closed_def)
    show ?thesis
    proof (cases "is_closed (po_clients p ! c)")
      case False
      then have "runs i (?at q (CheckOpen c)) (?at q (Using c True))" using closed
        by (intro runs_step [OF i step_results(5) runs_refl]) simp
      moreover have "acquired i (Some c) (?at q (Using c True))" using i False closed by (simp add: acquired_def)
      ultimately show ?thesis using popped out True False by (auto simp: av usable_def)
    next
      case gone: True
      define q' where "q' = (set_client c (cl_state_update (\<lambda>_. CLOSED)) q)\<lparr> po_open := po_open q - 1 \<rparr>"
      obtain s' where s': "runs i (?at q' Popping) s'" "acquired i (find (usable q') (rev xs)) s'"
        using IH [of q'] by (auto simp: q'_def q_def)
      have st: "client_state_of q c \<noteq> CLOSED" using c by (simp add: client_state_of_def q_def)
      have "runs i (?at (set_client c (cl_state_update (\<lambda>_. CLOSED)) q) CountClosed) s'"
        by (rule runs_step [OF i step_results(8)]) (use s'(1) in \<open>simp add: q'_def\<close>)
      from runs_step [OF i step_results(6) runs_step [OF i step_results(7) this]] gone closed st
      have "runs i (?at q (CheckOpen c)) s'" by simp
      moreover have "find (usable q') (rev xs) = find (usable p) (rev xs)"
      proof (rule find_cong [OF refl])
        fix x
        assume "x \<in> set (rev xs)"
        then have "c \<noteq> x" using c by auto
        then show "usable q' x = usable p x" by (simp add: usable_def client_state_of_def q'_def q_def)
      qed
      ultimately show ?thesis using popped out s'(2) gone by (auto simp: av usable_def [of p c])
    qed
  qed
qed

text \<open>C31. An acquisition that gets a permit finishes: left to itself, it pops the stack until it finds a
  connection that is idle and alive, takes the topmost such connection, and opens a new one exactly when
  there is none.\<close>

theorem acquire_takes_idle:
  assumes "pool_reachable s" and "i < length (ps_tasks s)" and "ps_tasks s ! i = AwaitPermit"
    and "0 < po_permits (ps_pool s)" and "\<not> list_ex holds_lock (ps_tasks s)"
  shows "\<exists>k s'. pool_run (Advance i Granted # replicate k (Advance i Proceed)) s = Some s'
    \<and> acquired i (find (usable (ps_pool s)) (rev (po_available (ps_pool s)))) s'"
proof -
  let ?ts = "ps_tasks s" and ?p = "ps_pool s"
  define p1 where "p1 = ?p\<lparr> po_permits := po_permits ?p - 1, po_waiters := po_waiters ?p - 1, po_in_use := po_in_use ?p + 1 \<rparr>"
  have free: "\<not> list_ex holds_lock (?ts[i := t])" if "\<not> holds_lock t" for t
    using assms(5) that set_update_subset_insert [of ?ts i t] by (auto simp: list_ex_iff)
  have "pool_run [Advance i Granted, Advance i Proceed, Advance i Proceed, Advance i Proceed] s
      = Some \<lparr> ps_pool = p1, ps_tasks = ?ts[i := Popping] \<rparr>"
    using assms(2-4) free [of LockAvailable] by (simp add: task_step_def or_else_def p1_def)
  moreover have "distinct (po_available p1)" "set (po_available p1) \<subseteq> {..<length (po_clients p1)}"
    using holders_distinct [OF assms(1)] available_valid [OF assms(1)] by (auto simp: p1_def holders_def)
  from take_idle_loop [OF assms(2) this] obtain k s' where
    "pool_run (replicate k (Advance i Proceed)) \<lparr> ps_pool = p1, ps_tasks = ?ts[i := Popping] \<rparr> = Some s'"
    "acquired i (find (usable p1) (rev (po_available p1))) s'" by (auto simp: runs_def)
  moreover have "usable p1 = usable ?p" "po_available p1 = po_available ?p"
    by (simp_all add: usable_def client_state_of_def p1_def fun_eq_iff)
  ultimately have "pool_run ([Advance i Granted, Advance i Proceed, Advance i Proceed, Advance i Proceed]
      @ replicate k (Advance i Proceed)) s = Some s' \<and> acquired i (find (usable ?p) (rev (po_available ?p))) s'"
    by (simp only: pool_run_append option.case simp_thms)
  then show ?thesis by (intro exI [of _ "Suc (Suc (Suc k))"] exI [of _ s']) (simp del: pool_run.simps)
qed

section \<open>The counters\<close>

text \<open>What a task and a client contribute to the counters; an increment that is still to come counts
  negatively, a decrement that is still to come positively.\<close>

fun waits :: "pool_task \<Rightarrow> nat" where
  "waits AwaitPermit = 1"
| "waits GotPermit = 1"
| "waits (NoPermit m) = 1"
| "waits CancelledWaiting = 1"
| "waits t = 0"

fun uses :: "pool_task \<Rightarrow> nat" where
  "uses LockAvailable = 1"
| "uses Connecting = 1"
| "uses (Registering c) = 1"
| "uses (Spawning c) = 1"
| "uses (ConnectFailed e) = 1"
| "uses (Using c r) = 1"
| "uses (Dropping c r) = 1"
| "uses CancelledConnecting = 1"
| "uses t = (if holds_lock t then 1 else 0)"

fun idle_task :: "pool_task \<Rightarrow> int" where
  "idle_task (CountOut c) = 1"
| "idle_task (CountIdle c) = - 1"
| "idle_task (PrewarmCount n c) = - 1"
| "idle_task t = 0"

fun open_task :: "pool_task \<Rightarrow> int" where
  "open_task CountClosed = 1"
| "open_task CountEvicted = 1"
| "open_task (Registering c) = - 1"
| "open_task (PrewarmRegister n c) = - 1"
| "open_task t = 0"

definition idle_client :: "PooledClient \<Rightarrow> int" where
  "idle_client c = (if cl_state c = IDLE then 1 else 0)
     + (if cl_driver c = Closing IDLE \<or> cl_driver c = ClosingIdle then 1 else 0)"

definition open_client :: "PooledClient \<Rightarrow> int" where
  "open_client c = (if cl_state c \<noteq> CLOSED then 1 else 0) + (if \<exists>st. cl_driver c = Closing st then 1 else 0)
     - int (cl_revived c)"

definition counters_ok :: "PoolInner \<Rightarrow> pool_task multiset \<Rightarrow> bool" where
  "counters_ok p M \<longleftrightarrow> po_waiters p = of_nat (\<Sum>t \<in># M. waits t) \<and> po_in_use p = of_nat (\<Sum>t \<in># M. uses t)
     \<and> po_idle p = of_int (sum_list (map idle_client (po_clients p)) + (\<Sum>t \<in># M. idle_task t))
     \<and> po_open p = of_int (sum_list (map open_client (po_clients p)) + (\<Sum>t \<in># M. open_task t))"

lemma sum_list_update_int:
  "c < length cs \<Longrightarrow> sum_list (map f (cs[c := x])) = sum_list (map f cs) - f (cs ! c) + f x" for f :: "'x \<Rightarrow> int"
  by (subst (2) id_take_nth_drop [of c cs]) (simp_all add: upd_conv_take_nth_drop)

text \<open>A step of a task contributes to the counters what it changes of them.\<close>

definition accounts :: "pool_task \<Rightarrow> PoolInner \<Rightarrow> pool_task \<Rightarrow> PoolInner \<Rightarrow> bool" where
  "accounts t p t' p' \<longleftrightarrow>
     po_waiters p' + of_nat (waits t) = po_waiters p + of_nat (waits t')
     \<and> po_in_use p' + of_nat (uses t) = po_in_use p + of_nat (uses t')
     \<and> po_idle p' + of_int (sum_list (map idle_client (po_clients p)) + idle_task t)
       = po_idle p + of_int (sum_list (map idle_client (po_clients p')) + idle_task t')
     \<and> po_open p' + of_int (sum_list (map open_client (po_clients p)) + open_task t)
       = po_open p + of_int (sum_list (map open_client (po_clients p')) + open_task t')"

lemma accounts_counters:
  assumes "counters_ok p (add_mset t M)" and "accounts t p t' p'"
  shows "counters_ok p' (add_mset t' M)"
  using assms by (auto simp: counters_ok_def accounts_def algebra_simps)

text \<open>A connection is not driven before its task has spawned the driver.\<close>

fun spawning :: "pool_task \<Rightarrow> nat list" where
  "spawning (Registering c) = [c]"
| "spawning (Spawning c) = [c]"
| "spawning (PrewarmRegister n c) = [c]"
| "spawning (PrewarmSpawn n c) = [c]"
| "spawning t = []"

definition unspawned :: "PooledClient list \<Rightarrow> pool_task multiset \<Rightarrow> bool" where
  "unspawned cs M \<longleftrightarrow> (\<forall>t \<in># M. \<forall>c \<in> set (spawning t). cl_driver (cs ! c) = Unspawned)"

lemma spawning_ref: "c \<in> set (spawning t) \<Longrightarrow> task_ref t = [(c, False, True)]"
  by (cases t) simp_all

lemma task_step_drivers:
  assumes "task_step a u t p = Some (t', p')"
  shows "c < length (po_clients p) \<Longrightarrow> c \<notin> fst ` set (task_ref t)
      \<Longrightarrow> cl_driver (po_clients p' ! c) = cl_driver (po_clients p ! c)"
    "c \<in> set (spawning t') \<Longrightarrow> c \<in> set (spawning t) \<and> po_clients p' = po_clients p
      \<or> cl_driver (po_clients p' ! c) = Unspawned"
  by (rule task_step_cases [OF assms]; cases t;
      auto simp: open_connection_def nth_append new_client_def split: pool_answer.splits if_splits)+

lemma task_step_unspawned:
  assumes inv: "pool_inv p (add_mset t M)" and un: "unspawned (po_clients p) (add_mset t M)"
    and step: "task_step a u t p = Some (t', p')"
  shows "unspawned (po_clients p') (add_mset t' M)"
proof -
  have "cl_driver (po_clients p' ! c) = Unspawned" if x: "x \<in># M" "c \<in> set (spawning x)" for x c
  proof -
    obtain M' where M: "M = add_mset x M'" using x(1) by (metis insert_DiffM)
    have r: "task_ref x = [(c, False, True)]" by (rule spawning_ref [OF x(2)])
    have ok: "refs_ok (po_clients p) (add_mset (c, False, True) (mset (task_ref t) + refs p M'))"
      using inv r by (simp add: M pool_inv_def refs_inv_def)
    have "c < length (po_clients p)" using refs_ok_head [OF ok] by simp
    moreover have "c \<notin> fst ` set (task_ref t)" using refs_ok_other(1) [OF ok] by force
    ultimately show ?thesis using task_step_drivers(1) [OF step] un x by (simp add: unspawned_def)
  qed
  moreover have "cl_driver (po_clients p' ! c) = Unspawned" if "c \<in> set (spawning t')" for c
    using task_step_drivers(2) [OF step that] un by (auto simp: unspawned_def)
  ultimately show ?thesis by (simp add: unspawned_def)
qed

lemma task_step_accounts:
  assumes "pool_inv p (add_mset t M)" and un: "unspawned (po_clients p) (add_mset t M)"
    and "task_step a u t p = Some (t', p')"
  shows "accounts t p t' p'"
proof -
  have ref: "ref_ok (po_clients p) r" if "task_ref t = [r]" for r
    using assms(1) that by (auto simp: pool_inv_def intro: refs_inv_ref)
  have sp: "cl_driver (po_clients p ! c) = Unspawned" if "c \<in> set (spawning t)" for c
    using un that by (simp add: unspawned_def)
  show ?thesis
    by (rule task_step_cases [OF assms(3)]; use ref sp in \<open>cases t\<close>;
        auto simp: accounts_def open_connection_def new_client_def sum_list_update_int idle_client_def open_client_def
          client_state_of_def algebra_simps split: pool_answer.splits if_splits)
qed

lemma close_connection_accounts:
  assumes "c < length (po_clients p)" and "close_connection r c p = Some p'"
  shows "accounts t p t p'"
  using assms
  by (cases "cl_driver (po_clients p ! c)"; cases "cl_state (po_clients p ! c)")
    (auto simp: accounts_def close_connection_def Let_def sum_list_update_int idle_client_def open_client_def
      algebra_simps split: if_splits)

lemma close_connection_unspawned:
  assumes "unspawned (po_clients p) M" and "close_connection r c p = Some p'"
  shows "unspawned (po_clients p') M"
proof -
  have "cl_driver (po_clients p' ! x) = Unspawned" if "cl_driver (po_clients p ! x) = Unspawned" for x
    using assms(2) that
    by (cases "x = c"; cases "c < length (po_clients p)")
      (auto simp: close_connection_def Let_def split: driver_task.splits if_splits)
  then show ?thesis using assms(1) by (simp add: unspawned_def)
qed

definition settled_inv :: "pool_system \<Rightarrow> bool" where
  "settled_inv s \<longleftrightarrow> counters_ok (ps_pool s) (mset (ps_tasks s)) \<and> unspawned (po_clients (ps_pool s)) (mset (ps_tasks s))"

lemma pool_step_settled:
  assumes "pool_inv (ps_pool s) (mset (ps_tasks s))" and "settled_inv s" and "pool_step e s = Some s'"
  shows "settled_inv s'"
proof (cases e)
  case (Advance i a)
  then obtain t p where i: "i < length (ps_tasks s)" and
    st: "task_step a (\<not> list_ex holds_lock (ps_tasks s)) (ps_tasks s ! i) (ps_pool s) = Some (t, p)"
    "s' = \<lparr> ps_pool = p, ps_tasks = (ps_tasks s)[i := t] \<rparr>"
    using assms(3) by (auto split: if_splits)
  obtain M where M: "mset (ps_tasks s) = add_mset (ps_tasks s ! i) M" "mset ((ps_tasks s)[i := t]) = add_mset t M"
    using mset_tasks [OF i] by metis
  show ?thesis
    using accounts_counters [OF _ task_step_accounts [OF _ _ st(1)]] task_step_unspawned [OF _ _ st(1)] assms(1,2) st(2)
    unfolding settled_inv_def by (simp add: M)
next
  case (Cancel i)
  then obtain t p where i: "i < length (ps_tasks s)" and st: "cancel_step (ps_tasks s ! i) (ps_pool s) = Some (t, p)"
    "s' = \<lparr> ps_pool = p, ps_tasks = (ps_tasks s)[i := t] \<rparr>"
    using assms(3) by (auto split: if_splits)
  obtain M where M: "mset (ps_tasks s) = add_mset (ps_tasks s ! i) M" "mset ((ps_tasks s)[i := t]) = add_mset t M"
    using mset_tasks [OF i] by metis
  have "accounts (ps_tasks s ! i) (ps_pool s) t p \<and> spawning t = [] \<and> po_clients p = po_clients (ps_pool s)"
    using st(1) by (auto simp: cancel_step_def accounts_def split: pool_task.splits)
  then show ?thesis
    using accounts_counters [of "ps_pool s" "ps_tasks s ! i" M] assms(2) st(2)
    unfolding settled_inv_def by (simp add: M unspawned_def)
next
  case (Drive c)
  then obtain p where c: "c < length (po_clients (ps_pool s))" and
    p: "close_connection (referenced s c) c (ps_pool s) = Some p" "s' = s\<lparr> ps_pool := p \<rparr>"
    using assms(3) by (auto split: if_splits)
  have "counters_ok p (mset (ps_tasks s))"
    using assms(2) close_connection_accounts [OF c p(1)]
    by (auto simp: settled_inv_def counters_ok_def accounts_def algebra_simps)
  then show ?thesis
    using close_connection_unspawned [OF _ p(1)] assms(2) p(2) by (simp add: settled_inv_def)
qed (use assms in \<open>auto simp: settled_inv_def counters_ok_def unspawned_def split: if_splits\<close>)

lemma pool_reachable_settled: "pool_reachable s \<Longrightarrow> settled_inv s"
proof (induction rule: pool_reachable.induct)
  case (step s e s')
  then show ?case using pool_step_settled pool_reachable_inv by blast
qed (auto simp: settled_inv_def counters_ok_def unspawned_def new_pool_def from_client_def new_client_def
    idle_client_def open_client_def)

lemma reachable_run: "pool_reachable s \<Longrightarrow> pool_run es s = Some s' \<Longrightarrow> pool_reachable s'"
  by (induction es arbitrary: s) (auto intro: pool_reachable.step split: option.splits)

text \<open>A quiet state: no task is under way, no driver is closing its connection.\<close>

definition quiet :: "pool_system \<Rightarrow> bool" where
  "quiet s \<longleftrightarrow> list_all (\<lambda>t. t = Ended \<or> (\<exists>e. t = Failed e)) (ps_tasks s)
     \<and> list_all (\<lambda>c. cl_driver c \<in> {Running, Driven, CallerDriven, CallerClosed} \<and> cl_revived c = 0)
         (po_clients (ps_pool s))"

text \<open>C32. The counters settle: in every reachable state in which no task is under way, if no acquisition was
  cancelled and no connection died while the pool was being filled, nothing is in use or waiting, every open
  connection is idle on the stack, and both counters show how many there are.\<close>

theorem counters_settle:
  assumes "pool_reachable s" and "quiet s"
  shows "po_waiters (ps_pool s) = 0 \<and> po_in_use (ps_pool s) = 0
    \<and> po_idle (ps_pool s) = of_nat (length (filter (\<lambda>c. cl_state c \<noteq> CLOSED) (po_clients (ps_pool s))))
    \<and> po_open (ps_pool s) = po_idle (ps_pool s)
    \<and> (\<forall>c < length (po_clients (ps_pool s)). client_state_of (ps_pool s) c \<noteq> CLOSED
         \<longrightarrow> client_state_of (ps_pool s) c = IDLE \<and> c \<in> set (po_available (ps_pool s)))"
proof -
  let ?p = "ps_pool s" and ?M = "mset (ps_tasks s)"
  have over: "waits t = 0" "uses t = 0" "idle_task t = 0" "open_task t = 0" "task_ref t = []" if "t \<in># ?M" for t
    using assms(2) that by (auto simp: quiet_def list_all_iff)
  have sums: "(\<Sum>t \<in># ?M. waits t) = 0" "(\<Sum>t \<in># ?M. uses t) = 0" "(\<Sum>t \<in># ?M. idle_task t) = 0"
    "(\<Sum>t \<in># ?M. open_task t) = 0" "(\<Sum>t \<in># ?M. mset (task_ref t)) = {#}"
    using over by (auto simp: sum_mset.neutral)
  have idle: "client_state_of ?p c = IDLE \<and> c \<in> set (po_available ?p)"
    if "c < length (po_clients ?p)" "client_state_of ?p c \<noteq> CLOSED" for c
  proof -
    note inv = pool_reachable_inv [OF assms(1), unfolded pool_inv_def refs_inv_def]
    have "c \<in># image_mset fst (refs ?p ?M)" using inv that by (auto simp: covered_def client_state_of_def)
    then have c: "c \<in> set (po_available ?p)" unfolding refs_def sums by (simp add: image_image)
    then have "(c, True, True) \<in># refs ?p ?M" by (simp add: refs_def)
    then have "ref_ok (po_clients ?p) (c, True, True)" using inv unfolding refs_ok_def by blast
    then show ?thesis using c that(2) by (cases "client_state_of ?p c") (auto simp: client_state_of_def)
  qed
  have cl: "idle_client c = (if cl_state c \<noteq> CLOSED then 1 else 0) \<and> open_client c = idle_client c"
    if "c \<in> set (po_clients ?p)" for c
  proof -
    obtain k where "k < length (po_clients ?p)" "c = po_clients ?p ! k" using \<open>c \<in> _\<close> by (metis in_set_conv_nth)
    moreover have "cl_driver c \<in> {Running, Driven, CallerDriven, CallerClosed}" "cl_revived c = 0"
      using assms(2) that by (auto simp: quiet_def list_all_iff)
    ultimately show ?thesis
      using idle [of k] by (auto simp: idle_client_def open_client_def client_state_of_def)
  qed
  have "sum_list (map f cs) = int (length (filter (\<lambda>c. cl_state c \<noteq> CLOSED) cs))"
    if "\<And>c. c \<in> set cs \<Longrightarrow> f c = (if cl_state c \<noteq> CLOSED then 1 else 0)" for f cs
    using that by (induction cs) auto
  from this [of "po_clients ?p" idle_client] this [of "po_clients ?p" open_client] cl
  have "sum_list (map idle_client (po_clients ?p)) = int (length (filter (\<lambda>c. cl_state c \<noteq> CLOSED) (po_clients ?p)))"
    "sum_list (map open_client (po_clients ?p)) = int (length (filter (\<lambda>c. cl_state c \<noteq> CLOSED) (po_clients ?p)))"
    by simp_all
  then show ?thesis
    using pool_reachable_settled [OF assms(1)] idle sums by (simp add: settled_inv_def counters_ok_def)
qed

section \<open>Runs\<close>

text \<open>Runs of a pool with one connection.\<close>

definition prewarm_one :: "pool_event list" where
  "prewarm_one = Advance 0 Connected # replicate 6 (Advance 0 Proceed)"

definition acquire_as :: "nat \<Rightarrow> nat \<Rightarrow> pool_event list" where
  "acquire_as i n = [Spawn, Advance i Proceed, Advance i Granted] @ replicate n (Advance i Proceed)"

definition after_events :: "pool_event list \<Rightarrow> pool_system" where
  "after_events es = the (pool_run es (new_pool 1))"

lemmas run_simps = prewarm_one_def acquire_as_def new_pool_def task_step_def or_else_def open_connection_def
  new_client_def set_client_def client_state_of_def is_closed_def cancel_step_def close_connection_def
  referenced_def eval_nat_numeral

lemma after_reachable: "pool_run es (new_pool 1) \<noteq> None \<Longrightarrow> pool_reachable (after_events es)"
  using reachable_run [OF pool_reachable.connect] by (auto simp: after_events_def)

theorem checkouts_exclusive_witness:
  "ps_tasks (after_events (prewarm_one @ acquire_as 1 7)) = [Ended, Using 0 True]
   \<and> 0 \<notin> set (po_available (ps_pool (after_events (prewarm_one @ acquire_as 1 7))))
   \<and> \<not> cl_tx (po_clients (ps_pool (after_events (prewarm_one @ acquire_as 1 7))) ! 0)"
proof -
  let ?s = "after_events (prewarm_one @ acquire_as 1 7)"
  have r: "pool_reachable ?s" by (rule after_reachable) (simp add: run_simps)
  have t: "ps_tasks ?s = [Ended, Using 0 True]" by (simp add: after_events_def run_simps)
  from checkouts_exclusive [OF r, of 1 0 True] t show ?thesis by simp
qed

theorem pool_is_bounded_witness:
  "po_permits (ps_pool (after_events (prewarm_one @ acquire_as 1 7))) + 1 = 1
   \<and> length (filter (\<lambda>c. cl_state c \<noteq> CLOSED) (po_clients (ps_pool (after_events (prewarm_one @ acquire_as 1 7))))) \<le> 1"
proof -
  let ?s = "after_events (prewarm_one @ acquire_as 1 7)"
  have r: "pool_reachable ?s" by (rule after_reachable) (simp add: run_simps)
  have "ps_tasks ?s = [Ended, Using 0 True]" "po_max (ps_pool ?s) = 1" by (simp_all add: after_events_def run_simps)
  with pool_is_bounded [OF r] show ?thesis by simp
qed

text \<open>A transaction is begun on the connection and its task is cancelled before the answer to \<open>COMMIT\<close>.\<close>

definition abandoned :: "pool_event list" where
  "abandoned = prewarm_one @ acquire_as 1 7 @ [Advance 1 MarkUncertain, Advance 1 BeginTx, Advance 1 Release, Advance 1 Proceed]"

theorem uncertain_connections_are_evicted_witness:
  "\<exists>s'. pool_run (Advance 1 Proceed # [Advance 1 Proceed, Advance 1 Proceed] @ acquire_as 2 4) (after_events abandoned) = Some s'
     \<and> ps_tasks s' = [Ended, Ended, Connecting] \<and> \<not> referenced s' 0"
proof -
  let ?es = "[Advance 1 Proceed, Advance 1 Proceed] @ acquire_as 2 4"
  have r: "pool_reachable (after_events abandoned)" by (rule after_reachable) (simp add: abandoned_def run_simps)
  have t: "ps_tasks (after_events abandoned) = [Ended, DropSwap 0 False]"
    by (simp add: after_events_def abandoned_def run_simps)
  have "\<exists>s'. pool_run (Advance 1 Proceed # ?es) (after_events abandoned) = Some s' \<and> ps_tasks s' = [Ended, Ended, Connecting]"
    by (simp add: after_events_def abandoned_def run_simps)
  then obtain s' where s': "pool_run (Advance 1 Proceed # ?es) (after_events abandoned) = Some s'"
    "ps_tasks s' = [Ended, Ended, Connecting]" by blast
  from uncertain_connections_are_evicted [OF r _ _ s'(1), of 0] t s' show ?thesis by simp
qed

theorem acquire_takes_idle_witness:
  "\<exists>k s'. pool_run (Advance 1 Granted # replicate k (Advance 1 Proceed))
       (after_events (prewarm_one @ [Spawn, Advance 1 Proceed])) = Some s'
     \<and> ps_tasks s' ! 1 = Using 0 True"
proof -
  let ?s = "after_events (prewarm_one @ [Spawn, Advance 1 Proceed])"
  have r: "pool_reachable ?s" by (rule after_reachable) (simp add: run_simps)
  have t: "ps_tasks ?s = [Ended, AwaitPermit]" "po_permits (ps_pool ?s) = 1"
    "find (usable (ps_pool ?s)) (rev (po_available (ps_pool ?s))) = Some 0"
    by (simp_all add: after_events_def usable_def run_simps)
  have "1 < length (ps_tasks ?s)" "ps_tasks ?s ! 1 = AwaitPermit" "0 < po_permits (ps_pool ?s)"
    "\<not> list_ex holds_lock (ps_tasks ?s)" using t by simp_all
  from acquire_takes_idle [OF r this] obtain k s' where
    s': "pool_run (Advance 1 Granted # replicate k (Advance 1 Proceed)) ?s = Some s'" "acquired 1 (Some 0) s'"
    unfolding t(3) by blast
  then show ?thesis unfolding acquired_def option.case by blast
qed

theorem counters_settle_witness:
  "quiet (after_events prewarm_one) \<and> po_waiters (ps_pool (after_events prewarm_one)) = 0
   \<and> po_idle (ps_pool (after_events prewarm_one)) = 1 \<and> po_open (ps_pool (after_events prewarm_one)) = 1"
proof -
  have r: "pool_reachable (after_events prewarm_one)" by (rule after_reachable) (simp add: run_simps)
  have q: "quiet (after_events prewarm_one)"
    "length (filter (\<lambda>c. cl_state c \<noteq> CLOSED) (po_clients (ps_pool (after_events prewarm_one)))) = 1"
    by (simp_all add: after_events_def quiet_def run_simps)
  from counters_settle [OF r q(1)] q show ?thesis by simp
qed

text \<open>
  Three races leave the counters wrong. They are read by the metrics only, so that the guarantees above are
  not affected.
\<close>

text \<open>An acquisition that is cancelled while it waits stays counted as a waiter, and one that is cancelled
  while it connects stays counted as in use.\<close>

lemma cancelled_acquire_leaks:
  "\<exists>s. pool_reachable s \<and> ps_tasks s = [Ended, CancelledWaiting] \<and> po_waiters (ps_pool s) = 1"
  "\<exists>s. pool_reachable s \<and> ps_tasks s = [Ended, Ended, CancelledConnecting] \<and> po_in_use (ps_pool s) = 1"
proof -
  let ?w = "prewarm_one @ [Spawn, Advance 1 Proceed, Cancel 1]"
    and ?c = "abandoned @ [Advance 1 Proceed, Advance 1 Proceed, Advance 1 Proceed] @ acquire_as 2 4 @ [Cancel 2]"
  have "pool_reachable (after_events ?w)" by (rule after_reachable) (simp add: run_simps)
  moreover have "ps_tasks (after_events ?w) = [Ended, CancelledWaiting]" "po_waiters (ps_pool (after_events ?w)) = 1"
    by (simp_all add: after_events_def run_simps)
  ultimately show "\<exists>s. pool_reachable s \<and> ps_tasks s = [Ended, CancelledWaiting] \<and> po_waiters (ps_pool s) = 1" by blast
  have "pool_reachable (after_events ?c)" by (rule after_reachable) (simp add: abandoned_def run_simps)
  moreover have "ps_tasks (after_events ?c) = [Ended, Ended, CancelledConnecting]" "po_in_use (ps_pool (after_events ?c)) = 1"
    by (simp_all add: after_events_def abandoned_def run_simps)
  ultimately show "\<exists>s. pool_reachable s \<and> ps_tasks s = [Ended, Ended, CancelledConnecting] \<and> po_in_use (ps_pool s) = 1" by blast
qed

text \<open>A connection that dies between the two steps by which it is returned takes the idle counter below zero.\<close>

lemma idle_counter_wraps: "\<exists>s. pool_reachable s \<and> po_idle (ps_pool s) = - 1"
proof -
  let ?es = "prewarm_one @ acquire_as 1 7 @ [Advance 1 Release, Advance 1 Proceed, Advance 1 Proceed]
    @ replicate 4 (Drive 0)"
  have "pool_reachable (after_events ?es)" by (rule after_reachable) (simp add: run_simps)
  moreover have "po_idle (ps_pool (after_events ?es)) = - 1" by (simp add: after_events_def run_simps)
  ultimately show ?thesis by blast
qed

text \<open>A connection that dies before \<open>prewarm\<close> stores it as idle is counted down twice.\<close>

lemma revived_connection_uncounts:
  "\<exists>s. pool_reachable s \<and> list_all (\<lambda>t. t = Ended \<or> t = Connecting) (ps_tasks s) \<and> po_open (ps_pool s) = - 1"
proof -
  let ?es = "Advance 0 Connected # replicate 2 (Advance 0 Proceed) @ replicate 3 (Drive 0)
    @ replicate 4 (Advance 0 Proceed) @ acquire_as 1 10"
  have "pool_reachable (after_events ?es)" by (rule after_reachable) (simp add: run_simps)
  moreover have "list_all (\<lambda>t. t = Ended \<or> t = Connecting) (ps_tasks (after_events ?es))"
    "po_open (ps_pool (after_events ?es)) = - 1"
    by (simp_all add: after_events_def run_simps)
  ultimately show ?thesis by blast
qed

end
