(* ===== verification/Connections.thy ===== *)
theory Connections
  imports Cockroach_Pool Cockroach_Store Opendal_Store
begin

text \<open>
  How the binaries connect: the settings they read (\<open>src/src/bin/cockroach_connection.rs\<close>,
  \<open>src/src/bin/archive_connection.rs\<close>), the TLS configuration (\<open>src/src/adapters/cockroach_tls.rs\<close>) and the
  constructors of the pool and of the store. The URL parser, the PEM parser and the TLS library are
  parameters. The theorems show that a connection is never silently downgraded.
\<close>

section \<open>Settings\<close>

text \<open>The environment of the process.\<close>

datatype env_var = Present string | NotPresent | NotUnicode

type_synonym environment = "string \<Rightarrow> env_var"

fun var_ok :: "env_var \<Rightarrow> string option" where
  "var_ok (Present value) = Some value"
| "var_ok NotPresent = None"
| "var_ok NotUnicode = None"

definition optional_setting :: "environment \<Rightarrow> string \<Rightarrow> string option" where
  "optional_setting env name =
     (case var_ok (env name) of
        None \<Rightarrow> None
      | Some value \<Rightarrow> if trim value = [] then None else Some value)"

definition setting :: "environment \<Rightarrow> string \<Rightarrow> string \<Rightarrow> string" where
  "setting env name fallback = (case var_ok (env name) of None \<Rightarrow> fallback | Some value \<Rightarrow> value)"

text \<open>\<open>str::parse\<close> for \<open>bool\<close> and for the unsigned types: an optional plus sign and decimal digits.\<close>

definition parse_bool :: "string \<Rightarrow> bool option" where
  "parse_bool s = (if s = ''true'' then Some True else if s = ''false'' then Some False else None)"

definition parse_unsigned :: "nat \<Rightarrow> string \<Rightarrow> nat option" where
  "parse_unsigned limit s =
     (let digits = (case s of c # cs \<Rightarrow> if c = CHR ''+'' then cs else s | [] \<Rightarrow> [])
      in if digits \<noteq> [] \<and> list_all (\<lambda>c. 48 \<le> (of_char c :: nat) \<and> of_char c \<le> (57 :: nat)) digits
            \<and> undec digits \<le> limit
         then Some (undec digits) else None)"

section \<open>The pool\<close>

datatype SslMode = SslDisable | SslPrefer | SslRequire | SslOther

datatype Host = Tcp string | Unix string

text \<open>What the driver's parser makes of a connection URL.\<close>

record PgConfig =
  pg_ssl_mode :: SslMode
  pg_hostaddrs :: "string list"
  pg_hosts :: "Host list"
  pg_ports :: "nat list"

type_synonym url_parser = "string \<Rightarrow> PgConfig option"

record CockroachPoolConfig =
  pc_max_connections :: nat
  pc_acquire_timeout :: duration
  pc_connect_timeout :: duration
  pc_transaction_timeout :: duration
  pc_commit_timeout :: duration
  pc_rollback_timeout :: duration

definition SECOND :: duration where
  "SECOND = 1000000000"

definition default_pool_config :: CockroachPoolConfig where
  "default_pool_config = \<lparr> pc_max_connections = 16, pc_acquire_timeout = 5 * SECOND, pc_connect_timeout = 10 * SECOND,
     pc_transaction_timeout = 30 * SECOND, pc_commit_timeout = 10 * SECOND, pc_rollback_timeout = 5 * SECOND \<rparr>"

definition require_ssl_mode :: "url_parser \<Rightarrow> string \<Rightarrow> SslMode \<Rightarrow> string \<Rightarrow> (StoreError, unit) result" where
  "require_ssl_mode parse database_url required transport_name =
     and_then (ok_or (Other ''CockroachDB connection URL is invalid'') (parse database_url)) (\<lambda>config.
       if pg_ssl_mode config \<noteq> required
       then Err (Other (''CockroachDB '' @ transport_name @ '' connections require sslmode=''
              @ (case required of SslDisable \<Rightarrow> ''disable'' | SslPrefer \<Rightarrow> ''prefer'' | SslRequire \<Rightarrow> ''require''
                 | SslOther \<Rightarrow> ''the required value'')))
       else Ok ())"

record DatabaseTarget =
  dt_address :: string
  dt_port :: nat

fun host_name :: "Host \<Rightarrow> string" where
  "host_name (Tcp host) = host"
| "host_name (Unix path) = path"

definition from_database_url :: "url_parser \<Rightarrow> string \<Rightarrow> DatabaseTarget option" where
  "from_database_url parse database_url =
     (case parse database_url of
        None \<Rightarrow> None
      | Some config \<Rightarrow>
          map_option (\<lambda>address. \<lparr> dt_address = address, dt_port = (case pg_ports config of [] \<Rightarrow> 5432 | p # _ \<Rightarrow> p) \<rparr>)
            (case pg_hostaddrs config of
               addr # _ \<Rightarrow> Some addr
             | [] \<Rightarrow> (case pg_hosts config of [] \<Rightarrow> None | host # _ \<Rightarrow> Some (host_name host))))"

section \<open>TLS\<close>

text \<open>Certificates and keys are their DER encodings.\<close>

type_synonym certificate = "byte list"
type_synonym private_key = "byte list"

text \<open>
  The libraries that \<open>cockroach_tls.rs\<close> calls: the iterator over the certificates of a PEM file, the parser of
  a key, whether a certificate can be a trust anchor, whether the provider supports the protocol versions,
  and whether a chain and a key form an identity.
\<close>

record tls_library =
  tl_pem_certificates :: "byte list \<Rightarrow> (unit, certificate) result list"
  tl_pem_key :: "byte list \<Rightarrow> private_key option"
  tl_trust_anchor :: "certificate \<Rightarrow> bool"
  tl_protocol_versions :: bool
  tl_identity :: "certificate list \<Rightarrow> private_key \<Rightarrow> bool"

record CockroachTlsConfig =
  tls_roots :: "certificate list"
  tls_client_certificates :: "certificate list option"
  tls_client_key :: "private_key option"

datatype CockroachTlsConfigError =
    InvalidCaBundle
  | InvalidClientCertificate
  | InvalidClientKey
  | IncompleteClientIdentity
  | InvalidClientIdentity
  | InvalidCryptoProvider

definition from_ca_pem :: "tls_library \<Rightarrow> byte list \<Rightarrow> (CockroachTlsConfigError, CockroachTlsConfig) result" where
  "from_ca_pem L ca_pem =
     and_then (map_err (\<lambda>_. InvalidCaBundle) (collect_results (tl_pem_certificates L ca_pem))) (\<lambda>certificates.
       if certificates = [] then Err InvalidCaBundle
       else if \<not> list_all (tl_trust_anchor L) certificates then Err InvalidCaBundle
       else Ok \<lparr> tls_roots = certificates, tls_client_certificates = None, tls_client_key = None \<rparr>)"

definition with_client_auth_pem ::
    "tls_library \<Rightarrow> CockroachTlsConfig \<Rightarrow> byte list \<Rightarrow> byte list
     \<Rightarrow> (CockroachTlsConfigError, CockroachTlsConfig) result" where
  "with_client_auth_pem L tls certificate_chain_pem private_key_pem =
     and_then (map_err (\<lambda>_. InvalidClientCertificate) (collect_results (tl_pem_certificates L certificate_chain_pem)))
       (\<lambda>certificates.
         if certificates = [] then Err InvalidClientCertificate
         else and_then (ok_or InvalidClientKey (tl_pem_key L private_key_pem)) (\<lambda>key.
           Ok (tls\<lparr> tls_client_certificates := Some certificates, tls_client_key := Some key \<rparr>)))"

text \<open>The connector verifies the server against \<open>rc_roots\<close> and presents \<open>rc_identity\<close>.\<close>

record MakeRustlsConnect =
  rc_roots :: "certificate list"
  rc_identity :: "(certificate list \<times> private_key) option"

definition connector :: "tls_library \<Rightarrow> CockroachTlsConfig \<Rightarrow> (CockroachTlsConfigError, MakeRustlsConnect) result" where
  "connector L tls =
     (if \<not> tl_protocol_versions L then Err InvalidCryptoProvider
      else case (tls_client_certificates tls, tls_client_key tls) of
        (Some certificates, Some key) \<Rightarrow>
          if tl_identity L certificates key
          then Ok \<lparr> rc_roots = tls_roots tls, rc_identity = Some (certificates, key) \<rparr>
          else Err InvalidClientIdentity
      | (None, None) \<Rightarrow> Ok \<lparr> rc_roots = tls_roots tls, rc_identity = None \<rparr>
      | _ \<Rightarrow> Err IncompleteClientIdentity)"

definition tls_error_text :: "CockroachTlsConfigError \<Rightarrow> string" where
  "tls_error_text e =
     (case e of
        InvalidCaBundle \<Rightarrow> ''CockroachDB CA bundle is empty or invalid''
      | InvalidClientCertificate \<Rightarrow> ''CockroachDB client certificate chain is empty or invalid''
      | InvalidClientKey \<Rightarrow> ''CockroachDB client private key is empty or invalid''
      | IncompleteClientIdentity \<Rightarrow> ''CockroachDB client certificate and private key must be configured together''
      | InvalidClientIdentity \<Rightarrow> ''CockroachDB client certificate and private key do not form a valid identity''
      | InvalidCryptoProvider \<Rightarrow> ''CockroachDB TLS cryptographic provider could not be configured'')"

section \<open>Constructors\<close>

datatype CockroachTransport = InsecureDev | Rustls MakeRustlsConnect

text \<open>The pool that a constructor builds; it is returned once its task \<open>Prewarm\<close> has ended.\<close>

record CockroachPool =
  cp_database_url :: string
  cp_database_target :: "DatabaseTarget option"
  cp_transport :: CockroachTransport
  cp_config :: CockroachPoolConfig
  cp_system :: pool_system

definition connect_with_transport ::
    "url_parser \<Rightarrow> string \<Rightarrow> CockroachPoolConfig \<Rightarrow> CockroachTransport \<Rightarrow> (StoreError, CockroachPool) result" where
  "connect_with_transport parse database_url config transport =
     (if pc_max_connections config = 0
      then Err (Other ''CockroachDB pool max_connections must be greater than zero'')
      else if pc_acquire_timeout config = 0 \<or> pc_connect_timeout config = 0 \<or> pc_transaction_timeout config = 0
        \<or> pc_commit_timeout config = 0 \<or> pc_rollback_timeout config = 0
      then Err (Other ''CockroachDB pool timeouts must be greater than zero'')
      else Ok \<lparr> cp_database_url = database_url, cp_database_target = from_database_url parse database_url,
        cp_transport = transport, cp_config = config, cp_system = new_pool (pc_max_connections config) \<rparr>)"

definition pool_connect_insecure_dev ::
    "url_parser \<Rightarrow> string \<Rightarrow> CockroachPoolConfig \<Rightarrow> (StoreError, CockroachPool) result" where
  "pool_connect_insecure_dev parse database_url config =
     and_then (require_ssl_mode parse database_url SslDisable ''insecure development'') (\<lambda>_.
       connect_with_transport parse database_url config InsecureDev)"

definition pool_connect_rustls ::
    "tls_library \<Rightarrow> url_parser \<Rightarrow> string \<Rightarrow> CockroachPoolConfig \<Rightarrow> CockroachTlsConfig \<Rightarrow> (StoreError, CockroachPool) result" where
  "pool_connect_rustls L parse database_url config tls =
     and_then (require_ssl_mode parse database_url SslRequire ''verified TLS'') (\<lambda>_.
     and_then (map_err (\<lambda>e. Other (tls_error_text e)) (connector L tls)) (\<lambda>c.
       connect_with_transport parse database_url config (Rustls c)))"

text \<open>The constructors of the store map every error of the pool to \<open>pool_error\<close> and start with an empty
  cache of routes.\<close>

record opened_store =
  os_pool :: CockroachPool
  os_routes :: RouteCache

definition from_pool :: "CockroachPool \<Rightarrow> opened_store" where
  "from_pool pool = \<lparr> os_pool = pool, os_routes = [] \<rparr>"

definition connect_insecure_dev_with_pool_config ::
    "url_parser \<Rightarrow> string \<Rightarrow> CockroachPoolConfig \<Rightarrow> opened_store dur_result" where
  "connect_insecure_dev_with_pool_config parse database_url config =
     and_then (map_err (\<lambda>_. pool_error) (pool_connect_insecure_dev parse database_url config)) (\<lambda>pool.
       Ok (from_pool pool))"

definition connect_rustls_with_pool_config ::
    "tls_library \<Rightarrow> url_parser \<Rightarrow> string \<Rightarrow> CockroachPoolConfig \<Rightarrow> CockroachTlsConfig \<Rightarrow> opened_store dur_result" where
  "connect_rustls_with_pool_config L parse database_url config tls =
     and_then (map_err (\<lambda>_. pool_error) (pool_connect_rustls L parse database_url config tls)) (\<lambda>pool.
       Ok (from_pool pool))"

text \<open>\<open>cockroach_connection::connect\<close>. A file that cannot be read is an \<open>io::Error\<close>.\<close>

datatype connect_error =
    InvalidInput string
  | Unreadable string
  | TlsConfig CockroachTlsConfigError
  | OpenStore DurableBucketStoreError

definition read_file :: "(string \<Rightarrow> byte list option) \<Rightarrow> string \<Rightarrow> (connect_error, byte list) result" where
  "read_file files path = ok_or (Unreadable path) (files path)"

definition client_identity ::
    "tls_library \<Rightarrow> environment \<Rightarrow> (string \<Rightarrow> byte list option) \<Rightarrow> CockroachTlsConfig
     \<Rightarrow> (connect_error, CockroachTlsConfig) result" where
  "client_identity L env files tls =
     (case (var_ok (env ''COCKROACH_CLIENT_CERT_PATH''), var_ok (env ''COCKROACH_CLIENT_KEY_PATH'')) of
        (Some certificate_path, Some key_path) \<Rightarrow>
          and_then (read_file files certificate_path) (\<lambda>certificate.
          and_then (read_file files key_path) (\<lambda>key.
            map_err TlsConfig (with_client_auth_pem L tls certificate key)))
      | (None, None) \<Rightarrow> Ok tls
      | _ \<Rightarrow> Err (InvalidInput
          ''COCKROACH_CLIENT_CERT_PATH and COCKROACH_CLIENT_KEY_PATH must be configured together''))"

definition cockroach_connect ::
    "tls_library \<Rightarrow> url_parser \<Rightarrow> environment \<Rightarrow> (string \<Rightarrow> byte list option) \<Rightarrow> string \<Rightarrow> CockroachPoolConfig
     \<Rightarrow> (connect_error, opened_store) result" where
  "cockroach_connect L parse env files database_url pool_config =
     and_then (ok_or (InvalidInput ''CockroachDB URL is invalid; use sslmode=require for verified TLS or sslmode=disable only for local development'')
         (parse database_url)) (\<lambda>parsed.
       case pg_ssl_mode parsed of
         SslDisable \<Rightarrow> map_err OpenStore (connect_insecure_dev_with_pool_config parse database_url pool_config)
       | SslRequire \<Rightarrow>
           and_then (ok_or (InvalidInput ''COCKROACH_CA_CERT_PATH is required when COCKROACH_URL uses sslmode=require'')
               (var_ok (env ''COCKROACH_CA_CERT_PATH''))) (\<lambda>ca_path.
           and_then (read_file files ca_path) (\<lambda>ca_pem.
           and_then (map_err TlsConfig (from_ca_pem L ca_pem)) (\<lambda>server_tls.
           and_then (client_identity L env files server_tls) (\<lambda>tls.
             map_err OpenStore (connect_rustls_with_pool_config L parse database_url pool_config tls)))))
       | _ \<Rightarrow> Err (InvalidInput ''CockroachDB connections must explicitly use sslmode=require or sslmode=disable; sslmode=prefer can downgrade to plaintext''))"

section \<open>The archive\<close>

text \<open>\<open>archive_connection::connect\<close>.\<close>

datatype archive_connect_error = ArchiveInvalidInput string | ParseBool | ArchiveStoreError StoreError

definition local_endpoint :: "string \<Rightarrow> bool" where
  "local_endpoint endpoint \<longleftrightarrow> starts_with ''http://127.0.0.1:'' endpoint \<or> starts_with ''http://localhost:'' endpoint"

definition archive_endpoint :: "environment \<Rightarrow> string" where
  "archive_endpoint env =
     (case optional_setting env ''S3_ENDPOINT'' of None \<Rightarrow> ''http://127.0.0.1:9000'' | Some endpoint \<Rightarrow> endpoint)"

definition archive_allow_http :: "environment \<Rightarrow> (archive_connect_error, bool) result" where
  "archive_allow_http env =
     (case optional_setting env ''S3_ALLOW_HTTP'' of
        Some value \<Rightarrow> ok_or ParseBool (parse_bool value)
      | None \<Rightarrow> Ok (local_endpoint (archive_endpoint env)))"

definition archive_credentials ::
    "environment \<Rightarrow> (archive_connect_error, (string \<times> string \<times> string option) option) result" where
  "archive_credentials env =
     (let access_key = optional_setting env ''S3_ACCESS_KEY''; secret_key = optional_setting env ''S3_SECRET_KEY'';
          fallback = access_key = None \<and> secret_key = None \<and> local_endpoint (archive_endpoint env)
      in case if fallback then (Some ''minioadmin'', Some ''minioadmin'') else (access_key, secret_key) of
           (Some access, Some secret) \<Rightarrow> Ok (Some (access, secret, optional_setting env ''S3_SESSION_TOKEN''))
         | (None, None) \<Rightarrow> Ok None
         | _ \<Rightarrow> Err (ArchiveInvalidInput ''S3_ACCESS_KEY and S3_SECRET_KEY must be configured together''))"

definition archive_encryption :: "environment \<Rightarrow> (archive_connect_error, S3ServerSideEncryption option) result" where
  "archive_encryption env =
     (case optional_setting env ''S3_SERVER_SIDE_ENCRYPTION'' of
        None \<Rightarrow> Ok None
      | Some mode \<Rightarrow>
          if mode = ''none'' then Ok None
          else if mode = ''s3'' \<or> mode = ''AES256'' then Ok (Some S3Managed)
          else if mode = ''kms'' \<or> mode = ''aws:kms''
          then Ok (Some (case optional_setting env ''S3_KMS_KEY_ID'' of
                 Some key_id \<Rightarrow> CustomerManagedKms key_id | None \<Rightarrow> AwsManagedKms))
          else Err (ArchiveInvalidInput ''S3_SERVER_SIDE_ENCRYPTION must be one of none, s3, or kms''))"

definition archive_connect ::
    "(S3Service \<Rightarrow> (string, unit) result) \<Rightarrow> environment \<Rightarrow> string \<Rightarrow> string
     \<Rightarrow> (archive_connect_error, S3Service \<times> OpenDalArchiveStore) result" where
  "archive_connect operator_new env prefix_setting default_prefix =
     (let bucket = (case optional_setting env ''S3_BUCKET'' of None \<Rightarrow> ''pulpitum'' | Some b \<Rightarrow> b);
          prefix = (case optional_setting env prefix_setting of None \<Rightarrow> default_prefix | Some p \<Rightarrow> p);
          config = (S3ArchiveConfig_new bucket prefix)\<lparr> s3_endpoint := Some (archive_endpoint env),
            s3_region := optional_setting env ''S3_REGION'' \<rparr>
      in and_then (archive_allow_http env) (\<lambda>allow_http.
         and_then (archive_credentials env) (\<lambda>credentials.
         and_then (archive_encryption env) (\<lambda>encryption.
           map_err ArchiveStoreError (s3_config operator_new (config\<lparr> s3_allow_http := allow_http,
             s3_access_key_id := map_option fst credentials,
             s3_secret_access_key := map_option (\<lambda>(_, secret, _). secret) credentials,
             s3_session_token := (case credentials of None \<Rightarrow> None | Some (_, _, token) \<Rightarrow> token),
             s3_encryption := encryption \<rparr>))))))"

section \<open>No silent downgrade\<close>

lemma connect_with_transport_Ok:
  "connect_with_transport parse url config transport = Ok pool \<longleftrightarrow>
     0 < pc_max_connections config \<and> 0 < pc_acquire_timeout config \<and> 0 < pc_connect_timeout config
     \<and> 0 < pc_transaction_timeout config \<and> 0 < pc_commit_timeout config \<and> 0 < pc_rollback_timeout config
     \<and> pool = \<lparr> cp_database_url = url, cp_database_target = from_database_url parse url,
        cp_transport = transport, cp_config = config, cp_system = new_pool (pc_max_connections config) \<rparr>"
  by (auto simp: connect_with_transport_def)

text \<open>C33. A database connection is never downgraded: \<open>cockroach_connection::connect\<close> opens a store without TLS
  only for a URL with \<open>sslmode=disable\<close>, and otherwise only with a connector that verifies the server against
  the certificates of the configured CA file, of which there is at least one, and that presents a client
  identity exactly when both client paths are set. The pool it starts has a positive size and positive
  timeouts.\<close>

theorem database_connections_are_explicit:
  assumes "cockroach_connect L parse env files url config = Ok opened"
  shows "\<exists>parsed. parse url = Some parsed
    \<and> (pg_ssl_mode parsed = SslDisable \<and> cp_transport (os_pool opened) = InsecureDev
       \<or> pg_ssl_mode parsed = SslRequire
         \<and> (\<exists>path pem roots connection. env ''COCKROACH_CA_CERT_PATH'' = Present path \<and> files path = Some pem
              \<and> collect_results (tl_pem_certificates L pem) = Ok roots \<and> roots \<noteq> []
              \<and> cp_transport (os_pool opened) = Rustls connection \<and> rc_roots connection = roots
              \<and> (rc_identity connection \<noteq> None \<longleftrightarrow> var_ok (env ''COCKROACH_CLIENT_CERT_PATH'') \<noteq> None
                   \<and> var_ok (env ''COCKROACH_CLIENT_KEY_PATH'') \<noteq> None)))
    \<and> 0 < pc_max_connections config \<and> 0 < pc_acquire_timeout config \<and> 0 < pc_connect_timeout config
    \<and> 0 < pc_transaction_timeout config \<and> 0 < pc_commit_timeout config \<and> 0 < pc_rollback_timeout config
    \<and> cp_system (os_pool opened) = new_pool (pc_max_connections config)"
proof -
  obtain parsed where p: "parse url = Some parsed"
    using assms by (cases "parse url") (auto simp: cockroach_connect_def)
  show ?thesis
  proof (cases "pg_ssl_mode parsed")
    case SslDisable
    then show ?thesis
      using assms p
      by (auto simp: cockroach_connect_def connect_insecure_dev_with_pool_config_def pool_connect_insecure_dev_def
          require_ssl_mode_def and_then_eq_Inr map_err_Ok connect_with_transport_Ok from_pool_def)
  next
    case SslRequire
    with assms p obtain path pem server_tls tls where
      steps: "var_ok (env ''COCKROACH_CA_CERT_PATH'') = Some path" "files path = Some pem"
      "from_ca_pem L pem = Ok server_tls" "client_identity L env files server_tls = Ok tls"
      "connect_rustls_with_pool_config L parse url config tls = Ok opened"
      by (auto simp: cockroach_connect_def and_then_eq_Inr map_err_Ok read_file_def ok_or_def split: option.splits)
    have path: "env ''COCKROACH_CA_CERT_PATH'' = Present path"
      using steps(1) by (cases "env ''COCKROACH_CA_CERT_PATH''") auto
    have roots: "collect_results (tl_pem_certificates L pem) = Ok (tls_roots server_tls)" "tls_roots server_tls \<noteq> []"
      "tls_client_certificates server_tls = None" "tls_client_key server_tls = None"
      using steps(3) by (auto simp: from_ca_pem_def and_then_eq_Inr map_err_Ok split: if_splits)
    have ident: "tls_roots tls = tls_roots server_tls"
      "tls_client_certificates tls \<noteq> None \<longleftrightarrow> var_ok (env ''COCKROACH_CLIENT_CERT_PATH'') \<noteq> None
         \<and> var_ok (env ''COCKROACH_CLIENT_KEY_PATH'') \<noteq> None"
      "tls_client_certificates tls \<noteq> None \<longleftrightarrow> tls_client_key tls \<noteq> None"
      using steps(4) roots(3,4)
      by (auto simp: client_identity_def with_client_auth_pem_def and_then_eq_Inr map_err_Ok
          split: option.splits if_splits)
    from steps(5) obtain c where c: "connector L tls = Ok c" "cp_transport (os_pool opened) = Rustls c"
      and rest: "0 < pc_max_connections config" "0 < pc_acquire_timeout config" "0 < pc_connect_timeout config"
      "0 < pc_transaction_timeout config" "0 < pc_commit_timeout config" "0 < pc_rollback_timeout config"
      "cp_system (os_pool opened) = new_pool (pc_max_connections config)"
      by (auto simp: connect_rustls_with_pool_config_def pool_connect_rustls_def and_then_eq_Inr map_err_Ok
          connect_with_transport_Ok from_pool_def)
    have "rc_roots c = tls_roots tls" "rc_identity c \<noteq> None \<longleftrightarrow> tls_client_certificates tls \<noteq> None"
      using c(1) ident(3) by (auto simp: connector_def split: if_splits option.splits)
    then show ?thesis using p SslRequire path steps(2) roots ident c(2) rest by auto
  qed (use assms p in \<open>auto simp: cockroach_connect_def\<close>)
qed

definition example_tls :: tls_library where
  "example_tls = \<lparr> tl_pem_certificates = (\<lambda>pem. if pem = [] then [] else [Ok pem]), tl_pem_key = Some,
     tl_trust_anchor = (\<lambda>_. True), tl_protocol_versions = True, tl_identity = (\<lambda>_ _. True) \<rparr>"

definition example_parser :: url_parser where
  "example_parser url = (if url = ''postgresql://db/defaultdb?sslmode=require''
     then Some \<lparr> pg_ssl_mode = SslRequire, pg_hostaddrs = [], pg_hosts = [Tcp ''db''], pg_ports = [] \<rparr> else None)"

definition example_env :: environment where
  "example_env name = (if name = ''COCKROACH_CA_CERT_PATH'' then Present ''ca.pem'' else NotPresent)"

theorem database_connections_are_explicit_witness:
  "\<exists>opened connection. cockroach_connect example_tls example_parser example_env (\<lambda>_. Some [1])
       ''postgresql://db/defaultdb?sslmode=require'' default_pool_config = Ok opened
     \<and> cp_transport (os_pool opened) = Rustls connection \<and> rc_roots connection = [[1]] \<and> rc_identity connection = None"
proof -
  obtain opened where o: "cockroach_connect example_tls example_parser example_env (\<lambda>_. Some [1])
       ''postgresql://db/defaultdb?sslmode=require'' default_pool_config = Ok opened"
    by (simp add: cockroach_connect_def example_parser_def example_env_def read_file_def from_ca_pem_def example_tls_def
        client_identity_def connect_rustls_with_pool_config_def pool_connect_rustls_def require_ssl_mode_def
        connector_def connect_with_transport_def default_pool_config_def SECOND_def from_pool_def)
  from database_connections_are_explicit [OF o] o show ?thesis
    by (auto simp: example_parser_def example_tls_def example_env_def simp del: not_None_eq split_paired_Ex)
qed

text \<open>C34. The archive connection keeps its defaults local: a plain HTTP endpoint is used only when it is allowed
  explicitly or is a local endpoint, and the built-in development credentials only for a local endpoint for
  which no credentials are configured; configured credentials reach the service unchanged.\<close>

theorem archive_connection_defaults:
  assumes "archive_connect operator_new env prefix_setting default_prefix = Ok (service, store)"
  shows "srv_endpoint service = Some (archive_endpoint env)
    \<and> (starts_with ''http://'' (archive_endpoint env) \<longrightarrow>
         optional_setting env ''S3_ALLOW_HTTP'' = Some ''true''
         \<or> optional_setting env ''S3_ALLOW_HTTP'' = None \<and> local_endpoint (archive_endpoint env))
    \<and> (case (optional_setting env ''S3_ACCESS_KEY'', optional_setting env ''S3_SECRET_KEY'') of
         (Some access, Some secret) \<Rightarrow> srv_credentials service = Some (access, secret)
       | (None, None) \<Rightarrow> srv_credentials service
           = (if local_endpoint (archive_endpoint env) then Some (''minioadmin'', ''minioadmin'') else None)
       | _ \<Rightarrow> False)"
proof -
  from assms obtain allow_http credentials encryption config where
    allow: "archive_allow_http env = Ok allow_http" and cred: "archive_credentials env = Ok credentials" and
    cfg: "s3_config operator_new config = Ok (service, store)"
    "s3_endpoint config = Some (archive_endpoint env)" "s3_allow_http config = allow_http"
    "s3_access_key_id config = map_option fst credentials"
    "s3_secret_access_key config = map_option (\<lambda>(_, secret, _). secret) credentials"
    unfolding archive_connect_def Let_def and_then_eq_Inr map_err_Ok by fastforce
  have "srv_endpoint service = s3_endpoint config" "starts_with ''http://'' (archive_endpoint env) \<Longrightarrow> allow_http"
    "srv_credentials service = map_option (\<lambda>(access, secret, _). (access, secret)) credentials"
    using cfg by (auto simp: s3_config_def Let_def split: if_splits sum.splits option.splits)
  moreover have "allow_http \<longleftrightarrow> optional_setting env ''S3_ALLOW_HTTP'' = Some ''true''
      \<or> optional_setting env ''S3_ALLOW_HTTP'' = None \<and> local_endpoint (archive_endpoint env)"
    using allow by (auto simp: archive_allow_http_def parse_bool_def ok_or_def split: option.splits if_splits)
  ultimately show ?thesis
    using cfg(2) cred by (auto simp: archive_credentials_def Let_def split: option.splits if_splits)
qed

theorem archive_connection_defaults_witness:
  "\<exists>service store. archive_connect (\<lambda>_. Ok ()) (\<lambda>_. NotPresent) ''ARCHIVER_PREFIX'' ''showcase'' = Ok (service, store)
     \<and> srv_endpoint service = Some ''http://127.0.0.1:9000''
     \<and> srv_credentials service = Some (''minioadmin'', ''minioadmin'')"
proof -
  have "trim ''pulpitum'' \<noteq> []" by (subst trim_plain) (simp_all add: not_ws_ascii)
  then obtain service store where
    c: "archive_connect (\<lambda>_. Ok ()) (\<lambda>_. NotPresent) ''ARCHIVER_PREFIX'' ''showcase'' = Ok (service, store)"
    by (simp add: archive_connect_def archive_allow_http_def archive_credentials_def archive_encryption_def
        archive_endpoint_def optional_setting_def local_endpoint_def s3_config_def S3ArchiveConfig_new_def
        starts_with_def Let_def)
  from archive_connection_defaults [OF c] c show ?thesis
    by (simp add: archive_endpoint_def optional_setting_def local_endpoint_def starts_with_def)
qed

end
