(* ===== verification/Datafusion.thy ===== *)
theory Datafusion
  imports Durable_Table Opendal_Store
begin

text \<open>
  The routed SQL scan, \<open>src/src/integrations/datafusion.rs\<close>: how a conjunction of SQL predicates becomes one
  query of the table, and how its page becomes Arrow batches. DataFusion's expressions are the datatype
  \<open>Expr\<close> with the constructors the source matches; Arrow is a record parameter. The lemmas show when the
  query selects exactly the rows that satisfy the predicates.
\<close>

section \<open>Expressions\<close>

datatype ScalarValue =
    Utf8 "string option"
  | Utf8View "string option"
  | LargeUtf8 "string option"
  | TimestampNanosecond "int option" "string option"
  | TimestampMicrosecond "int option" "string option"
  | TimestampMillisecond "int option" "string option"
  | TimestampSecond "int option" "string option"
  | Int64 "int option"
  | OtherScalar string

datatype Operator = And | Or | Eq | NotEq | Lt | LtEq | Gt | GtEq | OtherOperator string

text \<open>\<open>OtherExpr\<close> stands for every other constructor; a cast carries the name of its type.\<close>

datatype Expr =
    Column string
  | Literal ScalarValue
  | Cast Expr string
  | TryCast Expr string
  | BinaryExpr Expr Operator Expr
  | OtherExpr string

datatype PulpitumTableProviderError =
    MissingShardEquality
  | MissingTimestampStart
  | MissingTimestampEnd
  | InvalidTimestampRange
  | UnsupportedPredicate
  | ConflictingShardEquality
  | ConflictingTimestampBounds

datatype DataFusionError = Plan string | Execution string | Internal string

definition provider_error_text :: "PulpitumTableProviderError \<Rightarrow> string" where
  "provider_error_text e =
     (case e of
        MissingShardEquality \<Rightarrow> ''DataFusion scan requires equality on the configured shard key''
      | MissingTimestampStart \<Rightarrow> ''DataFusion scan requires an inclusive timestamp lower bound''
      | MissingTimestampEnd \<Rightarrow> ''DataFusion scan requires an exclusive timestamp upper bound''
      | InvalidTimestampRange \<Rightarrow> ''DataFusion scan timestamp range must have start before end''
      | UnsupportedPredicate \<Rightarrow> ''DataFusion scan contains an unsupported predicate''
      | ConflictingShardEquality \<Rightarrow> ''DataFusion scan has conflicting shard equality predicates''
      | ConflictingTimestampBounds \<Rightarrow> ''DataFusion scan contains conflicting timestamp bounds'')"

definition planning_error :: "PulpitumTableProviderError \<Rightarrow> DataFusionError" where
  "planning_error error = Plan (provider_error_text error)"

fun column_name :: "Expr \<Rightarrow> string option" where
  "column_name (Column name) = Some name"
| "column_name _ = None"

fun literal :: "Expr \<Rightarrow> ScalarValue option" where
  "literal (Literal value) = Some value"
| "literal (Cast expr _) = literal expr"
| "literal (TryCast expr _) = literal expr"
| "literal _ = None"

definition string_literal :: "ScalarValue option \<Rightarrow> string option" where
  "string_literal value =
     (case value of
        Some (Utf8 (Some s)) \<Rightarrow> Some s
      | Some (Utf8View (Some s)) \<Rightarrow> Some s
      | Some (LargeUtf8 (Some s)) \<Rightarrow> Some s
      | _ \<Rightarrow> None)"

definition checked_mul :: "int \<Rightarrow> int \<Rightarrow> int option" where
  "checked_mul a b = (if I64_MIN \<le> a * b \<and> a * b \<le> I64_MAX then Some (a * b) else None)"

text \<open>\<open>DateTime::from_timestamp_nanos\<close> is total: an instant is its number of nanoseconds.\<close>

definition timestamp_literal :: "ScalarValue option \<Rightarrow> datetime option" where
  "timestamp_literal value =
     (case value of
        Some (TimestampNanosecond (Some v) _) \<Rightarrow> Some v
      | Some (TimestampMicrosecond (Some v) _) \<Rightarrow> checked_mul v 1000
      | Some (TimestampMillisecond (Some v) _) \<Rightarrow> checked_mul v 1000000
      | Some (TimestampSecond (Some v) _) \<Rightarrow> checked_mul v 1000000000
      | _ \<Rightarrow> None)"

section \<open>Predicates\<close>

record RoutedQuery =
  rq_partition_key :: "PartitionKey option"
  rq_start :: "datetime option"
  rq_end :: "datetime option"

definition routed_default :: RoutedQuery where
  "routed_default = \<lparr> rq_partition_key = None, rq_start = None, rq_end = None \<rparr>"

definition routed_finish :: "RoutedQuery \<Rightarrow> (PulpitumTableProviderError, RoutedQuery) result" where
  "routed_finish rq =
     and_then (ok_or MissingTimestampStart (rq_start rq)) (\<lambda>start.
     and_then (ok_or MissingTimestampEnd (rq_end rq)) (\<lambda>end_time.
       if start \<ge> end_time then Err InvalidTimestampRange
       else if rq_partition_key rq = None then Err MissingShardEquality
       else Ok rq))"

text \<open>\<open>PartitionKey::from\<close> takes the bytes of the string.\<close>

definition str_bytes :: "string \<Rightarrow> byte list" where
  "str_bytes s = map of_char s"

fun validate_predicate_shape :: "string \<Rightarrow> Expr \<Rightarrow> (PulpitumTableProviderError, unit) result" where
  "validate_predicate_shape partition_column (BinaryExpr left op right) =
     (if op = And
      then and_then (validate_predicate_shape partition_column left) (\<lambda>_. validate_predicate_shape partition_column right)
      else
        let left_column = column_name left; right_column = column_name right;
            left_literal = literal left; right_literal = literal right;
            supported = (case op of
                Eq \<Rightarrow> left_column = Some partition_column \<and> string_literal right_literal \<noteq> None
                  \<or> right_column = Some partition_column \<and> string_literal left_literal \<noteq> None
              | GtEq \<Rightarrow> left_column = Some ''timestamp'' \<and> timestamp_literal right_literal \<noteq> None
                  \<or> right_column = Some ''timestamp'' \<and> timestamp_literal left_literal \<noteq> None
              | Lt \<Rightarrow> left_column = Some ''timestamp'' \<and> timestamp_literal right_literal \<noteq> None
                  \<or> right_column = Some ''timestamp'' \<and> timestamp_literal left_literal \<noteq> None
              | _ \<Rightarrow> False)
        in if supported then Ok () else Err UnsupportedPredicate)"
| "validate_predicate_shape partition_column (Column _) = Err UnsupportedPredicate"
| "validate_predicate_shape partition_column (Literal _) = Err UnsupportedPredicate"
| "validate_predicate_shape partition_column (Cast _ _) = Err UnsupportedPredicate"
| "validate_predicate_shape partition_column (TryCast _ _) = Err UnsupportedPredicate"
| "validate_predicate_shape partition_column (OtherExpr _) = Err UnsupportedPredicate"

definition collect_timestamp_bound ::
    "Expr \<Rightarrow> Operator \<Rightarrow> Expr \<Rightarrow> RoutedQuery \<Rightarrow> (PulpitumTableProviderError, RoutedQuery) result" where
  "collect_timestamp_bound left op right rq =
     (let left_column = column_name left; right_column = column_name right;
          left_timestamp = timestamp_literal (literal left); right_timestamp = timestamp_literal (literal right)
      in and_then
           (if op = GtEq \<and> left_column = Some ''timestamp'' then Ok (right_timestamp, True)
            else if op = Lt \<and> left_column = Some ''timestamp'' then Ok (right_timestamp, False)
            else if op = Lt \<and> right_column = Some ''timestamp'' then Ok (left_timestamp, True)
            else if op = GtEq \<and> right_column = Some ''timestamp'' then Ok (left_timestamp, False)
            else Err UnsupportedPredicate) (\<lambda>(bound, is_start).
         and_then (ok_or UnsupportedPredicate bound) (\<lambda>bound.
           if is_start
           then (if rq_start rq \<noteq> None then Err ConflictingTimestampBounds else Ok (rq\<lparr> rq_start := Some bound \<rparr>))
           else (if rq_end rq \<noteq> None then Err ConflictingTimestampBounds else Ok (rq\<lparr> rq_end := Some bound \<rparr>)))))"

definition collect_partition ::
    "string \<Rightarrow> Expr \<Rightarrow> Expr \<Rightarrow> RoutedQuery \<Rightarrow> (PulpitumTableProviderError, RoutedQuery) result" where
  "collect_partition partition_column left right rq =
     and_then (ok_or UnsupportedPredicate
        (if column_name left = Some partition_column then string_literal (literal right)
         else if column_name right = Some partition_column then string_literal (literal left)
         else None)) (\<lambda>partition.
       let partition_key = PartitionKey (str_bytes partition)
       in case rq_partition_key rq of
            Some existing \<Rightarrow>
              if existing \<noteq> partition_key then Err ConflictingShardEquality
              else Ok (rq\<lparr> rq_partition_key := Some partition_key \<rparr>)
          | None \<Rightarrow> Ok (rq\<lparr> rq_partition_key := Some partition_key \<rparr>))"

fun collect_predicate ::
    "string \<Rightarrow> Expr \<Rightarrow> RoutedQuery \<Rightarrow> (PulpitumTableProviderError, RoutedQuery) result" where
  "collect_predicate partition_column (BinaryExpr left op right) rq =
     (if op = And
      then and_then (collect_predicate partition_column left rq) (\<lambda>rq. collect_predicate partition_column right rq)
      else if op = Eq then collect_partition partition_column left right rq
      else collect_timestamp_bound left op right rq)"
| "collect_predicate partition_column (Column _) rq = Err UnsupportedPredicate"
| "collect_predicate partition_column (Literal _) rq = Err UnsupportedPredicate"
| "collect_predicate partition_column (Cast _ _) rq = Err UnsupportedPredicate"
| "collect_predicate partition_column (TryCast _ _) rq = Err UnsupportedPredicate"
| "collect_predicate partition_column (OtherExpr _) rq = Err UnsupportedPredicate"

fun collect_predicates ::
    "string \<Rightarrow> Expr list \<Rightarrow> RoutedQuery \<Rightarrow> (PulpitumTableProviderError, RoutedQuery) result" where
  "collect_predicates partition_column [] rq = Ok rq"
| "collect_predicates partition_column (e # filters) rq =
     and_then (collect_predicate partition_column e rq) (collect_predicates partition_column filters)"

definition extract_query :: "string \<Rightarrow> Expr list \<Rightarrow> (PulpitumTableProviderError, RoutedQuery) result" where
  "extract_query partition_column filters =
     and_then (collect_predicates partition_column filters routed_default) routed_finish"

text \<open>\<open>supports_filters_pushdown\<close>: every filter it accepts is pushed down as \<open>Exact\<close>.\<close>

datatype TableProviderFilterPushDown = Unsupported | Inexact | Exact

definition supports_filters_pushdown ::
    "string \<Rightarrow> Expr list \<Rightarrow> (DataFusionError, TableProviderFilterPushDown list) result" where
  "supports_filters_pushdown partition_column filters =
     collect_results (map (\<lambda>e.
       and_then (map_err planning_error (validate_predicate_shape partition_column e)) (\<lambda>_. Ok Exact)) filters)"

section \<open>Batches\<close>

datatype TimeUnit = Second | Millisecond | Microsecond | Nanosecond

datatype DataType =
    Utf8Type
  | LargeUtf8Type
  | BinaryType
  | LargeBinaryType
  | TimestampType TimeUnit "string option"
  | BooleanType
  | Int8Type
  | Int16Type
  | Int32Type
  | Int64Type
  | UInt8Type
  | UInt16Type
  | UInt32Type
  | UInt64Type
  | Float16Type
  | Float32Type
  | Float64Type
  | OtherType string

record Field =
  fd_name :: string
  fd_type :: DataType
  fd_nullable :: bool

datatype ArrayRef = StringArray "string list" | TimestampNanosecondArray "int list" | BinaryArray "byte list list"

text \<open>What the adapter uses of Arrow: a batch from columns, its projection, and the projection of a schema.\<close>

record 'b arrow =
  ar_try_new :: "Field list \<Rightarrow> ArrayRef list \<Rightarrow> 'b option"
  ar_project :: "nat list \<Rightarrow> 'b \<Rightarrow> 'b option"
  ar_schema_project :: "nat list \<Rightarrow> Field list \<Rightarrow> Field list option"

definition provider_schema :: "TableDefinition \<Rightarrow> Field list" where
  "provider_schema definition =
     [\<lparr> fd_name = td_partition_key definition, fd_type = Utf8Type, fd_nullable = False \<rparr>,
      \<lparr> fd_name = ''timestamp'', fd_type = TimestampType Nanosecond (Some ''UTC''), fd_nullable = False \<rparr>,
      \<lparr> fd_name = ''id'', fd_type = Utf8Type, fd_nullable = False \<rparr>,
      \<lparr> fd_name = ''value'', fd_type = BinaryType, fd_nullable = False \<rparr>]"

text \<open>\<open>std::str::from_utf8\<close>: well-formed sequences of one to four bytes.\<close>

definition continuation :: "byte \<Rightarrow> bool" where
  "continuation b \<longleftrightarrow> 0x80 \<le> b \<and> b \<le> 0xBF"

fun valid_utf8 :: "byte list \<Rightarrow> bool" where
  "valid_utf8 [] = True"
| "valid_utf8 (a # rest) =
     (if a \<le> 0x7F then valid_utf8 rest
      else case rest of
        [] \<Rightarrow> False
      | b # rest \<Rightarrow>
          if 0xC2 \<le> a \<and> a \<le> 0xDF then continuation b \<and> valid_utf8 rest
          else case rest of
            [] \<Rightarrow> False
          | c # rest \<Rightarrow>
              if 0xE0 \<le> a \<and> a \<le> 0xEF
              then continuation b \<and> (a = 0xE0 \<longrightarrow> 0xA0 \<le> b) \<and> (a = 0xED \<longrightarrow> b \<le> 0x9F) \<and> continuation c \<and> valid_utf8 rest
              else case rest of
                [] \<Rightarrow> False
              | d # rest \<Rightarrow>
                  0xF0 \<le> a \<and> a \<le> 0xF4 \<and> continuation b \<and> (a = 0xF0 \<longrightarrow> 0x90 \<le> b) \<and> (a = 0xF4 \<longrightarrow> b \<le> 0x8F)
                  \<and> continuation c \<and> continuation d \<and> valid_utf8 rest)"

definition as_utf8 :: "byte list \<Rightarrow> string option" where
  "as_utf8 bytes = (if valid_utf8 bytes then Some (map (\<lambda>b. char_of (unat b)) bytes) else None)"

definition BATCH_SIZE :: nat where
  "BATCH_SIZE = 1024"

text \<open>\<open>slice::chunks\<close>.\<close>

function chunks :: "nat \<Rightarrow> 'x list \<Rightarrow> 'x list list" where
  "chunks n xs = (if n = 0 \<or> xs = [] then [] else take n xs # chunks n (drop n xs))"
  by auto
termination
  by (relation "measure (\<lambda>(n, xs). length xs)") auto

declare chunks.simps [simp del]

definition record_batch ::
    "'b arrow \<Rightarrow> Field list \<Rightarrow> nat list \<Rightarrow> Record list \<Rightarrow> (DataFusionError, 'b) result" where
  "record_batch A source_schema projection records =
     and_then (ok_or (Execution ''Pulpitum partition key is not valid UTF-8 for the SQL adapter'')
       (those (map (\<lambda>r. as_utf8 (pk_bytes (rec_partition_key r))) records))) (\<lambda>partition_keys.
     and_then (ok_or (Execution ''Pulpitum timestamp is outside Arrow nanosecond range'')
       (those (map (\<lambda>r. timestamp_nanos_opt (rec_event_time r)) records))) (\<lambda>timestamps.
     and_then (ok_or (Execution ''Pulpitum sort key is not valid UTF-8 for the SQL adapter'')
       (those (map (\<lambda>r. as_utf8 (sk_bytes (rec_sort_key r))) records))) (\<lambda>sort_keys.
       ok_or (Execution ''Pulpitum could not build an Arrow batch'')
         (Option.bind (ar_try_new A source_schema
             [StringArray partition_keys, TimestampNanosecondArray timestamps, StringArray sort_keys,
              BinaryArray (map rec_value records)])
           (ar_project A projection)))))"

definition record_batches ::
    "'b arrow \<Rightarrow> Record list \<Rightarrow> Field list \<Rightarrow> nat list \<Rightarrow> (DataFusionError, 'b list) result" where
  "record_batches A records source_schema projection =
     collect_results (map (record_batch A source_schema projection) (chunks BATCH_SIZE records))"

section \<open>The scan\<close>

record RoutedScanExec =
  rs_source_schema :: "Field list"
  rs_output_schema :: "Field list"
  rs_projection :: "nat list"
  rs_query :: RoutedQuery
  rs_limit :: "nat option"

definition scan ::
    "'b arrow \<Rightarrow> TableDefinition \<Rightarrow> nat list option \<Rightarrow> Expr list \<Rightarrow> nat option \<Rightarrow> (DataFusionError, RoutedScanExec) result" where
  "scan A definition projection filters limit =
     and_then (map_err planning_error (extract_query (td_partition_key definition) filters)) (\<lambda>rq.
       let schema = provider_schema definition;
           projection = (case projection of Some p \<Rightarrow> p | None \<Rightarrow> [0 ..< length schema])
       in and_then (ok_or (Plan ''DataFusion scan has an invalid projection'') (ar_schema_project A projection schema))
            (\<lambda>output_schema. Ok \<lparr> rs_source_schema = schema, rs_output_schema = output_schema,
               rs_projection = projection, rs_query = rq, rs_limit = limit \<rparr>))"

definition with_new_children :: "RoutedScanExec \<Rightarrow> 'plan list \<Rightarrow> (DataFusionError, RoutedScanExec) result" where
  "with_new_children exec children =
     (if children = [] then Ok exec else Err (Internal ''Pulpitum routed scans do not accept children''))"

text \<open>\<open>execute\<close> returns the stream, here the program that produces its batches.\<close>

definition execute ::
    "chrono \<Rightarrow> 'b arrow \<Rightarrow> TableDefinition \<Rightarrow> RoutedScanExec \<Rightarrow> nat
     \<Rightarrow> (DataFusionError, (DataFusionError, 'b list) result prog) result" where
  "execute C A definition exec partition_index =
     (if partition_index \<noteq> 0 then Err (Execution ''Pulpitum routed scan partition is unavailable'')
      else
        let not_validated = Internal ''Pulpitum routed scan was not validated''
        in and_then (ok_or not_validated (rq_partition_key (rs_query exec))) (\<lambda>partition_key.
           and_then (ok_or not_validated (rq_start (rs_query exec))) (\<lambda>start.
           and_then (ok_or not_validated (rq_end (rs_query exec))) (\<lambda>end_time.
             Ok (bind_prog (query_page C definition \<lparr> q_partition_key = partition_key,
                     q_range = \<lparr> tr_start = start, tr_end = end_time \<rparr>, q_after = None,
                     q_limit = (case rs_limit exec of Some n \<Rightarrow> n | None \<Rightarrow> USIZE_MAX) \<rparr>)
               (\<lambda>res. case res of
                  Inl _ \<Rightarrow> Done (Err (Execution ''Pulpitum routed read failed''))
                | Inr page \<Rightarrow> Done (record_batches A (qp_records page) (rs_source_schema exec) (rs_projection exec))))))))"

section \<open>What the predicates mean\<close>

text \<open>SQL values of the columns and literals, with timestamps in nanoseconds; \<open>cast\<close> is the effect of DataFusion's
  casts. A \<open>NULL\<close> and a value of another type is \<open>None\<close>, which satisfies no comparison.\<close>

datatype sql_value = SqlBytes "byte list" | SqlTime int

type_synonym sql_cast = "string \<Rightarrow> sql_value option \<Rightarrow> sql_value option"

fun scalar_value :: "ScalarValue \<Rightarrow> sql_value option" where
  "scalar_value (Utf8 v) = map_option (\<lambda>s. SqlBytes (str_bytes s)) v"
| "scalar_value (Utf8View v) = map_option (\<lambda>s. SqlBytes (str_bytes s)) v"
| "scalar_value (LargeUtf8 v) = map_option (\<lambda>s. SqlBytes (str_bytes s)) v"
| "scalar_value (TimestampNanosecond v _) = map_option SqlTime v"
| "scalar_value (TimestampMicrosecond v _) = map_option (\<lambda>t. SqlTime (t * 1000)) v"
| "scalar_value (TimestampMillisecond v _) = map_option (\<lambda>t. SqlTime (t * 1000000)) v"
| "scalar_value (TimestampSecond v _) = map_option (\<lambda>t. SqlTime (t * 1000000000)) v"
| "scalar_value (Int64 _) = None"
| "scalar_value (OtherScalar _) = None"

definition column_value :: "string \<Rightarrow> Record \<Rightarrow> string \<Rightarrow> sql_value option" where
  "column_value partition_column r name =
     (if name = partition_column then Some (SqlBytes (pk_bytes (rec_partition_key r)))
      else if name = ''timestamp'' then Some (SqlTime (rec_event_time r))
      else if name = ''id'' then Some (SqlBytes (sk_bytes (rec_sort_key r)))
      else if name = ''value'' then Some (SqlBytes (rec_value r))
      else None)"

fun expr_value :: "sql_cast \<Rightarrow> string \<Rightarrow> Record \<Rightarrow> Expr \<Rightarrow> sql_value option" where
  "expr_value cast pc r (Column name) = column_value pc r name"
| "expr_value cast pc r (Literal value) = scalar_value value"
| "expr_value cast pc r (Cast e type) = cast type (expr_value cast pc r e)"
| "expr_value cast pc r (TryCast e type) = cast type (expr_value cast pc r e)"
| "expr_value cast pc r (BinaryExpr _ _ _) = None"
| "expr_value cast pc r (OtherExpr _) = None"

fun sql_less :: "sql_value option \<Rightarrow> sql_value option \<Rightarrow> bool" where
  "sql_less (Some (SqlTime a)) (Some (SqlTime b)) \<longleftrightarrow> a < b"
| "sql_less (Some (SqlBytes a)) (Some (SqlBytes b)) \<longleftrightarrow> a < b"
| "sql_less _ _ \<longleftrightarrow> False"

definition sql_equal :: "sql_value option \<Rightarrow> sql_value option \<Rightarrow> bool" where
  "sql_equal a b \<longleftrightarrow> a = b \<and> a \<noteq> None"

fun satisfies :: "sql_cast \<Rightarrow> string \<Rightarrow> Record \<Rightarrow> Expr \<Rightarrow> bool" where
  "satisfies cast pc r (BinaryExpr left op right) =
     (let a = expr_value cast pc r left; b = expr_value cast pc r right
      in case op of
           And \<Rightarrow> satisfies cast pc r left \<and> satisfies cast pc r right
         | Or \<Rightarrow> satisfies cast pc r left \<or> satisfies cast pc r right
         | Eq \<Rightarrow> sql_equal a b
         | Lt \<Rightarrow> sql_less a b
         | LtEq \<Rightarrow> sql_less a b \<or> sql_equal a b
         | Gt \<Rightarrow> sql_less b a
         | GtEq \<Rightarrow> sql_less b a \<or> sql_equal a b
         | NotEq \<Rightarrow> a \<noteq> None \<and> b \<noteq> None \<and> a \<noteq> b
         | OtherOperator _ \<Rightarrow> False)"
| "satisfies cast pc r (Column _) = False"
| "satisfies cast pc r (Literal _) = False"
| "satisfies cast pc r (Cast _ _) = False"
| "satisfies cast pc r (TryCast _ _) = False"
| "satisfies cast pc r (OtherExpr _) = False"

text \<open>
  The filters that the optimizer hands over: a comparison has its column on the left, and the casts around a
  literal do not change its value.
\<close>

fun literal_value :: "sql_cast \<Rightarrow> Expr \<Rightarrow> sql_value option" where
  "literal_value cast (Literal value) = scalar_value value"
| "literal_value cast (Cast e type) = cast type (literal_value cast e)"
| "literal_value cast (TryCast e type) = cast type (literal_value cast e)"
| "literal_value cast _ = None"

definition kept_literal :: "sql_cast \<Rightarrow> Expr \<Rightarrow> bool" where
  "kept_literal cast e = (case literal e of None \<Rightarrow> True | Some value \<Rightarrow> literal_value cast e = scalar_value value)"

fun canonical_filter :: "sql_cast \<Rightarrow> Expr \<Rightarrow> bool" where
  "canonical_filter cast (BinaryExpr left op right) =
     (if op = And then canonical_filter cast left \<and> canonical_filter cast right
      else kept_literal cast left \<and> kept_literal cast right
        \<and> (op = Eq \<or> column_name left = Some ''timestamp''))"
| "canonical_filter cast _ = True"

text \<open>The rows that a collected query selects.\<close>

definition routed_selects :: "RoutedQuery \<Rightarrow> Record \<Rightarrow> bool" where
  "routed_selects rq r \<longleftrightarrow>
     (case rq_partition_key rq of None \<Rightarrow> True | Some k \<Rightarrow> rec_partition_key r = k)
     \<and> (case rq_start rq of None \<Rightarrow> True | Some t \<Rightarrow> t \<le> rec_event_time r)
     \<and> (case rq_end rq of None \<Rightarrow> True | Some t \<Rightarrow> rec_event_time r < t)"

lemma literal_value_expr: "literal e \<noteq> None \<Longrightarrow> expr_value cast pc r e = literal_value cast e"
  by (induction e) auto

lemma kept_literal_expr:
  "kept_literal cast e \<Longrightarrow> literal e = Some value \<Longrightarrow> expr_value cast pc r e = scalar_value value"
  by (simp add: kept_literal_def literal_value_expr)

lemma string_literal_Some:
  "string_literal v = Some s \<longleftrightarrow> v \<in> {Some (Utf8 (Some s)), Some (Utf8View (Some s)), Some (LargeUtf8 (Some s))}"
  by (auto simp: string_literal_def split: option.splits ScalarValue.splits)

lemma timestamp_literal_Some: "timestamp_literal v = Some t \<Longrightarrow> \<exists>value. v = Some value \<and> scalar_value value = Some (SqlTime t)"
  by (auto simp: timestamp_literal_def checked_mul_def split: option.splits ScalarValue.splits if_splits)

lemma column_name_Some: "column_name e = Some name \<longleftrightarrow> e = Column name"
  by (cases e) auto

lemma collect_partition_exact:
  assumes "collect_partition pc left right rq = Ok rq'" and "kept_literal cast left" and "kept_literal cast right"
  shows "routed_selects rq' r \<longleftrightarrow> routed_selects rq r \<and> sql_equal (expr_value cast pc r left) (expr_value cast pc r right)"
proof -
  have key: "sql_equal (Some (SqlBytes (pk_bytes (rec_partition_key r)))) (expr_value cast pc r e) \<longleftrightarrow> rec_partition_key r = PartitionKey (str_bytes s)"
    "sql_equal (expr_value cast pc r e) (Some (SqlBytes (pk_bytes (rec_partition_key r)))) \<longleftrightarrow> rec_partition_key r = PartitionKey (str_bytes s)"
    if "string_literal (literal e) = Some s" and "kept_literal cast e" for e s
    using that by (cases "rec_partition_key r"; auto simp: string_literal_Some kept_literal_expr sql_equal_def)+
  show ?thesis
    using assms
    by (auto simp: collect_partition_def and_then_eq_Inr column_name_Some column_value_def key routed_selects_def Let_def ok_or_def
        split: if_splits option.splits)
qed

lemma collect_timestamp_exact:
  assumes "collect_timestamp_bound left op right rq = Ok rq'" and "column_name left = Some ''timestamp''"
    and "kept_literal cast right" and "pc \<noteq> ''timestamp''"
  shows "routed_selects rq' r \<longleftrightarrow> routed_selects rq r \<and> satisfies cast pc r (BinaryExpr left op right)" "op \<noteq> And"
proof -
  have val: "expr_value cast pc r right = Some (SqlTime t)" if "timestamp_literal (literal right) = Some t" for t
    using timestamp_literal_Some [OF that] assms(3) by (auto simp: kept_literal_expr)
  show "routed_selects rq' r \<longleftrightarrow> routed_selects rq r \<and> satisfies cast pc r (BinaryExpr left op right)" "op \<noteq> And"
    using assms val
    by (auto simp: collect_timestamp_bound_def and_then_eq_Inr column_name_Some column_value_def routed_selects_def Let_def
        ok_or_def sql_equal_def split: if_splits option.splits)
qed

lemma collect_predicate_exact:
  assumes "pc \<noteq> ''timestamp''"
  shows "collect_predicate pc e rq = Ok rq' \<Longrightarrow> canonical_filter cast e \<Longrightarrow>
    routed_selects rq' r \<longleftrightarrow> routed_selects rq r \<and> satisfies cast pc r e"
proof (induction e arbitrary: rq rq')
  case (BinaryExpr left op right)
  consider "op = And" | "op = Eq" | "op \<noteq> And" "op \<noteq> Eq" by blast
  then show ?case
  proof cases
    case 1
    then show ?thesis using BinaryExpr by (auto simp: and_then_eq_Inr)
  next
    case 2
    then show ?thesis using BinaryExpr.prems collect_partition_exact [of pc left right rq rq'] by auto
  next
    case 3
    then show ?thesis using BinaryExpr.prems collect_timestamp_exact(1) [of left op right rq rq' cast pc r] assms by auto
  qed
qed auto

lemma collect_predicates_exact:
  assumes "pc \<noteq> ''timestamp''"
  shows "collect_predicates pc filters rq = Ok rq' \<Longrightarrow> list_all (canonical_filter cast) filters \<Longrightarrow>
    routed_selects rq' r \<longleftrightarrow> routed_selects rq r \<and> list_all (satisfies cast pc r) filters"
proof (induction filters arbitrary: rq)
  case (Cons e filters)
  then obtain mid where "collect_predicate pc e rq = Ok mid" "collect_predicates pc filters mid = Ok rq'"
    by (auto simp: and_then_eq_Inr)
  then show ?case using Cons collect_predicate_exact [OF assms, of e rq mid cast r] by auto
qed auto

lemma routed_finish_Ok:
  "routed_finish rq = Ok rq' \<longleftrightarrow> rq' = rq \<and> (\<exists>k s t. rq = \<lparr> rq_partition_key = Some k, rq_start = Some s, rq_end = Some t \<rparr> \<and> s < t)"
  by (cases rq) (auto simp: routed_finish_def and_then_eq_Inr ok_or_def not_le split: option.splits if_splits)

lemma extract_query_exact:
  assumes "extract_query pc filters = Ok rq" and "list_all (canonical_filter cast) filters" and "pc \<noteq> ''timestamp''"
  obtains k s t where "rq = \<lparr> rq_partition_key = Some k, rq_start = Some s, rq_end = Some t \<rparr>" and "s < t"
    and "\<And>r. list_all (satisfies cast pc r) filters
      \<longleftrightarrow> rec_partition_key r = k \<and> tr_contains \<lparr> tr_start = s, tr_end = t \<rparr> (rec_event_time r)"
proof -
  from assms(1) obtain k s t where q: "collect_predicates pc filters routed_default = Ok rq"
    "rq = \<lparr> rq_partition_key = Some k, rq_start = Some s, rq_end = Some t \<rparr>" "s < t"
    by (auto simp: extract_query_def and_then_eq_Inr routed_finish_Ok)
  have "list_all (satisfies cast pc r) filters
      \<longleftrightarrow> rec_partition_key r = k \<and> tr_contains \<lparr> tr_start = s, tr_end = t \<rparr> (rec_event_time r)" for r
    using collect_predicates_exact [OF assms(3) q(1) assms(2), of r] q(2)
    by (auto simp: routed_selects_def routed_default_def tr_contains_def)
  with that q show ?thesis by blast
qed

end
