(* ===== verification/Sidecar_Security.thy ===== *)
theory Sidecar_Security
  imports Connections Datafusion
begin

text \<open>
  The transport security and the login of the SQL sidecar, \<open>src/src/bin/sql_sidecar_security.rs\<close>. The TLS and PEM
  libraries, the key derivation and the SASL handler of \<open>pgwire\<close> are parameters. The theorems show that a
  sidecar is either fully secured or openly insecure, and that a secured one answers no plaintext login.
\<close>

section \<open>Configuration\<close>

definition CERT_PATH_ENV :: string where
  "CERT_PATH_ENV = ''PULPITUM_SQL_TLS_CERT_PATH''"

definition KEY_PATH_ENV :: string where
  "KEY_PATH_ENV = ''PULPITUM_SQL_TLS_KEY_PATH''"

definition PASSWORD_FILE_ENV :: string where
  "PASSWORD_FILE_ENV = ''PULPITUM_SQL_PASSWORD_FILE''"

definition USER_ENV :: string where
  "USER_ENV = ''PULPITUM_SQL_USER''"

definition DATABASE_ENV :: string where
  "DATABASE_ENV = ''PULPITUM_SQL_DATABASE''"

definition DEFAULT_USER :: string where
  "DEFAULT_USER = ''pulpitum''"

definition DEFAULT_DATABASE :: string where
  "DEFAULT_DATABASE = ''pulpitum''"

definition SCRAM_ITERATIONS :: nat where
  "SCRAM_ITERATIONS = 4096"

datatype SecurityConfigError =
    IncompleteSecureConfiguration
  | InvalidName string
  | ReadCertificate
  | ReadPrivateKey
  | ReadPassword
  | InvalidCertificate
  | InvalidPrivateKey
  | InvalidTlsIdentity
  | InvalidChannelBindingCertificate
  | ServerCryptoProvider
  | InvalidPasswordFile

text \<open>The random values of \<open>CredentialSource::new\<close> and the key derivation of SCRAM.\<close>

record scram_library =
  sl_salt :: "byte list"
  sl_decoy_salt :: "byte list"
  sl_decoy_password :: string
  sl_gen_salted_password :: "string \<Rightarrow> byte list \<Rightarrow> nat \<Rightarrow> byte list"
  sl_configure_certificate :: "byte list \<Rightarrow> bool"

record CredentialSource =
  cs_user :: string
  cs_database :: string
  cs_salt :: "byte list"
  cs_salted_password :: "byte list"
  cs_decoy_salt :: "byte list"
  cs_decoy_salted_password :: "byte list"

definition CredentialSource_new :: "scram_library \<Rightarrow> string \<Rightarrow> string \<Rightarrow> string \<Rightarrow> CredentialSource" where
  "CredentialSource_new S user database password =
     \<lparr> cs_user = user, cs_database = database, cs_salt = sl_salt S,
       cs_salted_password = sl_gen_salted_password S password (sl_salt S) SCRAM_ITERATIONS,
       cs_decoy_salt = sl_decoy_salt S,
       cs_decoy_salted_password = sl_gen_salted_password S (sl_decoy_password S) (sl_decoy_salt S) SCRAM_ITERATIONS \<rparr>"

record Password =
  pw_salt :: "byte list option"
  pw_password :: "byte list"

record LoginInfo =
  li_user :: "string option"
  li_database :: "string option"

definition get_password :: "CredentialSource \<Rightarrow> LoginInfo \<Rightarrow> Password" where
  "get_password cs login =
     (if li_user login = Some (cs_user cs) \<and> li_database login = Some (cs_database cs)
      then \<lparr> pw_salt = Some (cs_salt cs), pw_password = cs_salted_password cs \<rparr>
      else \<lparr> pw_salt = Some (cs_decoy_salt cs), pw_password = cs_decoy_salted_password cs \<rparr>)"

text \<open>The TLS acceptor presents one identity and offers one protocol.\<close>

record TlsAcceptor =
  ta_certificates :: "certificate list"
  ta_private_key :: private_key
  ta_alpn :: "string list"

record SecureSecurity =
  ss_tls_acceptor :: TlsAcceptor
  ss_certificate_pem :: "byte list"
  ss_credentials :: CredentialSource

datatype SidecarSecurity = Insecure | Secure SecureSecurity

text \<open>\<open>configured_name\<close>; an \<open>OsString\<close> that is not Unicode is \<open>NotUnicode\<close>.\<close>

definition configured_name :: "env_var \<Rightarrow> string \<Rightarrow> string \<Rightarrow> (SecurityConfigError, string) result" where
  "configured_name value fallback variable =
     and_then (case value of
         Present s \<Rightarrow> Ok s
       | NotUnicode \<Rightarrow> Err (InvalidName variable)
       | NotPresent \<Rightarrow> Ok fallback) (\<lambda>s.
       if s = [] then Err (InvalidName variable) else Ok s)"

text \<open>\<open>parse_password_file\<close>: one optional line ending is removed.\<close>

definition strip_line_ending :: "byte list \<Rightarrow> byte list" where
  "strip_line_ending bytes =
     (if bytes \<noteq> [] \<and> last bytes = 10
      then let bytes = butlast bytes in if bytes \<noteq> [] \<and> last bytes = 13 then butlast bytes else bytes
      else bytes)"

definition parse_password_file :: "byte list \<Rightarrow> (SecurityConfigError, string) result" where
  "parse_password_file bytes =
     (let bytes = strip_line_ending bytes
      in if bytes = [] \<or> 10 \<in> set bytes \<or> 13 \<in> set bytes \<or> 0 \<in> set bytes then Err InvalidPasswordFile
         else ok_or InvalidPasswordFile (as_utf8 bytes))"

definition secure_from_bytes ::
    "tls_library \<Rightarrow> scram_library \<Rightarrow> string \<Rightarrow> string \<Rightarrow> byte list \<Rightarrow> byte list \<Rightarrow> byte list
     \<Rightarrow> (SecurityConfigError, SidecarSecurity) result" where
  "secure_from_bytes L S user database certificate_pem key_pem password_bytes =
     and_then (parse_password_file password_bytes) (\<lambda>password.
     and_then (map_err (\<lambda>_. InvalidCertificate) (collect_results (tl_pem_certificates L certificate_pem))) (\<lambda>certificates.
       if certificates = [] then Err InvalidCertificate
       else and_then (ok_or InvalidPrivateKey (tl_pem_key L key_pem)) (\<lambda>private_key.
         if \<not> tl_protocol_versions L then Err ServerCryptoProvider
         else if \<not> tl_identity L certificates private_key then Err InvalidTlsIdentity
         else if \<not> sl_configure_certificate S certificate_pem then Err InvalidChannelBindingCertificate
         else Ok (Secure \<lparr> ss_tls_acceptor = \<lparr> ta_certificates = certificates, ta_private_key = private_key,
               ta_alpn = [''postgresql''] \<rparr>, ss_certificate_pem = certificate_pem,
             ss_credentials = CredentialSource_new S user database password \<rparr>))))"

definition from_options ::
    "tls_library \<Rightarrow> scram_library \<Rightarrow> (env_var \<Rightarrow> byte list option) \<Rightarrow> env_var \<Rightarrow> env_var \<Rightarrow> env_var \<Rightarrow> env_var \<Rightarrow> env_var
     \<Rightarrow> (SecurityConfigError, SidecarSecurity) result" where
  "from_options L S files certificate_path key_path password_path user database =
     (if certificate_path = NotPresent \<and> key_path = NotPresent \<and> password_path = NotPresent then Ok Insecure
      else if certificate_path = NotPresent \<or> key_path = NotPresent \<or> password_path = NotPresent
      then Err IncompleteSecureConfiguration
      else
        and_then (configured_name user DEFAULT_USER USER_ENV) (\<lambda>user.
        and_then (configured_name database DEFAULT_DATABASE DATABASE_ENV) (\<lambda>database.
        and_then (ok_or ReadCertificate (files certificate_path)) (\<lambda>certificate_pem.
        and_then (ok_or ReadPrivateKey (files key_path)) (\<lambda>key_pem.
        and_then (ok_or ReadPassword (files password_path)) (\<lambda>password_bytes.
          secure_from_bytes L S user database certificate_pem key_pem password_bytes))))))"

definition from_environment ::
    "tls_library \<Rightarrow> scram_library \<Rightarrow> (env_var \<Rightarrow> byte list option) \<Rightarrow> environment \<Rightarrow> (SecurityConfigError, SidecarSecurity) result" where
  "from_environment L S files env =
     from_options L S files (env CERT_PATH_ENV) (env KEY_PATH_ENV) (env PASSWORD_FILE_ENV) (env USER_ENV) (env DATABASE_ENV)"

definition is_secure :: "SidecarSecurity \<Rightarrow> bool" where
  "is_secure security = (case security of Insecure \<Rightarrow> False | Secure _ \<Rightarrow> True)"

definition tls_acceptor :: "SidecarSecurity \<Rightarrow> TlsAcceptor option" where
  "tls_acceptor security = (case security of Insecure \<Rightarrow> None | Secure s \<Rightarrow> Some (ss_tls_acceptor s))"

section \<open>Login\<close>

text \<open>What the SASL handler is configured with; \<open>startup_handler\<close> panics, \<open>None\<close>, when the certificate does not
  serve for channel binding.\<close>

record scram_auth =
  sc_source :: CredentialSource
  sc_iterations :: nat
  sc_certificate :: "byte list"

datatype SecurityStartupHandler = InsecureHandler | SecureHandler scram_auth

definition startup_handler :: "scram_library \<Rightarrow> SidecarSecurity \<Rightarrow> SecurityStartupHandler option" where
  "startup_handler S security =
     (case security of
        Insecure \<Rightarrow> Some InsecureHandler
      | Secure s \<Rightarrow>
          if sl_configure_certificate S (ss_certificate_pem s)
          then Some (SecureHandler \<lparr> sc_source = ss_credentials s, sc_iterations = SCRAM_ITERATIONS,
                 sc_certificate = ss_certificate_pem s \<rparr>)
          else None)"

datatype 'm frontend_message = Startup 'm | OtherMessage 'm

text \<open>
  The handlers of \<open>pgwire\<close> as a parameter: how the state of a connection develops with a message under the noop
  and under the SASL handler, and whether the client is logged in.
\<close>

record ('s, 'm) pgwire =
  pw_noop :: "'s \<Rightarrow> 'm frontend_message \<Rightarrow> (string, 's) result"
  pw_sasl :: "scram_auth \<Rightarrow> 's \<Rightarrow> 'm frontend_message \<Rightarrow> (string, 's) result"
  pw_ready :: "'s \<Rightarrow> bool"

definition tls_required_error :: string where
  "tls_required_error = ''TLS is required''"

definition on_startup ::
    "('s, 'm) pgwire \<Rightarrow> SecurityStartupHandler \<Rightarrow> bool \<Rightarrow> 's \<Rightarrow> 'm frontend_message \<Rightarrow> (string, 's) result" where
  "on_startup P handler client_is_secure state message =
     (case handler of
        InsecureHandler \<Rightarrow> pw_noop P state message
      | SecureHandler scram \<Rightarrow>
          if (case message of Startup _ \<Rightarrow> True | OtherMessage _ \<Rightarrow> False) \<and> \<not> client_is_secure
          then Err tls_required_error
          else pw_sasl P scram state message)"

text \<open>A connection hands its messages to the handler until one is refused, which ends it.\<close>

fun login ::
    "('s, 'm) pgwire \<Rightarrow> SecurityStartupHandler \<Rightarrow> bool \<Rightarrow> 's \<Rightarrow> 'm frontend_message list \<Rightarrow> (string, 's) result" where
  "login P handler client_is_secure state [] = Ok state"
| "login P handler client_is_secure state (m # ms) =
     and_then (on_startup P handler client_is_secure state m) (\<lambda>state. login P handler client_is_secure state ms)"

section \<open>What the configuration guarantees\<close>

lemma secure_from_bytes_Ok:
  assumes "secure_from_bytes L S user database certificate_pem key_pem password_bytes = Ok security"
  obtains password certificates key where "parse_password_file password_bytes = Ok password"
    "collect_results (tl_pem_certificates L certificate_pem) = Ok certificates" "certificates \<noteq> []" "tl_pem_key L key_pem = Some key"
    "tl_identity L certificates key" "sl_configure_certificate S certificate_pem"
    "security = Secure \<lparr> ss_tls_acceptor = \<lparr> ta_certificates = certificates, ta_private_key = key, ta_alpn = [''postgresql''] \<rparr>,
       ss_certificate_pem = certificate_pem, ss_credentials = CredentialSource_new S user database password \<rparr>"
  using assms by (auto simp: secure_from_bytes_def and_then_eq_Inr split: if_splits)

lemma configured_name_Ok:
  "configured_name v fallback variable = Ok s \<longleftrightarrow>
     s \<noteq> [] \<and> (v = Present s \<or> v = NotPresent \<and> s = fallback)"
  by (cases v) (auto simp: configured_name_def)

lemma from_options_Ok:
  assumes "from_options L S files cert key password user database = Ok security"
  shows "security = Insecure \<and> cert = NotPresent \<and> key = NotPresent \<and> password = NotPresent
    \<or> (\<exists>s pem. security = Secure s \<and> cert \<noteq> NotPresent \<and> key \<noteq> NotPresent \<and> password \<noteq> NotPresent
        \<and> sl_configure_certificate S (ss_certificate_pem s) \<and> files password = Some pem
        \<and> (\<exists>pw. parse_password_file pem = Ok pw
             \<and> ss_credentials s = CredentialSource_new S (cs_user (ss_credentials s)) (cs_database (ss_credentials s)) pw)
        \<and> tl_identity L (ta_certificates (ss_tls_acceptor s)) (ta_private_key (ss_tls_acceptor s)))"
  using assms
  by (auto simp: from_options_def and_then_eq_Inr CredentialSource_new_def split: if_splits elim!: secure_from_bytes_Ok)

text \<open>The SASL handler logs nobody in who has not sent a startup message: \<open>started\<close> holds of the states after one.\<close>

definition sasl_ok :: "('s, 'm) pgwire \<Rightarrow> ('s \<Rightarrow> bool) \<Rightarrow> bool" where
  "sasl_ok P started \<longleftrightarrow>
     (\<forall>scram state m state'. pw_sasl P scram state (OtherMessage m) = Ok state' \<longrightarrow> started state' \<longrightarrow> started state)
     \<and> (\<forall>state. pw_ready P state \<longrightarrow> started state)"

lemma plaintext_login:
  assumes "sasl_ok P started" and "\<not> started state" and "login P (SecureHandler scram) False state ms = Ok state'"
  shows "\<not> started state'"
  using assms(2,3)
proof (induction ms arbitrary: state)
  case (Cons m ms)
  then obtain mid where mid: "on_startup P (SecureHandler scram) False state m = Ok mid"
    "login P (SecureHandler scram) False mid ms = Ok state'"
    by (auto simp: and_then_eq_Inr)
  then obtain x where "m = OtherMessage x" "pw_sasl P scram state m = Ok mid"
    by (cases m) (auto simp: on_startup_def)
  then have "\<not> started mid" using assms(1) Cons.prems(1) unfolding sasl_ok_def by blast
  then show ?case using Cons.IH mid(2) by blast
qed auto

lemma plaintext_never_ready:
  "sasl_ok P started \<Longrightarrow> \<not> started state \<Longrightarrow> login P (SecureHandler scram) False state ms = Ok state' \<Longrightarrow> \<not> pw_ready P state'"
  using plaintext_login [of P started state scram ms state'] by (auto simp: sasl_ok_def)

text \<open>C37. The sidecar fails closed: with all three of certificate, key and password file it is secured, with a
  SCRAM login over the configured credentials, with none of them it is insecure, and with some of them it does
  not start. A secured sidecar never panics when it makes a handler, logs no plaintext client in, whatever
  messages the client sends, and gives out the real salted password only for the configured user and
  database.\<close>

theorem secured_sidecar_fails_closed:
  assumes "from_environment L S files env = Ok security"
  shows "(security = Insecure \<longleftrightarrow> (\<forall>name \<in> {CERT_PATH_ENV, KEY_PATH_ENV, PASSWORD_FILE_ENV}. env name = NotPresent))
    \<and> (\<forall>s. security = Secure s \<longrightarrow>
         (\<forall>name \<in> {CERT_PATH_ENV, KEY_PATH_ENV, PASSWORD_FILE_ENV}. env name \<noteq> NotPresent)
         \<and> (\<exists>scram. startup_handler S security = Some (SecureHandler scram) \<and> sc_source scram = ss_credentials s
              \<and> (\<forall>P started state ms state'. sasl_ok P started \<longrightarrow> \<not> started state
                   \<longrightarrow> login P (SecureHandler scram) False state ms = Ok state' \<longrightarrow> \<not> pw_ready P state'))
         \<and> (\<forall>login. cs_salted_password (ss_credentials s) \<noteq> cs_decoy_salted_password (ss_credentials s)
              \<longrightarrow> pw_password (get_password (ss_credentials s) login) = cs_salted_password (ss_credentials s)
              \<longrightarrow> li_user login = Some (cs_user (ss_credentials s)) \<and> li_database login = Some (cs_database (ss_credentials s))))"
proof -
  note from_options_Ok [OF assms [unfolded from_environment_def]]
  then show ?thesis
    by (auto simp: startup_handler_def get_password_def dest: plaintext_never_ready split: if_splits)
qed

text \<open>A password file holds one line, with or without a line ending.\<close>

lemma parse_password_line:
  assumes "line \<noteq> []" and "10 \<notin> set line" and "13 \<notin> set line" and "0 \<notin> set line" and "valid_utf8 line"
  shows "parse_password_file line = Ok (map (\<lambda>b. char_of (unat b)) line)"
    "parse_password_file (line @ [10]) = Ok (map (\<lambda>b. char_of (unat b)) line)"
    "parse_password_file (line @ [13, 10]) = Ok (map (\<lambda>b. char_of (unat b)) line)"
proof -
  have l: "last line \<noteq> 10" "last line \<noteq> 13" using assms last_in_set by metis+
  have "butlast (line @ [13, 10]) = line @ [13]" by (simp add: butlast_append)
  then have "strip_line_ending (line @ [13, 10]) = line" by (simp add: strip_line_ending_def Let_def)
  moreover have "strip_line_ending line = line" "strip_line_ending (line @ [10]) = line"
    using l by (simp_all add: strip_line_ending_def)
  ultimately show "parse_password_file line = Ok (map (\<lambda>b. char_of (unat b)) line)"
    "parse_password_file (line @ [10]) = Ok (map (\<lambda>b. char_of (unat b)) line)"
    "parse_password_file (line @ [13, 10]) = Ok (map (\<lambda>b. char_of (unat b)) line)"
    using assms by (simp_all add: parse_password_file_def as_utf8_def)
qed

definition example_scram :: scram_library where
  "example_scram = \<lparr> sl_salt = [1], sl_decoy_salt = [2], sl_decoy_password = ''decoy'',
     sl_gen_salted_password = (\<lambda>password salt _. str_bytes password @ salt), sl_configure_certificate = (\<lambda>_. True) \<rparr>"

definition secured_env :: environment where
  "secured_env name = (if name \<in> {CERT_PATH_ENV, KEY_PATH_ENV, PASSWORD_FILE_ENV} then Present name else NotPresent)"

text \<open>A handler that logs a client in with its second message.\<close>

definition counting_pgwire :: "(nat, unit) pgwire" where
  "counting_pgwire = \<lparr> pw_noop = (\<lambda>_ _. Ok 2), pw_sasl = (\<lambda>_ n m. case m of Startup _ \<Rightarrow> Ok 1 | OtherMessage _ \<Rightarrow> Ok (if n = 1 then 2 else n)),
     pw_ready = (\<lambda>n. n = 2) \<rparr>"

lemma counting_sasl_ok: "sasl_ok counting_pgwire (\<lambda>n. n \<noteq> 0)"
  by (auto simp: sasl_ok_def counting_pgwire_def split: if_splits)

theorem secured_sidecar_fails_closed_witness:
  "\<exists>s scram. from_environment example_tls example_scram (\<lambda>_. Some [115, 10]) secured_env = Ok (Secure s)
     \<and> startup_handler example_scram (Secure s) = Some (SecureHandler scram)
     \<and> (\<forall>state'. login counting_pgwire (SecureHandler scram) False 0 [OtherMessage (), OtherMessage ()] = Ok state'
          \<longrightarrow> \<not> pw_ready counting_pgwire state')
     \<and> login counting_pgwire (SecureHandler scram) False 0 [Startup (), OtherMessage ()] = Err ''TLS is required''"
proof -
  have "parse_password_file [115, 10] = Ok [char_of (115 :: nat)]" using parse_password_line(2) [of "[115]"] by simp
  then obtain s where s: "from_environment example_tls example_scram (\<lambda>_. Some [115, 10]) secured_env = Ok (Secure s)"
    by (simp add: from_environment_def from_options_def secured_env_def CERT_PATH_ENV_def KEY_PATH_ENV_def
        PASSWORD_FILE_ENV_def USER_ENV_def DATABASE_ENV_def configured_name_def DEFAULT_USER_def DEFAULT_DATABASE_def
        secure_from_bytes_def example_tls_def example_scram_def)
  from secured_sidecar_fails_closed [OF s, where ?'a = nat and ?'b = unit] obtain scram where
    scram: "startup_handler example_scram (Secure s) = Some (SecureHandler scram)"
    "\<And>P started state ms state'. sasl_ok (P :: (nat, unit) pgwire) started \<Longrightarrow> \<not> started state
       \<Longrightarrow> login P (SecureHandler scram) False state ms = Ok state' \<Longrightarrow> \<not> pw_ready P state'"
    by blast
  have "login counting_pgwire (SecureHandler scram) False 0 [Startup (), OtherMessage ()] = Err ''TLS is required''"
    by (simp add: on_startup_def tls_required_error_def)
  moreover have "\<not> pw_ready counting_pgwire state'"
    if "login counting_pgwire (SecureHandler scram) False 0 [OtherMessage (), OtherMessage ()] = Ok state'" for state'
    using scram(2) [OF counting_sasl_ok _ that] by simp
  ultimately show ?thesis using s scram(1) by blast
qed

end
