(* ===== verification/Sql_Gateway.thy ===== *)
theory Sql_Gateway
  imports Sidecar_Security
begin

text \<open>
  The statements of the SQL sidecar, \<open>src/src/bin/pulpitum-sql-sidecar.rs\<close>: which statements are accepted, how an
  \<open>INSERT\<close> becomes a record, and how parameters are counted, typed
  and bound. The SQL
  parser, DataFusion and the PostgreSQL codec are parameters; the syntax tree is a datatype with the
  constructors the source matches. A panic is \<open>None\<close>.
\<close>

section \<open>Query shapes\<close>

datatype GatewayQueryShape = InsertShape | SelectShape | CountShape | OtherShape

definition is_ascii_upper :: "char \<Rightarrow> bool" where
  "is_ascii_upper c \<longleftrightarrow> CHR ''A'' \<le> c \<and> c \<le> CHR ''Z''"

definition is_ascii_lower :: "char \<Rightarrow> bool" where
  "is_ascii_lower c \<longleftrightarrow> CHR ''a'' \<le> c \<and> c \<le> CHR ''z''"

definition ascii_alphabetic :: "char \<Rightarrow> bool" where
  "ascii_alphabetic c \<longleftrightarrow> is_ascii_upper c \<or> is_ascii_lower c"

definition char_to_ascii_lowercase :: "char \<Rightarrow> char" where
  "char_to_ascii_lowercase c = (if is_ascii_upper c then char_of (of_char c + 32 :: nat) else c)"

definition to_ascii_lowercase :: "string \<Rightarrow> string" where
  "to_ascii_lowercase s = map char_to_ascii_lowercase s"

definition eq_ignore_ascii_case :: "string \<Rightarrow> string \<Rightarrow> bool" where
  "eq_ignore_ascii_case a b \<longleftrightarrow> to_ascii_lowercase a = to_ascii_lowercase b"

definition from_statement :: "string \<Rightarrow> GatewayQueryShape" where
  "from_statement statement =
     (let statement = trim_start statement;
          operation = takeWhile ascii_alphabetic statement
      in if eq_ignore_ascii_case operation ''INSERT'' then InsertShape
         else if \<not> eq_ignore_ascii_case operation ''SELECT'' then OtherShape
         else
           let projection = trim_start (dropWhile ascii_alphabetic statement)
           in if eq_ignore_ascii_case (takeWhile ascii_alphabetic projection) ''COUNT'' then CountShape else SelectShape)"

fun operation_name :: "GatewayQueryShape \<Rightarrow> string" where
  "operation_name InsertShape = ''INSERT''"
| "operation_name SelectShape = ''SELECT''"
| "operation_name CountShape = ''SELECT''"
| "operation_name OtherShape = ''OTHER''"

fun summary :: "GatewayQueryShape \<Rightarrow> string \<Rightarrow> string" where
  "summary InsertShape table_name = ''INSERT '' @ table_name"
| "summary SelectShape table_name = ''SELECT '' @ table_name"
| "summary CountShape table_name = ''SELECT COUNT '' @ table_name"
| "summary OtherShape table_name = ''OTHER '' @ table_name"

fun template :: "GatewayQueryShape \<Rightarrow> string \<Rightarrow> string" where
  "template InsertShape table_name =
     ''INSERT INTO '' @ table_name @ '' (channel_id, timestamp, id, value) VALUES ($1, $2, $3, $4)''"
| "template SelectShape table_name =
     ''SELECT timestamp, id, value FROM '' @ table_name
       @ '' WHERE channel_id = $1 AND timestamp >= $2 AND timestamp < $3 ORDER BY timestamp ASC, id ASC LIMIT $4''"
| "template CountShape table_name =
     ''SELECT COUNT(*) AS message_count FROM '' @ table_name
       @ '' WHERE channel_id = $1 AND timestamp >= $2 AND timestamp < $3''"
| "template OtherShape table_name = ''OTHER SQL statement against '' @ table_name"

definition telemetry_query_template :: "string \<Rightarrow> string \<Rightarrow> bool \<Rightarrow> string" where
  "telemetry_query_template statement table_name capture_query_text =
     (if capture_query_text then trim statement else template (from_statement statement) table_name)"

section \<open>Statements\<close>

text \<open>\<open>StringValue\<close> stands for the string literals of every quoting style, of which \<open>into_string\<close> gives the content.\<close>

datatype SqlValue = StringValue string | Placeholder string | OtherValue string

definition into_string :: "SqlValue \<Rightarrow> string option" where
  "into_string v = (case v of StringValue s \<Rightarrow> Some s | _ \<Rightarrow> None)"

datatype TimezoneInfo = TzNone | WithTimeZone | WithoutTimeZone | Tz

datatype SqlDataType = SqlTimestamp "nat option" TimezoneInfo | OtherSqlType string

datatype SqlExpr = ValueExpr SqlValue | TypedString SqlDataType SqlValue | OtherSqlExpr string

datatype SetExpr = Values "SqlExpr list list" | OtherSetExpr string

text \<open>For the clauses that are only rejected, whether they are present.\<close>

record SqlQuery =
  qu_with :: bool
  qu_order_by :: bool
  qu_limit_clause :: bool
  qu_fetch :: bool
  qu_locks :: bool
  qu_for_clause :: bool
  qu_settings :: bool
  qu_format_clause :: bool
  qu_pipe_operators :: bool
  qu_body :: SetExpr

datatype TableObject = TableName string | OtherTableObject string

record InsertClauses =
  ic_table_alias :: bool
  ic_overwrite :: bool
  ic_returning :: bool
  ic_assignments :: bool
  ic_on :: bool
  ic_partitioned :: bool
  ic_after_columns :: bool
  ic_has_table_keyword :: bool
  ic_replace_into :: bool
  ic_priority :: bool
  ic_insert_alias :: bool
  ic_settings :: bool
  ic_format_clause :: bool
  ic_multi_table_insert_type :: bool
  ic_multi_table_into_clauses :: bool
  ic_multi_table_when_clauses :: bool
  ic_multi_table_else_clause :: bool

record Insert =
  in_clauses :: InsertClauses
  in_table :: TableObject
  in_columns :: "string list"
  in_source :: "SqlQuery option"

datatype SqlStatement = InsertStatement Insert | QueryStatement SqlQuery | OtherStatement string

type_synonym sql_parser = "string \<Rightarrow> SqlStatement list option"

type_synonym pg_wire_error = string

definition query_error :: "string \<Rightarrow> pg_wire_error" where
  "query_error message = message"

datatype GatewayStatementKind = InsertKind | ReadKind

definition gateway_statement_kind :: "sql_parser \<Rightarrow> string \<Rightarrow> (pg_wire_error, GatewayStatementKind) result" where
  "gateway_statement_kind parse statement =
     and_then (ok_or (query_error ''unsupported SQL statement'') (parse statement)) (\<lambda>statements.
       case statements of
         [s] \<Rightarrow>
           (case s of
              InsertStatement _ \<Rightarrow> Ok InsertKind
            | QueryStatement _ \<Rightarrow> Ok ReadKind
            | OtherStatement _ \<Rightarrow> Err (query_error ''only read-only queries and supported INSERT statements are allowed''))
       | _ \<Rightarrow> Err (query_error ''exactly one SQL statement is required''))"

definition unsupported_clauses :: "InsertClauses \<Rightarrow> bool" where
  "unsupported_clauses c \<longleftrightarrow> ic_table_alias c \<or> ic_overwrite c \<or> ic_returning c \<or> ic_assignments c \<or> ic_on c \<or> ic_partitioned c
     \<or> ic_after_columns c \<or> ic_has_table_keyword c \<or> ic_replace_into c \<or> ic_priority c \<or> ic_insert_alias c \<or> ic_settings c
     \<or> ic_format_clause c \<or> ic_multi_table_insert_type c \<or> ic_multi_table_into_clauses c \<or> ic_multi_table_when_clauses c
     \<or> ic_multi_table_else_clause c"

definition unsupported_source :: "SqlQuery \<Rightarrow> bool" where
  "unsupported_source q \<longleftrightarrow> qu_with q \<or> qu_order_by q \<or> qu_limit_clause q \<or> qu_fetch q \<or> qu_locks q \<or> qu_for_clause q
     \<or> qu_settings q \<or> qu_format_clause q \<or> qu_pipe_operators q"

text \<open>The map from columns to expressions, as an association list with distinct keys.\<close>

type_synonym insert_values = "(string \<times> SqlExpr) list"

fun collect_columns :: "(string \<times> SqlExpr) list \<Rightarrow> insert_values \<Rightarrow> (pg_wire_error, insert_values) result" where
  "collect_columns [] vs = Ok vs"
| "collect_columns ((column, expression) # rest) vs =
     (let column = to_ascii_lowercase column
      in if map_of vs column \<noteq> None then Err (query_error ''INSERT contains duplicate columns'')
         else collect_columns rest (vs @ [(column, expression)]))"

definition MESSAGE_COLUMNS :: "string list" where
  "MESSAGE_COLUMNS = [''channel_id'', ''timestamp'', ''id'', ''value'']"

definition parse_insert_values :: "sql_parser \<Rightarrow> string \<Rightarrow> string \<Rightarrow> (pg_wire_error, insert_values) result" where
  "parse_insert_values parse statement expected_table =
     and_then (ok_or (query_error ''unsupported INSERT statement'') (parse statement)) (\<lambda>statements.
     and_then (case statements of
         [InsertStatement ins] \<Rightarrow> Ok ins
       | [_] \<Rightarrow> Err (query_error ''unsupported INSERT statement'')
       | _ \<Rightarrow> Err (query_error ''exactly one INSERT statement is required'')) (\<lambda>ins.
       if unsupported_clauses (in_clauses ins) then Err (query_error ''unsupported INSERT statement'')
       else if (case in_table ins of TableName name \<Rightarrow> \<not> eq_ignore_ascii_case name expected_table | OtherTableObject _ \<Rightarrow> True)
       then Err (query_error ''INSERT target must be the messages table'')
       else if length (in_columns ins) \<noteq> 4 then Err (query_error ''INSERT must provide every messages column'')
       else and_then (ok_or (query_error ''INSERT must use a single VALUES row'') (in_source ins)) (\<lambda>source.
         if unsupported_source source then Err (query_error ''INSERT must use a single VALUES row'')
         else case qu_body source of
           OtherSetExpr _ \<Rightarrow> Err (query_error ''INSERT must use a single VALUES row'')
         | Values rows \<Rightarrow>
             (case rows of
                [expressions] \<Rightarrow>
                  if length expressions \<noteq> length (in_columns ins)
                  then Err (query_error ''INSERT column and value counts must match'')
                  else and_then (collect_columns (zip (in_columns ins) expressions) []) (\<lambda>vs.
                    if \<not> list_all (\<lambda>column. map_of vs column \<noteq> None) MESSAGE_COLUMNS
                    then Err (query_error ''INSERT must provide every messages column'')
                    else if length vs \<noteq> 4 then Err (query_error ''INSERT must provide only messages columns'')
                    else Ok vs)
              | _ \<Rightarrow> Err (query_error ''INSERT must contain exactly one row'')))))"

section \<open>Literals\<close>

definition sql_string_literal :: "SqlExpr \<Rightarrow> (pg_wire_error, string) result" where
  "sql_string_literal expression =
     (case expression of
        ValueExpr v \<Rightarrow> ok_or (query_error ''INSERT values must be string literals'') (into_string v)
      | _ \<Rightarrow> Err (query_error ''INSERT values must be string literals''))"

text \<open>\<open>rfc3339\<close> is the parser of \<open>chrono\<close>.\<close>

definition sql_timestamp_literal :: "(string \<Rightarrow> datetime option) \<Rightarrow> SqlExpr \<Rightarrow> (pg_wire_error, datetime) result" where
  "sql_timestamp_literal rfc3339 expression =
     (let wrong = query_error ''INSERT timestamp must be a TIMESTAMPTZ literal''
      in case expression of
           TypedString data_type v \<Rightarrow>
             if \<not> (case data_type of SqlTimestamp _ tz \<Rightarrow> tz = Tz \<or> tz = WithTimeZone | OtherSqlType _ \<Rightarrow> False)
             then Err wrong
             else and_then (ok_or wrong (into_string v)) (\<lambda>s.
               ok_or (query_error ''INSERT timestamp must be an RFC 3339 value'') (rfc3339 s))
         | _ \<Rightarrow> Err wrong)"

definition hex_digit :: "char \<Rightarrow> nat option" where
  "hex_digit c =
     (let n = of_char c :: nat
      in if 48 \<le> n \<and> n \<le> 57 then Some (n - 48)
         else if 97 \<le> n \<and> n \<le> 102 then Some (n - 87)
         else if 65 \<le> n \<and> n \<le> 70 then Some (n - 55)
         else None)"

text \<open>\<open>u8::from_str_radix\<close> on two bytes: an optional plus sign, then digits.\<close>

definition hex_pair :: "char \<Rightarrow> char \<Rightarrow> byte option" where
  "hex_pair a b =
     (case (if a = CHR ''+'' then Some 0 else hex_digit a, hex_digit b) of
        (Some x, Some y) \<Rightarrow> Some (of_nat (16 * x + y))
      | _ \<Rightarrow> None)"

text \<open>The loop of \<open>bytea_literal\<close>; a slice that cuts a character panics.\<close>

definition cuts_character :: "string \<Rightarrow> bool" where
  "cuts_character rest = (case rest of [] \<Rightarrow> False | c # _ \<Rightarrow> 128 \<le> (of_char c :: nat) \<and> of_char c \<le> (191 :: nat))"

fun hex_bytes :: "string \<Rightarrow> (pg_wire_error, byte list) result option" where
  "hex_bytes (a # b # rest) =
     (if cuts_character (a # b # rest) \<or> cuts_character rest then None
      else case hex_pair a b of
        None \<Rightarrow> Some (Err (query_error ''INSERT bytea hexadecimal value is invalid''))
      | Some v \<Rightarrow> map_option (\<lambda>res. and_then res (\<lambda>vs. Ok (v # vs))) (hex_bytes rest))"
| "hex_bytes _ = Some (Ok [])"

definition bytea_literal :: "SqlExpr \<Rightarrow> (pg_wire_error, byte list) result option" where
  "bytea_literal expression =
     (case sql_string_literal expression of
        Inl e \<Rightarrow> Some (Err e)
      | Inr s \<Rightarrow>
          if starts_with [CHR 0x5C, CHR ''x''] s
          then let s = drop 2 s
               in if length s mod 2 \<noteq> 0 then Some (Err (query_error ''INSERT bytea hexadecimal value is invalid''))
                  else hex_bytes s
          else Some (Ok (str_bytes s)))"

text \<open>The fields of the record, in the order of their evaluation; \<open>remove\<close> of a validated column succeeds.\<close>

definition assemble_record ::
    "(pg_wire_error, string) result \<Rightarrow> (pg_wire_error, datetime) result \<Rightarrow> (pg_wire_error, string) result
     \<Rightarrow> (pg_wire_error, byte list) result option \<Rightarrow> (pg_wire_error, Record) result option" where
  "assemble_record channel_id timestamp id_value bytes =
     (case and_then channel_id (\<lambda>c. and_then timestamp (\<lambda>t. and_then id_value (\<lambda>i. Ok (c, t, i)))) of
        Inl e \<Rightarrow> Some (Err e)
      | Inr (c, t, i) \<Rightarrow>
          map_option (\<lambda>res. and_then res (\<lambda>v.
            Ok \<lparr> rec_partition_key = PartitionKey (str_bytes c), rec_event_time = t,
                 rec_sort_key = SortKey (str_bytes i), rec_value = v \<rparr>)) bytes)"

text \<open>The columns were validated, so that every one is there.\<close>

definition column_of :: "insert_values \<Rightarrow> string \<Rightarrow> SqlExpr" where
  "column_of vs column = the (map_of vs column)"

definition parse_insert ::
    "(string \<Rightarrow> datetime option) \<Rightarrow> sql_parser \<Rightarrow> string \<Rightarrow> string \<Rightarrow> (pg_wire_error, Record) result option" where
  "parse_insert rfc3339 parse statement expected_table =
     (case parse_insert_values parse statement expected_table of
        Inl e \<Rightarrow> Some (Err e)
      | Inr vs \<Rightarrow>
          assemble_record (sql_string_literal (column_of vs ''channel_id''))
            (sql_timestamp_literal rfc3339 (column_of vs ''timestamp''))
            (sql_string_literal (column_of vs ''id'')) (bytea_literal (column_of vs ''value'')))"

section \<open>Parameters\<close>

datatype pg_type = TEXT | TIMESTAMPTZ | INT8 | BYTEA | BOOL | INT2 | INT4 | NUMERIC | FLOAT4 | FLOAT8

text \<open>\<open>placeholder_indices\<close>: the loop over the bytes of the statement.\<close>

definition is_digit :: "char \<Rightarrow> bool" where
  "is_digit c \<longleftrightarrow> 48 \<le> (of_char c :: nat) \<and> of_char c \<le> (57 :: nat)"

definition positive_index :: "string \<Rightarrow> nat option" where
  "positive_index digits = (case parse_unsigned USIZE_MAX digits of Some n \<Rightarrow> if 0 < n then Some n else None | None \<Rightarrow> None)"

function placeholders :: "bool \<Rightarrow> string \<Rightarrow> (pg_wire_error, nat list) result" where
  "placeholders in_string [] = Ok []"
| "placeholders in_string (c # rest) =
     (if c = CHR 0x27
      then (if in_string \<and> rest \<noteq> [] \<and> hd rest = CHR 0x27 then placeholders in_string (tl rest)
            else placeholders (\<not> in_string) rest)
      else if c = CHR ''$'' \<and> \<not> in_string
      then
        let digits = takeWhile is_digit rest
        in if digits = [] then Err (query_error ''SQL parameters must use positional $n placeholders'')
           else and_then (ok_or (query_error ''SQL parameter indexes must start at $1'') (positive_index digits)) (\<lambda>index.
             and_then (placeholders in_string (dropWhile is_digit rest)) (\<lambda>indices. Ok (index # indices)))
      else placeholders in_string rest)"
  by pat_completeness auto
termination
proof (relation "measure (\<lambda>(_, s). length s)")
  fix rest :: string
  show "((x, dropWhile is_digit rest), y, c # rest) \<in> measure (\<lambda>(_, s). length s)" for x y c
    using length_dropWhile_le [of is_digit rest] by simp
qed auto

definition placeholder_indices :: "string \<Rightarrow> (pg_wire_error, nat list) result" where
  "placeholder_indices statement = placeholders False statement"

definition parameter_types_from_indices :: "nat list \<Rightarrow> pg_type list \<Rightarrow> (pg_wire_error, pg_type list) result" where
  "parameter_types_from_indices indices supported =
     (let highest = Max (insert 0 (set indices))
      in if highest > length supported then Err (query_error ''SQL statement contains an unsupported parameter'')
         else if \<not> list_all (\<lambda>index. index \<in> set indices) [1 ..< highest + 1]
         then Err (query_error ''SQL parameters must be consecutively numbered'')
         else Ok (take highest supported))"

definition read_parameter_types :: "string \<Rightarrow> (pg_wire_error, pg_type list) result" where
  "read_parameter_types statement =
     and_then (placeholder_indices statement) (\<lambda>indices.
       parameter_types_from_indices indices [TEXT, TIMESTAMPTZ, TIMESTAMPTZ, INT8])"

definition placeholder_index :: "SqlExpr \<Rightarrow> (pg_wire_error, nat option) result" where
  "placeholder_index expression =
     (case expression of
        ValueExpr (Placeholder s) \<Rightarrow>
          (case (case s of c # digits \<Rightarrow> if c = CHR ''$'' then positive_index digits else None | [] \<Rightarrow> None) of
             None \<Rightarrow> Err (query_error ''SQL parameters must use positional $n placeholders'')
           | Some index \<Rightarrow> Ok (Some index))
      | _ \<Rightarrow> Ok None)"

definition INSERT_TYPES :: "(string \<times> pg_type) list" where
  "INSERT_TYPES = [(''channel_id'', TEXT), (''timestamp'', TIMESTAMPTZ), (''id'', TEXT), (''value'', BYTEA)]"

text \<open>The map from indices to types, extended column by column.\<close>

fun column_types :: "insert_values \<Rightarrow> (string \<times> pg_type) list \<Rightarrow> (nat \<times> pg_type) list \<Rightarrow> (pg_wire_error, (nat \<times> pg_type) list) result" where
  "column_types vs [] types = Ok types"
| "column_types vs ((column, parameter_type) # rest) types =
     and_then (placeholder_index (column_of vs column)) (\<lambda>index.
       case index of
         None \<Rightarrow> column_types vs rest types
       | Some i \<Rightarrow>
           (case map_of types i of
              Some existing \<Rightarrow>
                if existing \<noteq> parameter_type then Err (query_error ''a parameter cannot be used for different column types'')
                else column_types vs rest types
            | None \<Rightarrow> column_types vs rest ((i, parameter_type) # types)))"

definition insert_parameter_types :: "insert_values \<Rightarrow> (pg_wire_error, pg_type list) result" where
  "insert_parameter_types vs =
     and_then (column_types vs INSERT_TYPES []) (\<lambda>types.
       let highest = Max (insert 0 (set (map fst types)))
       in collect_results (map (\<lambda>index.
            ok_or (query_error ''SQL parameters must be consecutively numbered'') (map_of types index)) [1 ..< highest + 1]))"

definition parameter_types_for_statement :: "sql_parser \<Rightarrow> string \<Rightarrow> string \<Rightarrow> (pg_wire_error, pg_type list) result" where
  "parameter_types_for_statement parse statement expected_table =
     and_then (gateway_statement_kind parse statement) (\<lambda>kind.
       case kind of
         InsertKind \<Rightarrow> and_then (parse_insert_values parse statement expected_table) insert_parameter_types
       | ReadKind \<Rightarrow> read_parameter_types statement)"

text \<open>A bound portal: the number of its parameters and how \<open>pgwire\<close> decodes one of them as a type, where \<open>None\<close> is
  \<open>NULL\<close>.\<close>

record Portal =
  po_statement :: string
  po_parameter_len :: nat
  po_text :: "nat \<Rightarrow> (pg_wire_error, string option) result"
  po_timestamptz :: "nat \<Rightarrow> (pg_wire_error, datetime option) result"
  po_int8 :: "nat \<Rightarrow> (pg_wire_error, int option) result"
  po_bytea :: "nat \<Rightarrow> (pg_wire_error, byte list option) result"

definition validate_parameter_count :: "Portal \<Rightarrow> nat \<Rightarrow> (pg_wire_error, unit) result" where
  "validate_parameter_count portal expected =
     (if po_parameter_len portal = expected then Ok ()
      else Err (query_error ''SQL bind parameter count does not match the statement''))"

definition required_parameter :: "'x option \<Rightarrow> (pg_wire_error, 'x) result" where
  "required_parameter v = ok_or (query_error ''SQL bind parameters cannot be NULL'') v"

definition read_parameter_value :: "Portal \<Rightarrow> nat \<Rightarrow> pg_type \<Rightarrow> (pg_wire_error, ScalarValue) result" where
  "read_parameter_value portal index parameter_type =
     (case parameter_type of
        TEXT \<Rightarrow> and_then (and_then (po_text portal index) required_parameter) (\<lambda>s. Ok (Utf8 (Some s)))
      | TIMESTAMPTZ \<Rightarrow>
          and_then (and_then (po_timestamptz portal index) required_parameter) (\<lambda>t.
          and_then (ok_or (query_error ''timestamp parameter is outside Arrow nanosecond range'') (timestamp_nanos_opt t)) (\<lambda>nanos.
            Ok (TimestampNanosecond (Some nanos) (Some ''UTC''))))
      | INT8 \<Rightarrow> and_then (and_then (po_int8 portal index) required_parameter) (\<lambda>n. Ok (Int64 (Some n)))
      | _ \<Rightarrow> Err (query_error ''SQL statement contains an unsupported parameter''))"

definition read_parameter_values :: "Portal \<Rightarrow> string \<Rightarrow> (pg_wire_error, ScalarValue list) result" where
  "read_parameter_values portal statement =
     and_then (read_parameter_types statement) (\<lambda>types.
     and_then (validate_parameter_count portal (length types)) (\<lambda>_.
       collect_results (map (\<lambda>(index, type). read_parameter_value portal index type) (enumerate 0 types))))"

definition string_value :: "Portal \<Rightarrow> SqlExpr \<Rightarrow> (pg_wire_error, string) result" where
  "string_value portal expression =
     and_then (placeholder_index expression) (\<lambda>index.
       case index of
         None \<Rightarrow> sql_string_literal expression
       | Some i \<Rightarrow> and_then (po_text portal (i - 1)) required_parameter)"

definition timestamp_value :: "(string \<Rightarrow> datetime option) \<Rightarrow> Portal \<Rightarrow> SqlExpr \<Rightarrow> (pg_wire_error, datetime) result" where
  "timestamp_value rfc3339 portal expression =
     and_then (placeholder_index expression) (\<lambda>index.
       case index of
         None \<Rightarrow> sql_timestamp_literal rfc3339 expression
       | Some i \<Rightarrow> and_then (po_timestamptz portal (i - 1)) required_parameter)"

definition bytea_value :: "Portal \<Rightarrow> SqlExpr \<Rightarrow> (pg_wire_error, byte list) result option" where
  "bytea_value portal expression =
     (case placeholder_index expression of
        Inl e \<Rightarrow> Some (Err e)
      | Inr None \<Rightarrow> bytea_literal expression
      | Inr (Some i) \<Rightarrow> Some (and_then (po_bytea portal (i - 1)) required_parameter))"

definition parse_bound_insert ::
    "(string \<Rightarrow> datetime option) \<Rightarrow> sql_parser \<Rightarrow> string \<Rightarrow> string \<Rightarrow> Portal \<Rightarrow> (pg_wire_error, Record) result option" where
  "parse_bound_insert rfc3339 parse statement expected_table portal =
     (case and_then (parse_insert_values parse statement expected_table) (\<lambda>vs.
           and_then (insert_parameter_types vs) (\<lambda>types.
           and_then (validate_parameter_count portal (length types)) (\<lambda>_. Ok vs))) of
        Inl e \<Rightarrow> Some (Err e)
      | Inr vs \<Rightarrow>
          assemble_record (string_value portal (column_of vs ''channel_id''))
            (timestamp_value rfc3339 portal (column_of vs ''timestamp''))
            (string_value portal (column_of vs ''id'')) (bytea_value portal (column_of vs ''value'')))"

end
