(* ===== verification/Sql_Server.thy ===== *)
theory Sql_Server
  imports Sql_Gateway Archive_Recovery
begin

text \<open>
  How the SQL sidecar encodes results and handles requests, \<open>src/src/bin/pulpitum-sql-sidecar.rs\<close>: every request is a
  program over the ports. DataFusion is the record \<open>sql_engine\<close> and the PostgreSQL codec the record field
  \<open>gw_encode_field\<close>.
\<close>

section \<open>Results\<close>

datatype FieldFormat = TextFormat | BinaryFormat

record FieldInfo =
  fi_name :: string
  fi_type :: pg_type
  fi_format :: FieldFormat

type_synonym format = "nat \<Rightarrow> FieldFormat"

definition unified_text :: format where
  "unified_text = (\<lambda>_. TextFormat)"

definition pg_type_of :: "DataType \<Rightarrow> (pg_wire_error, pg_type) result" where
  "pg_type_of data_type =
     (case data_type of
        Utf8Type \<Rightarrow> Ok TEXT
      | LargeUtf8Type \<Rightarrow> Ok TEXT
      | BinaryType \<Rightarrow> Ok BYTEA
      | LargeBinaryType \<Rightarrow> Ok BYTEA
      | TimestampType _ _ \<Rightarrow> Ok TIMESTAMPTZ
      | BooleanType \<Rightarrow> Ok BOOL
      | Int8Type \<Rightarrow> Ok INT2
      | Int16Type \<Rightarrow> Ok INT2
      | Int32Type \<Rightarrow> Ok INT4
      | Int64Type \<Rightarrow> Ok INT8
      | UInt8Type \<Rightarrow> Ok INT8
      | UInt16Type \<Rightarrow> Ok INT8
      | UInt32Type \<Rightarrow> Ok INT8
      | UInt64Type \<Rightarrow> Ok NUMERIC
      | Float16Type \<Rightarrow> Ok FLOAT4
      | Float32Type \<Rightarrow> Ok FLOAT4
      | Float64Type \<Rightarrow> Ok FLOAT8
      | OtherType _ \<Rightarrow> Err (query_error ''query result contains an unsupported data type''))"

definition fields_from_schema :: "Field list \<Rightarrow> format \<Rightarrow> (pg_wire_error, FieldInfo list) result" where
  "fields_from_schema schema format =
     collect_results (map (\<lambda>(index, f).
       and_then (pg_type_of (fd_type f)) (\<lambda>t. Ok \<lparr> fi_name = fd_name f, fi_type = t, fi_format = format index \<rparr>))
       (enumerate 0 schema))"

text \<open>A cell of a result; \<open>RenderedCell\<close> is a value of another type with what \<open>array_value_to_string\<close> makes of it.\<close>

datatype result_cell = TextCell string | BlobCell "byte list" | NanosCell int | RenderedCell "string option"

record ResultColumn =
  rcol_type :: DataType
  rcol_cells :: "result_cell option list"

record ResultBatch =
  rb_num_rows :: nat
  rb_columns :: "ResultColumn list"

datatype field_value = NullField | TextField string | BytesField "byte list" | TimeField datetime

text \<open>The value that a cell is encoded as.\<close>

definition cell_field :: "FieldInfo \<Rightarrow> DataType \<Rightarrow> result_cell option \<Rightarrow> (pg_wire_error, field_value) result" where
  "cell_field field data_type v =
     (let failed = query_error ''query result could not be encoded''
      in case v of
           None \<Rightarrow> Ok NullField
         | Some c \<Rightarrow>
             if data_type = Utf8Type \<or> data_type = LargeUtf8Type
             then (case c of TextCell s \<Rightarrow> Ok (TextField s) | _ \<Rightarrow> Err failed)
             else if data_type = BinaryType \<or> data_type = LargeBinaryType
             then (case c of BlobCell bytes \<Rightarrow> Ok (BytesField bytes) | _ \<Rightarrow> Err failed)
             else if (case data_type of TimestampType unit _ \<Rightarrow> unit = Nanosecond | _ \<Rightarrow> False)
             then (case c of NanosCell n \<Rightarrow> Ok (TimeField n) | _ \<Rightarrow> Err failed)
             else if fi_format field = TextFormat
             then (case c of RenderedCell (Some s) \<Rightarrow> Ok (TextField s) | _ \<Rightarrow> Err failed)
             else Err failed)"

section \<open>The server\<close>

record 'p sql_engine =
  en_sql :: "string \<Rightarrow> 'p option"
  en_with_param_values :: "ScalarValue list \<Rightarrow> 'p \<Rightarrow> 'p option"
  en_schema :: "'p \<Rightarrow> Field list"
  en_collect :: "'p \<Rightarrow> (unit, ResultBatch list) result prog"

text \<open>\<open>PulpitumPgWireServer\<close> with the libraries that it calls.\<close>

record ('p, 'w) gateway =
  gw_engine :: "'p sql_engine"
  gw_encode_field :: "FieldInfo \<Rightarrow> field_value \<Rightarrow> (pg_wire_error, 'w) result"
  gw_parse :: sql_parser
  gw_rfc3339 :: "string \<Rightarrow> datetime option"
  gw_chrono :: chrono
  gw_definition :: TableDefinition
  gw_table_name :: string

definition encode_row ::
    "('p, 'w) gateway \<Rightarrow> FieldInfo list \<Rightarrow> ResultColumn list \<Rightarrow> nat \<Rightarrow> (pg_wire_error, 'w list) result" where
  "encode_row gw fs columns row_index =
     collect_results (map (\<lambda>(field, column).
       and_then (cell_field field (rcol_type column) (rcol_cells column ! row_index)) (gw_encode_field gw field))
       (zip fs columns))"

text \<open>A batch with more columns than the schema or shorter columns than rows does not occur in Arrow; reading it would
  panic.\<close>

definition encode_rows ::
    "('p, 'w) gateway \<Rightarrow> ResultBatch list \<Rightarrow> FieldInfo list \<Rightarrow> (pg_wire_error, 'w list list) result option" where
  "encode_rows gw batches fs =
     (if list_all (\<lambda>b. length (rb_columns b) \<le> length fs
          \<and> list_all (\<lambda>c. rb_num_rows b \<le> length (rcol_cells c)) (rb_columns b)) batches
      then Some (and_then (collect_results (map (\<lambda>b.
          collect_results (map (encode_row gw fs (rb_columns b)) [0 ..< rb_num_rows b])) batches)) (\<lambda>rows. Ok (concat rows)))
      else None)"

datatype 'w Response = ExecutionResponse string nat | QueryResponse "FieldInfo list" "'w list list"

definition dataframe :: "('p, 'w) gateway \<Rightarrow> string \<Rightarrow> (pg_wire_error, 'p) result" where
  "dataframe gw statement = ok_or (query_error ''query could not be planned'') (en_sql (gw_engine gw) statement)"

definition dataframe_with_parameters ::
    "('p, 'w) gateway \<Rightarrow> string \<Rightarrow> ScalarValue list \<Rightarrow> (pg_wire_error, 'p) result" where
  "dataframe_with_parameters gw statement parameters =
     and_then (dataframe gw statement) (\<lambda>plan.
       ok_or (query_error ''query parameters could not be bound'') (en_with_param_values (gw_engine gw) parameters plan))"

definition append_record :: "('p, 'w) gateway \<Rightarrow> (pg_wire_error, Record) result option \<Rightarrow> (pg_wire_error, 'w Response) result prog" where
  "append_record gw parsed =
     (case parsed of
        None \<Rightarrow> Panic
      | Some (Inl e) \<Rightarrow> Done (Err e)
      | Some (Inr r) \<Rightarrow>
          bind_prog (table_append (gw_chrono gw) (gw_definition gw) r) (\<lambda>res.
            case res of
              Inl _ \<Rightarrow> Done (Err (query_error ''record could not be appended''))
            | Inr _ \<Rightarrow> Done (Ok (ExecutionResponse ''INSERT 0'' 1))))"

definition answer_query :: "('p, 'w) gateway \<Rightarrow> format \<Rightarrow> 'p \<Rightarrow> (pg_wire_error, 'w Response) result prog" where
  "answer_query gw format plan =
     (case fields_from_schema (en_schema (gw_engine gw) plan) format of
        Inl e \<Rightarrow> Done (Err e)
      | Inr fs \<Rightarrow>
          bind_prog (en_collect (gw_engine gw) plan) (\<lambda>res.
            case res of
              Inl _ \<Rightarrow> Done (Err (query_error ''query could not be executed''))
            | Inr batches \<Rightarrow>
                (case encode_rows gw batches fs of
                   None \<Rightarrow> Panic
                 | Some (Inl e) \<Rightarrow> Done (Err e)
                 | Some (Inr rows) \<Rightarrow> Done (Ok (QueryResponse fs rows)))))"

definition execute_with_parameters ::
    "('p, 'w) gateway \<Rightarrow> string \<Rightarrow> format \<Rightarrow> Portal option \<Rightarrow> (pg_wire_error, 'w Response) result prog" where
  "execute_with_parameters gw statement format portal =
     (case gateway_statement_kind (gw_parse gw) statement of
        Inl e \<Rightarrow> Done (Err e)
      | Inr InsertKind \<Rightarrow>
          append_record gw (case portal of
              Some p \<Rightarrow> parse_bound_insert (gw_rfc3339 gw) (gw_parse gw) statement (gw_table_name gw) p
            | None \<Rightarrow> parse_insert (gw_rfc3339 gw) (gw_parse gw) statement (gw_table_name gw))
      | Inr ReadKind \<Rightarrow>
          (case (case portal of
                   Some p \<Rightarrow> and_then (read_parameter_values p statement) (dataframe_with_parameters gw statement)
                 | None \<Rightarrow> dataframe gw statement) of
             Inl e \<Rightarrow> Done (Err e)
           | Inr plan \<Rightarrow> answer_query gw format plan))"

text \<open>The extended and the simple protocol.\<close>

definition extended_do_query :: "('p, 'w) gateway \<Rightarrow> Portal \<Rightarrow> format \<Rightarrow> (pg_wire_error, 'w Response) result prog" where
  "extended_do_query gw portal result_format =
     (case and_then (parameter_types_for_statement (gw_parse gw) (po_statement portal) (gw_table_name gw)) (\<lambda>types.
           validate_parameter_count portal (length types)) of
        Inl e \<Rightarrow> Done (Err e)
      | Inr _ \<Rightarrow> execute_with_parameters gw (po_statement portal) result_format (Some portal))"

definition do_describe_statement ::
    "('p, 'w) gateway \<Rightarrow> string \<Rightarrow> (pg_wire_error, pg_type list \<times> FieldInfo list) result" where
  "do_describe_statement gw statement =
     and_then (gateway_statement_kind (gw_parse gw) statement) (\<lambda>kind.
     and_then (case kind of
         InsertKind \<Rightarrow> and_then (parse_insert_values (gw_parse gw) statement (gw_table_name gw)) (\<lambda>_. Ok [])
       | ReadKind \<Rightarrow> and_then (dataframe gw statement) (\<lambda>plan.
           fields_from_schema (en_schema (gw_engine gw) plan) unified_text)) (\<lambda>fs.
     and_then (parameter_types_for_statement (gw_parse gw) statement (gw_table_name gw)) (\<lambda>types. Ok (types, fs))))"

definition do_describe_portal ::
    "('p, 'w) gateway \<Rightarrow> Portal \<Rightarrow> format \<Rightarrow> (pg_wire_error, FieldInfo list) result" where
  "do_describe_portal gw portal result_format =
     and_then (gateway_statement_kind (gw_parse gw) (po_statement portal)) (\<lambda>kind.
       case kind of
         InsertKind \<Rightarrow> and_then (parse_insert_values (gw_parse gw) (po_statement portal) (gw_table_name gw)) (\<lambda>_. Ok [])
       | ReadKind \<Rightarrow> and_then (dataframe gw (po_statement portal)) (\<lambda>plan.
           fields_from_schema (en_schema (gw_engine gw) plan) result_format))"

definition simple_do_query :: "('p, 'w) gateway \<Rightarrow> string \<Rightarrow> (pg_wire_error, 'w Response list) result prog" where
  "simple_do_query gw statement =
     (if trim statement = [] then Done (Ok [])
      else bind_prog (execute_with_parameters gw statement unified_text None) (\<lambda>res.
        case res of Inl e \<Rightarrow> Done (Err e) | Inr response \<Rightarrow> Done (Ok [response])))"

end
