(* ===== verification/Binaries.thy ===== *)
theory Binaries
  imports Connections Archive_Recovery
begin

text \<open>
  The deployment job and the archiver: \<open>src/src/bin/pulpitum-migrate.rs\<close> and \<open>src/src/bin/pulpitum-archiver.rs\<close>,
  from the settings they read to the effects they have (the loop of the archiver, \<open>archiver_loop\<close>, stands with the
  cycles it repeats in \<open>Archive_Recovery\<close>); and the load profile of the development tools,
  \<open>src/src/dev_support/load_profile.rs\<close>.
\<close>

section \<open>The migration job\<close>

definition RUNTIME_TABLES :: "string list" where
  "RUNTIME_TABLES = [''pulpitum_v4_bucket_metadata'', ''pulpitum_v4_records'']"

datatype job_error =
    ParseInt
  | Rejected string
  | JobConnect connect_error
  | JobSchema CockroachSchemaError
  | JobPool StoreError
  | JobDatabase pg_error
  | ArchivalDisabled
  | ParseBoolError
  | Telemetry string
  | FormatError ArchiveFormatParseError
  | JobArchive archive_connect_error
  | NotUnicodeError string
  | TimestampError
  | RecoveryConfig ArchiveRecoveryError

definition pool_max_connections :: "environment \<Rightarrow> (job_error, nat) result" where
  "pool_max_connections env =
     (case var_ok (env ''COCKROACH_POOL_MAX_CONNECTIONS'') of
        None \<Rightarrow> Ok (pc_max_connections default_pool_config)
      | Some value \<Rightarrow> ok_or ParseInt (parse_unsigned USIZE_MAX value))"

definition migrate_pool_config :: "environment \<Rightarrow> (job_error, CockroachPoolConfig) result" where
  "migrate_pool_config env =
     and_then (pool_max_connections env) (\<lambda>n.
       if n = 0 then Err (Rejected ''COCKROACH_POOL_MAX_CONNECTIONS must be greater than zero'')
       else Ok (default_pool_config\<lparr> pc_max_connections := n \<rparr>))"

definition is_ascii_alphabetic :: "char \<Rightarrow> bool" where
  "is_ascii_alphabetic c \<longleftrightarrow> CHR ''A'' \<le> c \<and> c \<le> CHR ''Z'' \<or> CHR ''a'' \<le> c \<and> c \<le> CHR ''z''"

definition is_ascii_alphanumeric :: "char \<Rightarrow> bool" where
  "is_ascii_alphanumeric c \<longleftrightarrow> is_ascii_alphabetic c \<or> CHR ''0'' \<le> c \<and> c \<le> CHR ''9''"

definition quoted_role :: "string \<Rightarrow> (job_error, string) result" where
  "quoted_role role =
     (let valid = (case role of
            [] \<Rightarrow> True
          | c # cs \<Rightarrow> (c = CHR ''_'' \<or> is_ascii_alphabetic c)
              \<and> list_all (\<lambda>c. c = CHR ''_'' \<or> is_ascii_alphanumeric c) cs)
      in if \<not> valid \<or> role = [] then Err (Rejected ''PULPITUM_RUNTIME_ROLE must be a SQL identifier'')
         else Ok (''\"'' @ role @ ''\"''))"

fun join_strings :: "string \<Rightarrow> string list \<Rightarrow> string" where
  "join_strings sep [] = []"
| "join_strings sep [x] = x"
| "join_strings sep (x # y # ys) = x @ sep @ join_strings sep (y # ys)"

text \<open>The batch that grants access, with the role and the tables in place.\<close>

definition grant_batch :: "string \<Rightarrow> string" where
  "grant_batch runtime_role =
     (let table_list = join_strings '', '' RUNTIME_TABLES
      in join_strings ('';'' @ [CHR 0x0A] @ replicate 13 (CHR '' ''))
           [''CREATE USER IF NOT EXISTS '' @ runtime_role,
            ''REVOKE CREATE ON DATABASE defaultdb FROM public'',
            ''REVOKE CREATE ON SCHEMA public FROM public'',
            ''REVOKE CREATE ON DATABASE defaultdb FROM '' @ runtime_role,
            ''REVOKE CREATE ON SCHEMA public FROM '' @ runtime_role,
            ''GRANT CONNECT ON DATABASE defaultdb TO '' @ runtime_role,
            ''GRANT USAGE ON SCHEMA public TO '' @ runtime_role,
            ''GRANT SELECT, INSERT, UPDATE, DELETE ON TABLE '' @ table_list @ '' TO '' @ runtime_role] @ '';'')"

text \<open>
  What the job meets: the environment variables, the files, the answers of the database to \<open>migrate\<close> and
  \<open>validate_schema\<close>, to the acquisition of a connection and to the grant.
\<close>

record job_env =
  je_vars :: environment
  je_files :: "string \<Rightarrow> byte list option"
  je_start :: "CockroachPool \<Rightarrow> StoreError option"
  je_migrate :: migrate_env
  je_validate :: validate_env
  je_acquire :: "StoreError option"
  je_grant :: "pg_error option"

text \<open>The pool is filled before \<open>connect\<close> returns; \<open>je_start\<close> is the failure of \<open>prewarm\<close>.\<close>

definition job_connect ::
    "tls_library \<Rightarrow> url_parser \<Rightarrow> environment \<Rightarrow> (string \<Rightarrow> byte list option) \<Rightarrow> (CockroachPool \<Rightarrow> StoreError option)
     \<Rightarrow> string \<Rightarrow> CockroachPoolConfig \<Rightarrow> (job_error, opened_store) result" where
  "job_connect L parse env files start database_url config =
     and_then (map_err JobConnect (cockroach_connect L parse env files database_url config)) (\<lambda>opened.
       case start (os_pool opened) of
         Some _ \<Rightarrow> Err (JobConnect (OpenStore pool_error))
       | None \<Rightarrow> Ok opened)"

text \<open>\<open>main\<close>: the result (\<open>None\<close> is a panic), the database after \<open>migrate\<close>, and the batch of grants, if it was sent.\<close>

definition migrate_main ::
    "tls_library \<Rightarrow> url_parser \<Rightarrow> (byte list \<Rightarrow> byte list) \<Rightarrow> ddl \<Rightarrow> job_env \<Rightarrow> schema_db
     \<Rightarrow> (job_error, unit) result option \<times> schema_db \<times> string option" where
  "migrate_main L parse sha ddl je db =
     (let env = je_vars je;
          database_url = setting env ''COCKROACH_MIGRATION_URL'' ''postgresql://root@127.0.0.1:26257/defaultdb?sslmode=disable''
      in case and_then (quoted_role (setting env ''PULPITUM_RUNTIME_ROLE'' ''pulpitum_runtime'')) (\<lambda>role.
              and_then (migrate_pool_config env) (\<lambda>config.
              and_then (job_connect L parse env (je_files je) (je_start je) database_url config) (\<lambda>_. Ok role))) of
           Inl e \<Rightarrow> (Some (Err e), db, None)
         | Inr role \<Rightarrow>
             (case migrate sha ddl (je_migrate je) db of
                (None, db') \<Rightarrow> (None, db', None)
              | (Some (Inl e), db') \<Rightarrow> (Some (Err (JobSchema e)), db', None)
              | (Some (Inr _), db') \<Rightarrow>
                  (case validate_schema sha (je_validate je) db' of
                     None \<Rightarrow> (None, db', None)
                   | Some (Inl e) \<Rightarrow> (Some (Err (JobSchema e)), db', None)
                   | Some (Inr _) \<Rightarrow>
                       (case je_acquire je of
                          Some e \<Rightarrow> (Some (Err (JobPool e)), db', None)
                        | None \<Rightarrow>
                            (case je_grant je of
                               Some e \<Rightarrow> (Some (Err (JobDatabase e)), db', Some (grant_batch role))
                             | None \<Rightarrow> (Some (Ok ()), db', Some (grant_batch role)))))))"

section \<open>The archiver\<close>

definition archival_enabled :: "environment \<Rightarrow> (job_error, unit) result" where
  "archival_enabled env =
     and_then (ok_or ParseBoolError (parse_bool (setting env ''PULPITUM_ARCHIVAL_ENABLED'' ''false''))) (\<lambda>enabled.
       if enabled then Ok () else Err ArchivalDisabled)"

definition archiver_pool_config :: "environment \<Rightarrow> (job_error, CockroachPoolConfig) result" where
  "archiver_pool_config env =
     and_then (pool_max_connections env) (\<lambda>n.
       if n < 2 then Err (Rejected ''COCKROACH_POOL_MAX_CONNECTIONS must be at least 2 so lease renewal cannot be blocked by archival work'')
       else Ok (default_pool_config\<lparr> pc_max_connections := n \<rparr>))"

text \<open>\<open>seconds\<close>, in seconds.\<close>

definition seconds :: "environment \<Rightarrow> string \<Rightarrow> nat \<Rightarrow> (job_error, nat) result" where
  "seconds env name fallback =
     and_then (case env name of
         Present value \<Rightarrow> ok_or ParseInt (parse_unsigned U64_MAX value)
       | NotPresent \<Rightarrow> Ok fallback
       | NotUnicode \<Rightarrow> Err (NotUnicodeError name)) (\<lambda>value.
       if value = 0 then Err (Rejected (name @ '' must be greater than zero'')) else Ok value)"

text \<open>\<open>eligible_before\<close>; the outer \<open>None\<close> is the panic of an unrepresentable date.\<close>

definition eligible_before ::
    "chrono \<Rightarrow> (string \<Rightarrow> datetime option) \<Rightarrow> environment \<Rightarrow> datetime \<Rightarrow> (job_error, datetime) result option" where
  "eligible_before C parse_rfc3339 env now =
     (case var_ok (env ''ARCHIVER_ELIGIBLE_BEFORE'') of
        Some value \<Rightarrow> Some (ok_or TimestampError (parse_rfc3339 value))
      | None \<Rightarrow> map_option Inr (c_with_ymd C (c_year C now - 1) 1 1))"

record archiver =
  ar_store :: opened_store
  ar_archive :: OpenDalArchiveStore
  ar_interval :: duration
  ar_config :: ArchiveRecoveryConfig

text \<open>
  \<open>main\<close> up to its loop: \<open>telemetry\<close> is \<open>install_telemetry\<close>, which builds the exporters, \<open>operator_new\<close> builds the operator
  of the object store.
\<close>

definition archiver_start ::
    "tls_library \<Rightarrow> url_parser \<Rightarrow> chrono \<Rightarrow> (string \<Rightarrow> datetime option) \<Rightarrow> (S3Service \<Rightarrow> (string, unit) result)
     \<Rightarrow> (string \<Rightarrow> (string, unit) result) \<Rightarrow> environment \<Rightarrow> (string \<Rightarrow> byte list option) \<Rightarrow> (CockroachPool \<Rightarrow> StoreError option)
     \<Rightarrow> datetime \<Rightarrow> (job_error, archiver) result option" where
  "archiver_start L parse C parse_rfc3339 operator_new telemetry env files start now =
     (let database_url = setting env ''COCKROACH_URL'' ''postgresql://pulpitum_runtime@127.0.0.1:26257/defaultdb?sslmode=disable''
      in case and_then (archival_enabled env) (\<lambda>_.
              and_then (map_err Telemetry (telemetry (setting env ''OTEL_EXPORTER_OTLP_ENDPOINT'' ''http://127.0.0.1:4317''))) (\<lambda>_.
              and_then (archiver_pool_config env) (\<lambda>config.
              and_then (job_connect L parse env files start database_url config) (\<lambda>opened.
              and_then (map_err FormatError (format_from_str (setting env ''ARCHIVE_FORMAT'' ''json''))) (\<lambda>format.
              and_then (map_err JobArchive (archive_connect operator_new env ''ARCHIVER_PREFIX'' ''showcase'')) (\<lambda>archive.
              and_then (seconds env ''ARCHIVER_INTERVAL_SECONDS'' 15) (\<lambda>interval.
              and_then (seconds env ''ARCHIVER_LEASE_SECONDS'' 60) (\<lambda>lease_for.
              and_then (seconds env ''ARCHIVER_LEASE_RENEWAL_SECONDS'' (max (lease_for div 3) 1)) (\<lambda>renewal.
                Ok (opened, with_format format (snd archive), interval, lease_for, renewal)))))))))) of
           Inl e \<Rightarrow> Some (Err e)
         | Inr (opened, archive, interval, lease_for, renewal) \<Rightarrow>
             (case eligible_before C parse_rfc3339 env now of
                None \<Rightarrow> None
              | Some (Inl e) \<Rightarrow> Some (Err e)
              | Some (Inr before) \<Rightarrow>
                  Some (and_then (seconds env ''ARCHIVER_RETRY_SECONDS'' 15) (\<lambda>retry.
                    and_then (map_err RecoveryConfig (recovery_new \<lparr> rc_eligible_before = before, rc_scan_limit = 64,
                        rc_lease_for = lease_for * SECOND, rc_lease_renewal_interval = renewal * SECOND,
                        rc_retry_backoff = retry * SECOND \<rparr>)) (\<lambda>config.
                      Ok \<lparr> ar_store = opened, ar_archive = archive, ar_interval = interval * SECOND,
                           ar_config = config \<rparr>)))))"

section \<open>The load profile\<close>

definition DEFAULT_TARGET_RPS :: nat where
  "DEFAULT_TARGET_RPS = 50"

definition SHAPE_PERMILLE :: "nat list" where
  "SHAPE_PERMILLE = [250, 500, 2250, 1000]"

definition saturating_mul :: "nat \<Rightarrow> nat \<Rightarrow> nat" where
  "saturating_mul a b = min (a * b) USIZE_MAX"

definition load_profile_new :: "nat \<Rightarrow> nat" where
  "load_profile_new target_rps = (if target_rps = 0 then DEFAULT_TARGET_RPS else target_rps)"

definition operations_for_second :: "nat \<Rightarrow> nat \<Rightarrow> nat" where
  "operations_for_second target_rps second =
     (let second = second mod length SHAPE_PERMILLE;
          base = saturating_mul target_rps (SHAPE_PERMILLE ! second) div 1000;
          allocated = sum_list (map (\<lambda>weight. saturating_mul target_rps weight div 1000) SHAPE_PERMILLE);
          remainder = saturating_sub (saturating_mul target_rps (length SHAPE_PERMILLE)) allocated
      in if second = 2 then base + remainder else base)"

definition is_query :: "nat \<Rightarrow> bool" where
  "is_query sequence \<longleftrightarrow> sequence mod 2 = 0"

section \<open>What the jobs guarantee\<close>

definition identifier_char :: "char \<Rightarrow> bool" where
  "identifier_char c \<longleftrightarrow> c = CHR ''_'' \<or> is_ascii_alphanumeric c"

lemma quoted_role_Ok:
  "quoted_role role = Ok q \<longleftrightarrow> role \<noteq> [] \<and> list_all identifier_char role
     \<and> (hd role = CHR ''_'' \<or> is_ascii_alphabetic (hd role)) \<and> q = ''\"'' @ role @ ''\"''"
  by (cases role) (auto simp: quoted_role_def identifier_char_def is_ascii_alphanumeric_def list_all_iff)

lemma identifier_char_not_quote: "identifier_char c \<Longrightarrow> c \<noteq> CHR ''\"''"
  by (auto simp: identifier_char_def is_ascii_alphanumeric_def is_ascii_alphabetic_def less_eq_char_def)

text \<open>C35. The runtime role receives access only to a migrated and validated schema: when \<open>pulpitum-migrate\<close> sends
  its batch of grants, \<open>migrate\<close> has succeeded and \<open>validate_schema\<close> has accepted the database it left; the
  role in the batch is the configured name between double quotes, and that name is an identifier that
  contains no quote, so that no setting can end it early.\<close>

theorem grants_follow_validation:
  assumes "migrate_main L parse sha ddl je db = (res, db', Some batch)"
  shows "migrate sha ddl (je_migrate je) db = (Some (Ok ()), db')
    \<and> validate_schema sha (je_validate je) db' = Some (Ok ())
    \<and> (\<exists>role. role = setting (je_vars je) ''PULPITUM_RUNTIME_ROLE'' ''pulpitum_runtime''
         \<and> batch = grant_batch (''\"'' @ role @ ''\"'') \<and> role \<noteq> [] \<and> list_all identifier_char role
         \<and> CHR ''\"'' \<notin> set role)
    \<and> (res = Some (Ok ()) \<longleftrightarrow> je_grant je = None)"
proof -
  have quotes: "list_all identifier_char role \<Longrightarrow> CHR ''\"'' \<notin> set role" for role
    using identifier_char_not_quote by (auto simp: list_all_iff)
  show ?thesis
    using assms
    by (auto simp: migrate_main_def Let_def and_then_eq_Inr quoted_role_Ok quotes
        split: sum.splits prod.splits option.splits)
qed

text \<open>Local settings: archival is enabled, nothing else is set, and the driver parses the default URLs.\<close>

definition local_env :: environment where
  "local_env name = (if name = ''PULPITUM_ARCHIVAL_ENABLED'' then Present ''true'' else NotPresent)"

definition local_parser :: url_parser where
  "local_parser url = Some \<lparr> pg_ssl_mode = SslDisable, pg_hostaddrs = [], pg_hosts = [Tcp ''127.0.0.1''], pg_ports = [26257] \<rparr>"

definition local_job :: job_env where
  "local_job = \<lparr> je_vars = local_env, je_files = (\<lambda>_. None), je_start = (\<lambda>_. None), je_migrate = flaky_env,
     je_validate = quiet_env, je_acquire = None, je_grant = None \<rparr>"

lemma local_connect:
  "\<exists>opened. job_connect L local_parser local_env files (\<lambda>_. None) url default_pool_config = Ok opened"
  by (simp add: job_connect_def cockroach_connect_def local_parser_def connect_insecure_dev_with_pool_config_def
      pool_connect_insecure_dev_def require_ssl_mode_def connect_with_transport_def default_pool_config_def
      SECOND_def from_pool_def)

lemma local_role: "quoted_role ''pulpitum_runtime'' = Ok ''\"pulpitum_runtime\"''"
  by (simp add: quoted_role_Ok identifier_char_def is_ascii_alphanumeric_def is_ascii_alphabetic_def less_eq_char_def)

lemma local_migrate_main:
  "\<exists>db'. migrate_main L local_parser (\<lambda>_. [171]) simple_ddl local_job empty_db
     = (Some (Ok ()), db', Some (grant_batch ''\"pulpitum_runtime\"''))"
proof -
  obtain tables where t: "migrate (\<lambda>_. [171]) simple_ddl flaky_env empty_db = (Some (Ok ()),
     \<lparr> sd_history = Some (map (applied_of (\<lambda>_. [171])) MIGRATIONS), sd_tables = tables \<rparr>)"
     "list_all (shape_ok tables) EXPECTED_V4_TABLES"
    using simple_migrate by blast
  have "validate_schema (\<lambda>_. [171]) quiet_env
      \<lparr> sd_history = Some (map (applied_of (\<lambda>_. [171])) MIGRATIONS), sd_tables = tables \<rparr> = Some (Ok ())"
    using t(2) by (simp add: validate_schema_history)
  moreover obtain opened where "job_connect L local_parser local_env (\<lambda>_. None) (\<lambda>_. None)
      ''postgresql://root@127.0.0.1:26257/defaultdb?sslmode=disable'' default_pool_config = Ok opened"
    using local_connect by blast
  ultimately show ?thesis
    using t(1) by (simp add: migrate_main_def local_job_def setting_def local_env_def local_role
        migrate_pool_config_def pool_max_connections_def default_pool_config_def)
qed

theorem grants_follow_validation_witness:
  "\<exists>db'. migrate_main example_tls local_parser (\<lambda>_. [171]) simple_ddl local_job empty_db
       = (Some (Ok ()), db', Some (grant_batch ''\"pulpitum_runtime\"''))
     \<and> validate_schema (\<lambda>_. [171]) quiet_env db' = Some (Ok ())"
proof -
  obtain db' where m: "migrate_main example_tls local_parser (\<lambda>_. [171]) simple_ddl local_job empty_db
      = (Some (Ok ()), db', Some (grant_batch ''\"pulpitum_runtime\"''))"
    using local_migrate_main by blast
  from grants_follow_validation [OF m] m show ?thesis by (simp add: local_job_def)
qed

section \<open>What the archiver guarantees\<close>

lemma seconds_Ok: "seconds env name fallback = Ok n \<Longrightarrow> 0 < n"
  by (auto simp: seconds_def and_then_eq_Inr split: if_splits)

lemma job_connect_Ok:
  assumes "job_connect L parse env files start url config = Ok opened"
  shows "cp_config (os_pool opened) = config" "start (os_pool opened) = None"
proof -
  have "cp_config (os_pool opened) = config" if c: "cockroach_connect L parse env files url config = Ok opened" for opened
  proof -
    obtain parsed where p: "parse url = Some parsed" using c by (auto simp: cockroach_connect_def and_then_eq_Inr)
    show ?thesis
      using c p by (cases "pg_ssl_mode parsed")
        (auto simp: cockroach_connect_def and_then_eq_Inr map_err_Ok connect_insecure_dev_with_pool_config_def
          connect_rustls_with_pool_config_def pool_connect_insecure_dev_def pool_connect_rustls_def
          connect_with_transport_Ok from_pool_def)
  qed
  then show "cp_config (os_pool opened) = config" "start (os_pool opened) = None"
    using assms by (auto simp: job_connect_def and_then_eq_Inr map_err_Ok split: option.splits)
qed

lemma archiver_started:
  assumes "archiver_start L parse C rfc3339 operator_new telemetry env files start now = Some (Ok a)"
  obtains lease renewal interval where
    "archival_enabled env = Ok ()" "archiver_pool_config env = Ok (cp_config (os_pool (ar_store a)))"
    "start (os_pool (ar_store a)) = None"
    "seconds env ''ARCHIVER_INTERVAL_SECONDS'' 15 = Ok interval" "ar_interval a = interval * SECOND"
    "seconds env ''ARCHIVER_LEASE_SECONDS'' 60 = Ok lease" "rc_lease_for (ar_config a) = lease * SECOND"
    "seconds env ''ARCHIVER_LEASE_RENEWAL_SECONDS'' (max (lease div 3) 1) = Ok renewal"
    "rc_lease_renewal_interval (ar_config a) = renewal * SECOND"
    "eligible_before C rfc3339 env now = Some (Ok (rc_eligible_before (ar_config a)))"
    "recovery_validate (ar_config a) = Ok ()"
  using assms
  by (auto simp: archiver_start_def Let_def and_then_eq_Inr map_err_Ok recovery_new_def job_connect_Ok
      split: sum.splits option.splits)

text \<open>C36. The archiver deletes nothing unless it was told to: a started archiver has read
  \<open>PULPITUM_ARCHIVAL_ENABLED=true\<close>, has filled a pool of at least two connections, so that a lease renewal never
  waits for archival work, renews its leases strictly more often than they expire, and sleeps and backs off
  for a positive time. Without \<open>ARCHIVER_ELIGIBLE_BEFORE\<close> it archives what lies before the first of January of
  the previous year.\<close>

theorem archiver_starts_guarded:
  assumes "archiver_start L parse C rfc3339 operator_new telemetry env files start now = Some (Ok a)"
  shows "env ''PULPITUM_ARCHIVAL_ENABLED'' = Present ''true''
    \<and> 2 \<le> pc_max_connections (cp_config (os_pool (ar_store a))) \<and> start (os_pool (ar_store a)) = None
    \<and> 0 < rc_lease_renewal_interval (ar_config a) \<and> rc_lease_renewal_interval (ar_config a) < rc_lease_for (ar_config a)
    \<and> 0 < ar_interval a \<and> 0 < rc_retry_backoff (ar_config a) \<and> 0 < rc_scan_limit (ar_config a)
    \<and> (env ''ARCHIVER_ELIGIBLE_BEFORE'' = NotPresent \<longrightarrow>
         c_with_ymd C (c_year C now - 1) 1 1 = Some (rc_eligible_before (ar_config a)))"
proof -
  obtain interval where s: "archival_enabled env = Ok ()"
    "archiver_pool_config env = Ok (cp_config (os_pool (ar_store a)))" "start (os_pool (ar_store a)) = None"
    "seconds env ''ARCHIVER_INTERVAL_SECONDS'' 15 = Ok interval" "ar_interval a = interval * SECOND"
    "eligible_before C rfc3339 env now = Some (Ok (rc_eligible_before (ar_config a)))"
    "recovery_validate (ar_config a) = Ok ()"
    using assms by (rule archiver_started)
  have "env ''PULPITUM_ARCHIVAL_ENABLED'' = Present ''true''"
    using s(1) by (cases "env ''PULPITUM_ARCHIVAL_ENABLED''")
      (auto simp: archival_enabled_def setting_def parse_bool_def split: if_splits)
  moreover have "2 \<le> pc_max_connections (cp_config (os_pool (ar_store a)))"
    using s(2) by (auto simp: archiver_pool_config_def and_then_eq_Inr dest!: sym [of "default_pool_config\<lparr>pc_max_connections := _\<rparr>"] split: if_splits)
  moreover have "0 < ar_interval a" using seconds_Ok [OF s(4)] s(5) by (simp add: SECOND_def)
  ultimately show ?thesis
    using s(3,6,7) by (auto simp: recovery_validate_def eligible_before_def split: if_splits)
qed

lemma local_archive:
  "name \<noteq> ''PULPITUM_ARCHIVAL_ENABLED'' \<Longrightarrow>
     \<exists>service store. archive_connect (\<lambda>_. Ok ()) local_env name prefix = Ok (service, store)"
proof -
  assume "name \<noteq> ''PULPITUM_ARCHIVAL_ENABLED''"
  moreover have "trim ''pulpitum'' \<noteq> []" by (subst trim_plain) (simp_all add: not_ws_ascii)
  ultimately show ?thesis
    by (simp add: archive_connect_def archive_allow_http_def archive_credentials_def archive_encryption_def
        archive_endpoint_def optional_setting_def local_endpoint_def s3_config_def S3ArchiveConfig_new_def
        starts_with_def Let_def local_env_def)
qed

lemma local_archiver:
  "\<exists>a. archiver_start L local_parser gregorian (\<lambda>_. None) (\<lambda>_. Ok ()) (\<lambda>_. Ok ()) local_env files (\<lambda>_. None)
     (greg_start 2024 3 5) = Some (Ok a)"
proof -
  have "valid_date 2024 3 5" by code_simp
  then have year: "c_year gregorian (greg_start 2024 3 5) = 2024"
    using greg_date_start [of 2024 3 5 0] by (simp add: gregorian_def DAY_def)
  have "c_with_ymd gregorian 2023 1 1 \<noteq> None" by code_simp
  with year obtain t where "eligible_before gregorian (\<lambda>_. None) local_env (greg_start 2024 3 5) = Some (Ok t)"
    by (auto simp: eligible_before_def local_env_def)
  moreover obtain opened where "job_connect L local_parser local_env files (\<lambda>_. None)
      ''postgresql://pulpitum_runtime@127.0.0.1:26257/defaultdb?sslmode=disable'' default_pool_config = Ok opened"
    using local_connect by blast
  moreover obtain service store where
    "archive_connect (\<lambda>_. Ok ()) local_env ''ARCHIVER_PREFIX'' ''showcase'' = Ok (service, store)"
    using local_archive [of "''ARCHIVER_PREFIX''" "''showcase''"] by auto
  moreover have "archiver_pool_config local_env = Ok default_pool_config" "archival_enabled local_env = Ok ()"
    "seconds local_env ''ARCHIVER_INTERVAL_SECONDS'' 15 = Ok 15" "seconds local_env ''ARCHIVER_LEASE_SECONDS'' 60 = Ok 60"
    "seconds local_env ''ARCHIVER_LEASE_RENEWAL_SECONDS'' 20 = Ok 20" "seconds local_env ''ARCHIVER_RETRY_SECONDS'' 15 = Ok 15"
    "setting local_env ''ARCHIVE_FORMAT'' ''json'' = ''json''"
    "setting local_env ''COCKROACH_URL'' url = url" for url
    by (simp_all add: archiver_pool_config_def pool_max_connections_def local_env_def default_pool_config_def
        archival_enabled_def setting_def parse_bool_def seconds_def)
  moreover have "format_from_str ''json'' = Ok Json" by code_simp
  ultimately show ?thesis
    by (simp add: archiver_start_def recovery_new_def recovery_validate_def SECOND_def)
qed

theorem archiver_starts_guarded_witness:
  "\<exists>a. archiver_start example_tls local_parser gregorian (\<lambda>_. None) (\<lambda>_. Ok ()) (\<lambda>_. Ok ()) local_env (\<lambda>_. None)
       (\<lambda>_. None) (greg_start 2024 3 5) = Some (Ok a)
     \<and> rc_lease_renewal_interval (ar_config a) < rc_lease_for (ar_config a)
     \<and> c_with_ymd gregorian (c_year gregorian (greg_start 2024 3 5) - 1) 1 1 = Some (rc_eligible_before (ar_config a))"
proof -
  obtain a where a: "archiver_start example_tls local_parser gregorian (\<lambda>_. None) (\<lambda>_. Ok ()) (\<lambda>_. Ok ()) local_env
      (\<lambda>_. None) (\<lambda>_. None) (greg_start 2024 3 5) = Some (Ok a)"
    using local_archiver by blast
  from archiver_starts_guarded [OF a] a show ?thesis by (simp add: local_env_def)
qed

text \<open>With the default renewal, the shortest lease that starts an archiver is two seconds.\<close>

lemma one_second_lease_is_rejected:
  assumes "env ''ARCHIVER_LEASE_SECONDS'' = Present ''1''" and "env ''ARCHIVER_LEASE_RENEWAL_SECONDS'' = NotPresent"
  shows "archiver_start L parse C rfc3339 operator_new telemetry env files start now \<noteq> Some (Ok a)"
proof
  assume "archiver_start L parse C rfc3339 operator_new telemetry env files start now = Some (Ok a)"
  then obtain lease renewal where s: "seconds env ''ARCHIVER_LEASE_SECONDS'' 60 = Ok lease"
    "rc_lease_for (ar_config a) = lease * SECOND"
    "seconds env ''ARCHIVER_LEASE_RENEWAL_SECONDS'' (max (lease div 3) 1) = Ok renewal"
    "rc_lease_renewal_interval (ar_config a) = renewal * SECOND" "recovery_validate (ar_config a) = Ok ()"
    by (rule archiver_started)
  have "lease = 1" using s(1) assms(1)
    by (auto simp: seconds_def parse_unsigned_def undec_def and_then_eq_Inr split: if_splits)
  then have "renewal = 1" using s(3) assms(2) by (auto simp: seconds_def and_then_eq_Inr)
  then show False using s(2,4,5) \<open>lease = 1\<close> by (simp add: recovery_validate_def split: if_splits)
qed

section \<open>What the load profile guarantees\<close>

abbreviation share :: "nat \<Rightarrow> nat \<Rightarrow> nat" where
  "share target weight \<equiv> saturating_mul target weight div 1000"

lemma shares_fit:
  "share target 250 + share target 500 + share target 2250 + share target 1000 \<le> saturating_mul target 4"
proof -
  have le: "share target w \<le> target * w div 1000" "share target w \<le> USIZE_MAX div 1000" for w
    by (simp_all add: saturating_mul_def div_le_mono)
  have "4 * (USIZE_MAX div 1000) \<le> USIZE_MAX"
    and "target * 250 div 1000 + target * 500 div 1000 + target * 2250 div 1000 + target * 1000 div 1000 \<le> target * 4"
    by simp_all
  then show ?thesis
    using le(1) [of 250] le(1) [of 500] le(1) [of 2250] le(1) [of 1000]
      le(2) [of 250] le(2) [of 500] le(2) [of 2250] le(2) [of 1000]
    unfolding saturating_mul_def [of target 4] by linarith
qed

lemma SHAPE_PERMILLE_values:
  "length SHAPE_PERMILLE = 4" "SHAPE_PERMILLE ! 0 = 250" "SHAPE_PERMILLE ! 1 = 500" "SHAPE_PERMILLE ! 2 = 2250"
  "SHAPE_PERMILLE ! 3 = 1000"
  by (simp_all add: SHAPE_PERMILLE_def)

lemma operations_cases:
  "operations_for_second target second =
     (if second mod 4 = 0 then share target 250 else if second mod 4 = 1 then share target 500
      else if second mod 4 = 3 then share target 1000
      else saturating_mul target 4 - (share target 250 + share target 500 + share target 1000))"
proof -
  have sum: "sum_list (map (share target) SHAPE_PERMILLE)
      = share target 250 + share target 500 + share target 2250 + share target 1000"
    by (simp add: SHAPE_PERMILLE_def)
  consider "second mod 4 = 0" | "second mod 4 = 1" | "second mod 4 = 2" | "second mod 4 = 3" by linarith
  then show ?thesis
    by cases (use shares_fit [of target] in
      \<open>simp_all add: operations_for_second_def SHAPE_PERMILLE_values [simplified] Let_def saturating_sub_def sum add.assoc\<close>)
qed

lemma sum_four: "(\<Sum>i < (4 :: nat). f i) = f 0 + f 1 + f 2 + (f 3 :: nat)"
  by (simp add: eval_nat_numeral)

lemma operations_cycle: "(\<Sum>i < 4. operations_for_second target (second + i)) = saturating_mul target 4"
proof -
  have later: "(second + 1) mod 4 = (second mod 4 + 1) mod 4" "(second + 2) mod 4 = (second mod 4 + 2) mod 4"
    "(second + 3) mod 4 = (second mod 4 + 3) mod 4"
    by presburger+
  consider "second mod 4 = 0" | "second mod 4 = 1" | "second mod 4 = 2" | "second mod 4 = 3" by linarith
  then show ?thesis
    unfolding sum_four operations_cases later
    by cases (use shares_fit [of target] in \<open>simp_all\<close>)
qed

text \<open>The load profile keeps its average: over any four consecutive seconds it offers four times the target
  in total, saturating at the largest \<open>usize\<close>, so that neither the sum nor a single interval overflows; and a
  profile is never idle.\<close>

theorem load_profile_average:
  "(\<Sum>i < 4. operations_for_second target (second + i)) = min (4 * target) USIZE_MAX
   \<and> operations_for_second target second \<le> USIZE_MAX
   \<and> 0 < (\<Sum>i < 4. operations_for_second (load_profile_new target) (second + i))"
proof -
  have total: "(\<Sum>i < 4. operations_for_second t (second + i)) = min (4 * t) USIZE_MAX" for t
    by (simp add: operations_cycle saturating_mul_def mult.commute)
  have "operations_for_second target second \<le> (\<Sum>i < 4. operations_for_second target (second + i))"
    by (simp add: sum_four)
  then show ?thesis
    unfolding total by (simp add: load_profile_new_def DEFAULT_TARGET_RPS_def USIZE_MAX_def)
qed

end
