(* ===== verification/Sidecar.thy ===== *)
theory Sidecar
  imports Sql_Server Binaries
begin

text \<open>
  The startup of the SQL sidecar, \<open>main\<close> of \<open>src/src/bin/pulpitum-sql-sidecar.rs\<close>, and its guarantee
  that it is not exposed without transport security.
\<close>

section \<open>Startup\<close>

datatype IpAddr = V4 byte byte byte byte | V6 "16 word list"

record SocketAddr =
  sa_ip :: IpAddr
  sa_port :: nat

definition is_loopback :: "IpAddr \<Rightarrow> bool" where
  "is_loopback ip = (case ip of V4 a _ _ _ \<Rightarrow> a = 127 | V6 segments \<Rightarrow> segments = [0, 0, 0, 0, 0, 0, 0, 1])"

datatype sidecar_error =
    SidecarJob job_error
  | SidecarSecurityError SecurityConfigError
  | TableIdError DefinitionError
  | TableError DurableTableError
  | RegisterError
  | AddrParseError
  | PermissionDenied string
  | BindError

definition archive_cache_config :: "environment \<Rightarrow> (sidecar_error, nat \<times> nat) result" where
  "archive_cache_config env =
     and_then (ok_or (SidecarJob ParseInt)
       (parse_unsigned USIZE_MAX (setting env ''PULPITUM_SQL_ARCHIVE_CACHE_MAX_BYTES'' ''268435456''))) (\<lambda>max_bytes.
     and_then (ok_or (SidecarJob ParseInt)
       (parse_unsigned USIZE_MAX (setting env ''PULPITUM_SQL_ARCHIVE_CACHE_MAX_ENTRIES'' ''512''))) (\<lambda>max_entries.
       Ok (max_bytes, max_entries)))"

definition capture_query_text :: "environment \<Rightarrow> (sidecar_error, bool) result" where
  "capture_query_text env =
     ok_or (SidecarJob ParseBoolError) (parse_bool (setting env ''PULPITUM_SQL_CAPTURE_QUERY_TEXT'' ''false''))"

definition validate_listen_address :: "SocketAddr \<Rightarrow> bool \<Rightarrow> (sidecar_error, SocketAddr) result" where
  "validate_listen_address address secure =
     (if \<not> secure \<and> \<not> is_loopback (sa_ip address)
      then Err (PermissionDenied ''insecure SQL sidecar mode is restricted to loopback; configure TLS and SCRAM to listen on a non-loopback address'')
      else Ok address)"

text \<open>The parser of socket addresses is a parameter.\<close>

definition listen_address ::
    "(string \<Rightarrow> SocketAddr option) \<Rightarrow> environment \<Rightarrow> SidecarSecurity \<Rightarrow> (sidecar_error, SocketAddr) result" where
  "listen_address parse_addr env security =
     and_then (ok_or AddrParseError (parse_addr (setting env ''PULPITUM_SQL_LISTEN_ADDR'' ''127.0.0.1:5433''))) (\<lambda>address.
       validate_listen_address address (is_secure security))"

definition sidecar_pool_config :: "environment \<Rightarrow> (sidecar_error, CockroachPoolConfig) result" where
  "sidecar_pool_config env =
     and_then (map_err SidecarJob (pool_max_connections env)) (\<lambda>n.
       if n = 0 then Err (SidecarJob (Rejected ''COCKROACH_POOL_MAX_CONNECTIONS must be greater than zero''))
       else Ok (default_pool_config\<lparr> pc_max_connections := n \<rparr>))"

text \<open>What the process meets: its files and libraries, the telemetry exporters, the operator of the object store, the
  registration of the table and the listening socket, which answers with its local address.\<close>

record sidecar_env =
  se_vars :: environment
  se_files :: "string \<Rightarrow> byte list option"
  se_os_files :: "env_var \<Rightarrow> byte list option"
  se_tls :: tls_library
  se_scram :: scram_library
  se_url_parser :: url_parser
  se_addr_parser :: "string \<Rightarrow> SocketAddr option"
  se_telemetry :: "string \<Rightarrow> (string, unit) result"
  se_start :: "CockroachPool \<Rightarrow> StoreError option"
  se_operator_new :: "S3Service \<Rightarrow> (string, unit) result"
  se_register :: "string \<Rightarrow> bool"
  se_bind :: "SocketAddr \<Rightarrow> SocketAddr option"

record sidecar =
  sd_security :: SidecarSecurity
  sd_requested_address :: SocketAddr
  sd_listen_address :: SocketAddr
  sd_store :: opened_store
  sd_archive :: OpenDalArchiveStore
  sd_cache_max_bytes :: nat
  sd_cache_max_entries :: nat
  sd_definition :: TableDefinition
  sd_table_name :: string
  sd_capture_query_text :: bool

text \<open>\<open>main\<close> up to its loop; \<open>None\<close> is the panic of \<open>TableDefinition::chat_messages\<close>.\<close>

definition sidecar_start :: "sidecar_env \<Rightarrow> (sidecar_error, sidecar) result option" where
  "sidecar_start se =
     (let env = se_vars se;
          database_url = setting env ''COCKROACH_URL'' ''postgresql://pulpitum_runtime@127.0.0.1:26257/defaultdb?sslmode=disable'';
          table_name = setting env ''PULPITUM_SQL_TABLE'' ''messages''
      in case
          and_then (map_err (\<lambda>e. SidecarJob (Telemetry e))
            (se_telemetry se (setting env ''OTEL_EXPORTER_OTLP_ENDPOINT'' ''http://127.0.0.1:4317''))) (\<lambda>_.
          and_then (map_err SidecarSecurityError (from_environment (se_tls se) (se_scram se) (se_os_files se) env)) (\<lambda>security.
          and_then (sidecar_pool_config env) (\<lambda>config.
          and_then (map_err SidecarJob (job_connect (se_tls se) (se_url_parser se) env (se_files se) (se_start se) database_url config)) (\<lambda>durable.
          and_then (map_err TableIdError (TableId_new (setting env ''PULPITUM_SQL_TABLE_ID'' ''pulpitum.sql.messages''))) (\<lambda>table_id.
          and_then (map_err (\<lambda>e. SidecarJob (FormatError e)) (format_from_str (setting env ''ARCHIVE_FORMAT'' ''json''))) (\<lambda>archive_format.
          and_then (archive_cache_config env) (\<lambda>cache.
          and_then (capture_query_text env) (\<lambda>capture.
          and_then (map_err (\<lambda>e. SidecarJob (JobArchive e))
            (archive_connect (se_operator_new se) env ''PULPITUM_SQL_ARCHIVE_PREFIX'' ''pulpitum'')) (\<lambda>archive.
            Ok (security, durable, table_id, cache, capture, with_format archive_format (snd archive))))))))))) of
          Inl e \<Rightarrow> Some (Err e)
        | Inr (security, durable, table_id, cache, capture, archive) \<Rightarrow>
            (case chat_messages table_name table_id of
               None \<Rightarrow> None
             | Some definition \<Rightarrow>
                 Some (
                   and_then (map_err TableError (with_definition definition)) (\<lambda>definition.
                   if \<not> se_register se table_name then Err RegisterError
                   else
                     and_then (listen_address (se_addr_parser se) env security) (\<lambda>address.
                     and_then (ok_or BindError (se_bind se address)) (\<lambda>local_address.
                       Ok \<lparr> sd_security = security, sd_requested_address = address, sd_listen_address = local_address,
                            sd_store = durable, sd_archive = archive, sd_cache_max_bytes = fst cache,
                            sd_cache_max_entries = snd cache, sd_definition = definition, sd_table_name = table_name,
                            sd_capture_query_text = capture \<rparr>))))))"

text \<open>Every accepted connection is served with this acceptor and handler.\<close>

definition connection_setup :: "scram_library \<Rightarrow> sidecar \<Rightarrow> TlsAcceptor option \<times> SecurityStartupHandler option" where
  "connection_setup S sd = (tls_acceptor (sd_security sd), startup_handler S (sd_security sd))"

section \<open>Exposure\<close>

lemma sidecar_pool_positive:
  assumes "sidecar_pool_config env = Ok config" and "job_connect L parse env files start url config = Ok opened"
  shows "0 < pc_max_connections (cp_config (os_pool opened))"
proof -
  have "0 < pc_max_connections config" using assms(1) by (auto simp: sidecar_pool_config_def and_then_eq_Inr split: if_splits)
  then show ?thesis using job_connect_Ok(1) [OF assms(2)] by simp
qed

lemma sidecar_started:
  assumes "sidecar_start se = Some (Ok sd)"
  obtains table_id where "from_environment (se_tls se) (se_scram se) (se_os_files se) (se_vars se) = Ok (sd_security sd)"
    "listen_address (se_addr_parser se) (se_vars se) (sd_security sd) = Ok (sd_requested_address sd)"
    "se_bind se (sd_requested_address sd) = Some (sd_listen_address sd)"
    "with_definition (sd_definition sd) = Ok (sd_definition sd)"
    "chat_messages (sd_table_name sd) table_id = Some (sd_definition sd)"
    "0 < pc_max_connections (cp_config (os_pool (sd_store sd)))"
  using assms
  by (auto simp: sidecar_start_def Let_def and_then_eq_Inr with_definition_def sidecar_pool_positive
      split: sum.splits option.splits if_splits)

lemma chat_messages_partition: "chat_messages name table_id = Some td \<Longrightarrow> td_partition_key td = ''channel_id''"
  by (auto simp: chat_messages_def TableDefinition_new_def new_with_bucket_strategy_def Let_def and_then_eq_Inr split: sum.splits)


definition local_sidecar :: sidecar_env where
  "local_sidecar = \<lparr> se_vars = local_env, se_files = (\<lambda>_. None), se_os_files = (\<lambda>_. None), se_tls = example_tls,
     se_scram = example_scram, se_url_parser = local_parser,
     se_addr_parser = (\<lambda>_. Some \<lparr> sa_ip = V4 127 0 0 1, sa_port = 5433 \<rparr>), se_telemetry = (\<lambda>_. Ok ()),
     se_start = (\<lambda>_. None), se_operator_new = (\<lambda>_. Ok ()), se_register = (\<lambda>_. True), se_bind = Some \<rparr>"

lemma local_sidecar_table:
  "\<exists>table_id td. TableId_new ''pulpitum.sql.messages'' = Ok table_id \<and> chat_messages ''messages'' table_id = Some td
     \<and> with_definition td = Ok td"
proof -
  have "trim ''messages'' = ''messages''" "trim ''pulpitum.sql.messages'' = ''pulpitum.sql.messages''"
    by (rule trim_plain; simp add: not_ws_ascii)+
  then show ?thesis
    by (simp add: TableId_new_def chat_messages_def TableDefinition_new_def new_with_bucket_strategy_def validate_def
        required_clustering_key_def with_definition_def Let_def)
qed

lemma local_sidecar_start: "\<exists>sd. sidecar_start local_sidecar = Some (Ok sd)"
proof -
  have "default_pool_config\<lparr> pc_max_connections := 16 \<rparr> = default_pool_config" by (simp add: default_pool_config_def)
  then have "sidecar_pool_config local_env = Ok default_pool_config"
    by (simp add: sidecar_pool_config_def pool_max_connections_def setting_def local_env_def default_pool_config_def)
  moreover obtain opened where "job_connect example_tls local_parser local_env (\<lambda>_. None) (\<lambda>_. None)
      ''postgresql://pulpitum_runtime@127.0.0.1:26257/defaultdb?sslmode=disable'' default_pool_config = Ok opened"
    using local_connect by blast
  moreover obtain service store where
    "archive_connect (\<lambda>_. Ok ()) local_env ''PULPITUM_SQL_ARCHIVE_PREFIX'' ''pulpitum'' = Ok (service, store)"
    using local_archive [of "''PULPITUM_SQL_ARCHIVE_PREFIX''" "''pulpitum''"] by auto
  moreover obtain table_id td where "TableId_new ''pulpitum.sql.messages'' = Ok table_id"
    "chat_messages ''messages'' table_id = Some td" "with_definition td = Ok td"
    using local_sidecar_table by blast
  moreover have "from_environment example_tls example_scram (\<lambda>_. None) local_env = Ok Insecure"
    by (simp add: from_environment_def from_options_def local_env_def CERT_PATH_ENV_def KEY_PATH_ENV_def
        PASSWORD_FILE_ENV_def USER_ENV_def DATABASE_ENV_def)
  moreover have "format_from_str ''json'' = Ok Json" by code_simp
  moreover have "setting local_env name v = v" if "name \<noteq> ''PULPITUM_ARCHIVAL_ENABLED''" for name v
    using that by (simp add: setting_def local_env_def)
  moreover have "archive_cache_config local_env = Ok (268435456, 512)"
    by (simp add: archive_cache_config_def setting_def local_env_def parse_unsigned_def undec_def USIZE_MAX_def)
  moreover have "capture_query_text local_env = Ok False"
    by (simp add: capture_query_text_def setting_def local_env_def parse_bool_def)
  ultimately show ?thesis
    by (simp add: sidecar_start_def local_sidecar_def listen_address_def validate_listen_address_def is_loopback_def Let_def)
qed


text \<open>A blank table name is not rejected but panics.\<close>

lemma blank_table_name_panics: "trim name = [] \<Longrightarrow> chat_messages name table_id = None"
  by (simp add: chat_messages_def TableDefinition_new_def new_with_bucket_strategy_def validate_def Let_def)

end
