(* ===== verification/Sql_Requests.thy ===== *)
theory Sql_Requests
  imports Sql_Server
begin

text \<open>
  What the statements of the sidecar mean: literals and placeholders are read as they are written, bound parameters
  have the types that were announced, an \<open>INSERT\<close> appends exactly its row, and nothing else writes.
\<close>

section \<open>Literals\<close>

definition lower_hex :: "nat \<Rightarrow> char" where
  "lower_hex n = (if n < 10 then char_of (48 + n) else char_of (87 + n))"

definition hex_text :: "byte list \<Rightarrow> string" where
  "hex_text bytes = concat (map (\<lambda>b. [lower_hex (unat b div 16), lower_hex (unat b mod 16)]) bytes)"

lemma lower_hex_digit:
  assumes "n < 16"
  shows "hex_digit (lower_hex n) = Some n" "lower_hex n \<noteq> CHR ''+''" "(of_char (lower_hex n) :: nat) < 128"
proof -
  have v: "(of_char (lower_hex n) :: nat) = (if n < 10 then 48 + n else 87 + n)" using assms by (simp add: lower_hex_def)
  then show "hex_digit (lower_hex n) = Some n" "(of_char (lower_hex n) :: nat) < 128" using assms by (auto simp: hex_digit_def Let_def)
  show "lower_hex n \<noteq> CHR ''+''"
  proof
    assume "lower_hex n = CHR ''+''"
    then have "(of_char (lower_hex n) :: nat) = 43" by simp
    then show False using v by (simp split: if_splits)
  qed
qed

lemma hex_pair_byte: "hex_pair (lower_hex (unat b div 16)) (lower_hex (unat b mod 16)) = Some b"
proof -
  have "unat b < 256" using unsigned_less [of b] by simp
  then have "unat b div 16 < 16" by simp
  then show ?thesis using lower_hex_digit [of "unat b div 16"] lower_hex_digit [of "unat b mod 16"] by (simp add: hex_pair_def)
qed

lemma hex_text_plain: "\<not> cuts_character (hex_text bytes)"
proof (cases bytes)
  case (Cons b bs)
  have "unat b < 256" using unsigned_less [of b] by simp
  then have "unat b div 16 < 16" by simp
  then show ?thesis using Cons lower_hex_digit(3) [of "unat b div 16"] by (simp add: hex_text_def cuts_character_def)
qed (simp add: hex_text_def cuts_character_def)

lemma hex_bytes_text: "hex_bytes (hex_text bytes) = Some (Ok bytes)"
proof (induction bytes)
  case (Cons b bs)
  have "hex_text (b # bs) = lower_hex (unat b div 16) # lower_hex (unat b mod 16) # hex_text bs" by (simp add: hex_text_def)
  then show ?case using Cons hex_text_plain [of "b # bs"] hex_text_plain [of bs] hex_pair_byte [of b] by simp
qed (simp add: hex_text_def)

text \<open>The hexadecimal literal of any byte string is read back as these bytes, and any other string literal stands for
  its own bytes.\<close>

lemma bytea_literal_hex: "bytea_literal (ValueExpr (StringValue ([CHR 0x5C, CHR ''x''] @ hex_text bytes))) = Some (Ok bytes)"
proof -
  have "length (hex_text bytes) mod 2 = 0" by (induction bytes) (simp_all add: hex_text_def)
  then show ?thesis
    by (simp add: bytea_literal_def sql_string_literal_def into_string_def hex_bytes_text starts_with_def Let_def)
qed

lemma bytea_literal_plain:
  "\<not> starts_with [CHR 0x5C, CHR ''x''] s \<Longrightarrow> bytea_literal (ValueExpr (StringValue s)) = Some (Ok (str_bytes s))"
  by (simp add: bytea_literal_def sql_string_literal_def into_string_def)

text \<open>Two deviations: a sign is taken for a digit, and a character that straddles two pairs panics.\<close>

lemma bytea_deviations:
  "bytea_literal (ValueExpr (StringValue [CHR 0x5C, CHR ''x'', CHR ''+'', CHR ''5''])) = Some (Ok [5])"
  "bytea_literal (ValueExpr (StringValue [CHR 0x5C, CHR ''x'', CHR ''a'', CHR 0xC3, CHR 0xA9, CHR ''1''])) = None"
  by (simp_all add: bytea_literal_def sql_string_literal_def into_string_def starts_with_def hex_pair_def hex_digit_def
      cuts_character_def Let_def)

section \<open>Placeholders\<close>

text \<open>A statement as a sequence of plain text, string literals and parameters.\<close>

datatype sql_piece = Plain string | Quoted string | Param nat

fun double_quotes :: "string \<Rightarrow> string" where
  "double_quotes [] = []"
| "double_quotes (c # s) = (if c = CHR 0x27 then [CHR 0x27, CHR 0x27] else [c]) @ double_quotes s"

fun render :: "sql_piece \<Rightarrow> string" where
  "render (Plain s) = s"
| "render (Quoted s) = [CHR 0x27] @ double_quotes s @ [CHR 0x27]"
| "render (Param n) = CHR ''$'' # dec n"

fun well_formed :: "sql_piece list \<Rightarrow> bool" where
  "well_formed [] = True"
| "well_formed (Plain s # ps) \<longleftrightarrow> CHR 0x27 \<notin> set s \<and> CHR ''$'' \<notin> set s \<and> well_formed ps"
| "well_formed (Quoted s # ps) \<longleftrightarrow> well_formed ps"
| "well_formed (Param n # ps) \<longleftrightarrow> 0 < n \<and> n \<le> USIZE_MAX
     \<and> (case concat (map render ps) of [] \<Rightarrow> True | c # _ \<Rightarrow> \<not> is_digit c) \<and> well_formed ps"

fun parameters :: "sql_piece list \<Rightarrow> nat list" where
  "parameters [] = []"
| "parameters (Param n # ps) = n # parameters ps"
| "parameters (p # ps) = parameters ps"

lemma placeholders_plain:
  "CHR 0x27 \<notin> set s \<Longrightarrow> CHR ''$'' \<notin> set s \<Longrightarrow> placeholders False (s @ rest) = placeholders False rest"
  by (induction s) auto

lemma placeholders_close: "placeholders True (CHR 0x27 # rest) = placeholders False rest"
  by (cases rest) auto

lemma placeholders_quoted: "placeholders True (double_quotes s @ CHR 0x27 # rest) = placeholders False rest"
  by (induction s) (auto simp: placeholders_close simp del: placeholders.simps(2), simp_all)

lemma dec_is_digit: "c \<in> set (dec n) \<Longrightarrow> is_digit c"
  using set_dec [of n] by (auto simp: is_digit_def digit_def)

lemma positive_index_dec: "0 < n \<Longrightarrow> n \<le> USIZE_MAX \<Longrightarrow> positive_index (dec n) = Some n"
proof -
  assume n: "0 < n" "n \<le> USIZE_MAX"
  have "list_all (\<lambda>c. 48 \<le> (of_char c :: nat) \<and> of_char c \<le> (57 :: nat)) (dec n)"
    using dec_is_digit [of _ n] by (auto simp: list_all_iff is_digit_def)
  moreover have "hd (dec n) \<noteq> CHR ''+''"
    using dec_is_digit [of "hd (dec n)" n] by (auto simp: is_digit_def)
  ultimately show ?thesis
    using n by (cases "dec n") (auto simp: positive_index_def parse_unsigned_def undec_dec [of n] Let_def dest: sym split: if_splits)
qed

lemma placeholders_param:
  assumes "0 < n" and "n \<le> USIZE_MAX" and "case rest of [] \<Rightarrow> True | c # _ \<Rightarrow> \<not> is_digit c"
  shows "placeholders False (CHR ''$'' # dec n @ rest) = and_then (placeholders False rest) (\<lambda>indices. Ok (n # indices))"
proof -
  have "takeWhile is_digit (dec n @ rest) = dec n" "dropWhile is_digit (dec n @ rest) = rest"
    using assms(3) dec_is_digit by (cases rest; force simp: takeWhile_append dropWhile_append)+
  then show ?thesis using positive_index_dec [OF assms(1,2)] by simp
qed

lemma placeholders_pieces: "well_formed ps \<Longrightarrow> placeholders False (concat (map render ps)) = Ok (parameters ps)"
proof (induction ps rule: well_formed.induct)
  case (3 s ps)
  then show ?case using placeholders_quoted [of s "concat (map render ps)"] by simp
next
  case (4 n ps)
  then show ?case using placeholders_param [of n "concat (map render ps)"] by simp
qed (simp_all add: placeholders_plain)

text \<open>Placeholders are found where they are: in a statement composed of text, string literals and parameters, the
  parameters are recognised in order whatever the literals contain; the statement is accepted when they are
  \<open>$1\<close> to \<open>$n\<close> with \<open>n\<close> at most four, and has then the types of the first \<open>n\<close> parameters.\<close>

theorem placeholders_are_found:
  assumes "well_formed ps"
  shows "placeholder_indices (concat (map render ps)) = Ok (parameters ps)
    \<and> (set (parameters ps) = {1 .. n} \<and> n \<le> 4 \<longrightarrow>
         read_parameter_types (concat (map render ps)) = Ok (take n [TEXT, TIMESTAMPTZ, TIMESTAMPTZ, INT8]))"
proof -
  have "Max (insert 0 {1 .. n}) = n" by (cases n) (auto intro!: Max_eqI)
  then show ?thesis
    using placeholders_pieces [OF assms]
    by (auto simp: placeholder_indices_def read_parameter_types_def parameter_types_from_indices_def Let_def list_all_iff)
qed

definition example_pieces :: "sql_piece list" where
  "example_pieces = [Plain ''SELECT '', Quoted [CHR ''$'', CHR ''9'', CHR 0x27], Plain '' WHERE channel_id = '', Param 1,
     Plain '' AND timestamp >= '', Param 2]"

theorem placeholders_are_found_witness:
  "placeholder_indices (concat (map render example_pieces)) = Ok [1, 2]
   \<and> read_parameter_types (concat (map render example_pieces)) = Ok [TEXT, TIMESTAMPTZ]"
proof -
  have "well_formed example_pieces" by (simp add: example_pieces_def is_digit_def USIZE_MAX_def)
  from placeholders_are_found [OF this, of 2] show ?thesis by (auto simp: example_pieces_def)
qed

text \<open>A dollar sign in a comment or in a quoted identifier is taken for a parameter.\<close>

lemma dollar_outside_literals:
  "placeholder_indices ''SELECT 1 -- costs $'' = Err ''SQL parameters must use positional $n placeholders''"
  by (simp add: placeholder_indices_def query_error_def)

section \<open>Bound parameters\<close>

lemma placeholder_index_positive: "placeholder_index e = Ok (Some i) \<Longrightarrow> 0 < i"
  by (auto simp: placeholder_index_def positive_index_def split: SqlExpr.splits SqlValue.splits option.splits list.splits if_splits)

lemma column_types_Cons:
  assumes "column_types vs ((c, p) # cols) types = Ok types'"
  obtains more where "column_types vs cols more = Ok types'"
    and "more = types \<or> (\<exists>i. more = (i, p) # types \<and> map_of types i = None \<and> placeholder_index (column_of vs c) = Ok (Some i))"
    and "\<And>i. placeholder_index (column_of vs c) = Ok (Some i) \<Longrightarrow> map_of more i = Some p"
proof -
  obtain index where index: "placeholder_index (column_of vs c) = Ok index"
    using assms by (cases "placeholder_index (column_of vs c)") auto
  show ?thesis
  proof (cases index)
    case None
    then show ?thesis using assms index that [of types] by simp
  next
    case (Some i)
    then show ?thesis
      using assms index that [of types] that [of "(i, p) # types"] by (cases "map_of types i") (auto split: if_splits)
  qed
qed

lemma column_types_keep: "column_types vs cols types = Ok types' \<Longrightarrow> map_of types i = Some t \<Longrightarrow> map_of types' i = Some t"
proof (induction cols arbitrary: types)
  case (Cons col cols)
  then obtain c p where "column_types vs ((c, p) # cols) types = Ok types'" by (cases col) auto
  then obtain more where more: "column_types vs cols more = Ok types'"
    "more = types \<or> (\<exists>i. more = (i, p) # types \<and> map_of types i = None)"
    by (rule column_types_Cons) blast
  then have "map_of more i = Some t" using Cons.prems(2) by auto
  then show ?case by (rule Cons.IH [OF more(1)])
qed auto

lemma column_types_assign:
  "column_types vs cols types = Ok types' \<Longrightarrow> (c, t) \<in> set cols \<Longrightarrow> placeholder_index (column_of vs c) = Ok (Some i)
   \<Longrightarrow> map_of types' i = Some t"
proof (induction cols arbitrary: types)
  case (Cons col cols)
  obtain d p where col: "col = (d, p)" by fastforce
  with Cons.prems(1) obtain more where "column_types vs cols more = Ok types'"
    "\<And>i. placeholder_index (column_of vs d) = Ok (Some i) \<Longrightarrow> map_of more i = Some p"
    using column_types_Cons by blast
  then show ?case using Cons.IH [of more] Cons.prems(2,3) col column_types_keep [of vs cols more types'] by auto
qed auto

lemma column_types_used:
  "column_types vs cols types = Ok types' \<Longrightarrow> map_of types' i = Some t \<Longrightarrow> map_of types i \<noteq> Some t \<Longrightarrow>
     \<exists>c. (c, t) \<in> set cols \<and> placeholder_index (column_of vs c) = Ok (Some i)"
proof (induction cols arbitrary: types)
  case (Cons col cols)
  obtain d p where col: "col = (d, p)" by fastforce
  with Cons.prems(1) obtain more where more: "column_types vs cols more = Ok types'"
    "more = types \<or> (\<exists>i. more = (i, p) # types \<and> map_of types i = None \<and> placeholder_index (column_of vs d) = Ok (Some i))"
    using column_types_Cons by blast
  show ?case
  proof (cases "map_of more i = Some t")
    case True
    then have "t = p" "placeholder_index (column_of vs d) = Ok (Some i)" using more(2) Cons.prems(3) by (auto split: if_splits)
    then show ?thesis using col by auto
  next
    case False
    then show ?thesis using Cons.IH [OF more(1) Cons.prems(2)] by (meson list.set_intros(2))
  qed
qed auto

lemma consecutive_types:
  assumes "collect_results (map (\<lambda>i. ok_or e (map_of types i)) [1 ..< Max (insert 0 (set (map fst types))) + 1]) = Ok ts"
  shows "map_of types i = Some t \<Longrightarrow> 0 < i \<Longrightarrow> i \<le> length ts \<and> ts ! (i - 1) = t" "k < length ts \<Longrightarrow> map_of types (k + 1) = Some (ts ! k)"
proof -
  let ?h = "Max (insert 0 (set (map fst types)))"
  have eq: "map (\<lambda>i. ok_or e (map_of types i)) [1 ..< ?h + 1] = map Inr ts" using assms by (simp add: collect_results_Inr)
  then have len: "length ts = ?h" by (metis add_diff_cancel_right' length_map length_upt)
  have at: "map_of types (k + 1) = Some (ts ! k)" if "k < length ts" for k
  proof -
    have "map (\<lambda>i. ok_or e (map_of types i)) [1 ..< ?h + 1] ! k = map Inr ts ! k" by (simp only: eq)
    then show ?thesis using that len by (simp del: upt_Suc)
  qed
  then show "k < length ts \<Longrightarrow> map_of types (k + 1) = Some (ts ! k)" .
  assume i: "map_of types i = Some t" "0 < i"
  then have "i \<in> set (map fst types)" by (force dest: map_of_SomeD)
  then have "i \<le> length ts" unfolding len by (intro Max_ge) auto
  then show "i \<le> length ts \<and> ts ! (i - 1) = t" using at [of "i - 1"] i by simp
qed

text \<open>C39. Bound parameters have the types that were announced: when the parameters of an \<open>INSERT\<close> are typed, every
  placeholder is one of them and has the type of each column it stands for, and every announced parameter is
  used by a column.\<close>

theorem bound_parameters_are_typed:
  assumes "insert_parameter_types vs = Ok types"
  shows "((column, t) \<in> set INSERT_TYPES \<and> placeholder_index (column_of vs column) = Ok (Some i)
       \<longrightarrow> 0 < i \<and> i \<le> length types \<and> types ! (i - 1) = t)
    \<and> (k < length types \<longrightarrow> (\<exists>c. (c, types ! k) \<in> set INSERT_TYPES \<and> placeholder_index (column_of vs c) = Ok (Some (k + 1))))"
proof -
  from assms obtain m where m: "column_types vs INSERT_TYPES [] = Ok m"
    "collect_results (map (\<lambda>index. ok_or (query_error ''SQL parameters must be consecutively numbered'') (map_of m index))
       [1 ..< Max (insert 0 (set (map fst m))) + 1]) = Ok types"
    by (auto simp: insert_parameter_types_def and_then_eq_Inr Let_def simp del: upt_Suc)
  note types = consecutive_types [OF m(2)]
  show ?thesis
    using types(1) [OF column_types_assign [OF m(1)], of column t i] placeholder_index_positive [of "column_of vs column" i]
      column_types_used [OF m(1) types(2), of k] by auto
qed

definition example_values :: insert_values where
  "example_values = [(''channel_id'', ValueExpr (Placeholder ''$2'')), (''timestamp'', ValueExpr (Placeholder ''$1'')),
     (''id'', ValueExpr (Placeholder ''$2'')), (''value'', ValueExpr (StringValue ''hello''))]"

theorem bound_parameters_are_typed_witness:
  "insert_parameter_types example_values = Ok [TIMESTAMPTZ, TEXT]
   \<and> (\<exists>c. (c, TIMESTAMPTZ) \<in> set INSERT_TYPES \<and> placeholder_index (column_of example_values c) = Ok (Some 1))"
proof -
  have "positive_index ''1'' = Some 1" "positive_index ''2'' = Some 2"
    by (simp_all add: positive_index_def parse_unsigned_def undec_def USIZE_MAX_def Let_def)
  then have t: "insert_parameter_types example_values = Ok [TIMESTAMPTZ, TEXT]"
    by (simp add: insert_parameter_types_def INSERT_TYPES_def example_values_def column_of_def placeholder_index_def Let_def
        eval_nat_numeral)
  from bound_parameters_are_typed [OF t, of "''id''" TEXT 2 0] t show ?thesis by simp
qed

section \<open>Requests\<close>

lemma collect_columns_distinct:
  "distinct (map fst vs @ map (\<lambda>(c, _). to_ascii_lowercase c) xs) \<Longrightarrow>
     collect_columns xs vs = Ok (vs @ map (\<lambda>(c, e). (to_ascii_lowercase c, e)) xs)"
proof (induction xs arbitrary: vs)
  case (Cons x xs)
  obtain c e where x: "x = (c, e)" by fastforce
  then have "to_ascii_lowercase c \<notin> fst ` set vs" using Cons.prems by auto
  then have "map_of vs (to_ascii_lowercase c) = None" by (simp add: map_of_eq_None_iff)
  moreover have "collect_columns xs (vs @ [(to_ascii_lowercase c, e)])
      = Ok ((vs @ [(to_ascii_lowercase c, e)]) @ map (\<lambda>(c, e). (to_ascii_lowercase c, e)) xs)"
    by (rule Cons.IH) (use Cons.prems x in auto)
  ultimately show ?case using x by (simp add: Let_def del: not_None_eq)
qed simp

lemma list_length_cases:
  obtains (Empty) "xs = []" | (Single) x where "xs = [x]" | (More) x y ys where "xs = x # y # ys"
  by (metis neq_Nil_conv)

lemma single_row_elim:
  assumes "(case rows of [] \<Rightarrow> Err e | [row] \<Rightarrow> f row | row # row' # others \<Rightarrow> Err e) = Ok v"
  obtains row where "rows = [row]" "f row = Ok v"
  using assms by (cases rule: list_length_cases [of rows]) auto

lemma values_elim:
  assumes "(case body of Values rows \<Rightarrow> f rows | OtherSetExpr _ \<Rightarrow> Err e) = Ok v"
  obtains rows where "body = Values rows" "f rows = Ok v"
  using assms by (cases body) auto

lemma parse_insert_values_columns:
  assumes "parse_insert_values parse statement expected = Ok vs" and "column \<in> set MESSAGE_COLUMNS"
  shows "map_of vs column = Some (column_of vs column)"
proof -
  have "list_all (\<lambda>column. map_of vs column \<noteq> None) MESSAGE_COLUMNS"
    using assms(1) unfolding parse_insert_values_def
    by (auto simp: and_then_eq_Inr simp del: not_None_eq elim!: values_elim single_row_elim split: if_split_asm)
  with assms(2) show ?thesis by (auto simp: list_all_iff column_of_def)
qed

lemma parse_insert_values_Ok:
  assumes "parse statement = Some [InsertStatement ins]" and "\<not> unsupported_clauses (in_clauses ins)"
    and "in_table ins = TableName name" and "eq_ignore_ascii_case name expected"
    and "in_source ins = Some source" and "\<not> unsupported_source source" and "qu_body source = Values [exprs]"
    and "length exprs = 4" and "mset (map to_ascii_lowercase (in_columns ins)) = mset MESSAGE_COLUMNS"
  shows "parse_insert_values parse statement expected = Ok (zip (map to_ascii_lowercase (in_columns ins)) exprs)"
proof -
  let ?cols = "map to_ascii_lowercase (in_columns ins)"
  have "distinct MESSAGE_COLUMNS" by (simp add: MESSAGE_COLUMNS_def)
  then have d: "distinct ?cols" using assms(9) mset_eq_imp_distinct_iff by blast
  have len: "length (in_columns ins) = 4" using mset_eq_length [OF assms(9)] by (simp add: MESSAGE_COLUMNS_def)
  have zip: "map (\<lambda>(c, e). (to_ascii_lowercase c, e)) (zip (in_columns ins) exprs) = zip ?cols exprs"
    by (simp add: zip_map1)
  have "map (\<lambda>(c, _). to_ascii_lowercase c) (zip (in_columns ins) exprs) = map fst (zip ?cols exprs)"
    by (simp add: zip_map1 case_prod_unfold comp_def)
  then have c: "collect_columns (zip (in_columns ins) exprs) [] = Ok (zip ?cols exprs)"
    using collect_columns_distinct [of "[]" "zip (in_columns ins) exprs"] d len assms(8) zip by simp
  have "set ?cols = set MESSAGE_COLUMNS" using mset_eq_setD [OF assms(9)] .
  then have "list_all (\<lambda>column. map_of (zip ?cols exprs) column \<noteq> None) MESSAGE_COLUMNS"
    using len assms(8) by (simp add: list_all_iff map_of_zip_is_None [of ?cols exprs] del: not_None_eq)
  then show ?thesis
    using assms len c by (simp add: parse_insert_values_def Let_def del: not_None_eq)
qed

lemma parse_insert_Ok:
  assumes "parse_insert_values parse statement expected = Ok vs"
    and "map_of vs ''channel_id'' = Some (ValueExpr (StringValue channel))"
    and "map_of vs ''timestamp'' = Some (TypedString (SqlTimestamp precision Tz) (StringValue text))"
    and "rfc3339 text = Some t" and "map_of vs ''id'' = Some (ValueExpr (StringValue key))"
    and "map_of vs ''value'' = Some (ValueExpr (StringValue ([CHR 0x5C, CHR ''x''] @ hex_text bytes)))"
  shows "parse_insert rfc3339 parse statement expected =
    Some (Ok \<lparr> rec_partition_key = PartitionKey (str_bytes channel), rec_event_time = t,
               rec_sort_key = SortKey (str_bytes key), rec_value = bytes \<rparr>)"
proof -
  have "bytea_literal (column_of vs ''value'') = Some (Ok bytes)"
    using bytea_literal_hex by (simp add: column_of_def assms(6) del: append.simps)
  then show ?thesis
    using assms(1-5)
    by (simp add: parse_insert_def column_of_def sql_string_literal_def sql_timestamp_literal_def into_string_def
        assemble_record_def Let_def)
qed

lemma statement_kind_refused:
  assumes "\<And>ins. parse statement \<noteq> Some [InsertStatement ins]" and "\<And>q. parse statement \<noteq> Some [QueryStatement q]"
  obtains e where "gateway_statement_kind parse statement = Err e"
proof (cases "gateway_statement_kind parse statement")
  case (Inr kind)
  then obtain ss where ss: "parse statement = Some ss" by (cases "parse statement") (auto simp: gateway_statement_kind_def)
  with Inr obtain s where "parse statement = Some [s]"
    by (cases rule: list_length_cases [of ss]) (auto simp: gateway_statement_kind_def)
  then show ?thesis using assms Inr by (cases s) (auto simp: gateway_statement_kind_def)
qed (rule that)

text \<open>What a plain \<open>INSERT\<close> is: one row of string literals and one timestamp literal for the four columns, in any order,
  without any other clause. A text is unsupported when it is neither one \<open>INSERT\<close> nor one query.\<close>

definition plain_row :: "(string \<Rightarrow> datetime option) \<Rightarrow> insert_values \<Rightarrow> string \<Rightarrow> datetime \<Rightarrow> string \<Rightarrow> byte list \<Rightarrow> bool" where
  "plain_row rfc3339 vs channel t key bytes \<longleftrightarrow>
     map_of vs ''channel_id'' = Some (ValueExpr (StringValue channel))
     \<and> (case map_of vs ''timestamp'' of
          Some (TypedString (SqlTimestamp _ tz) (StringValue text)) \<Rightarrow> tz = Tz \<and> rfc3339 text = Some t
        | _ \<Rightarrow> False)
     \<and> map_of vs ''id'' = Some (ValueExpr (StringValue key))
     \<and> map_of vs ''value'' = Some (ValueExpr (StringValue ([CHR 0x5C, CHR ''x''] @ hex_text bytes)))"

definition plain_insert :: "('p, 'w) gateway \<Rightarrow> string \<Rightarrow> string \<Rightarrow> datetime \<Rightarrow> string \<Rightarrow> byte list \<Rightarrow> bool" where
  "plain_insert gw statement channel t key bytes \<longleftrightarrow>
     (case gw_parse gw statement of
        Some [InsertStatement ins] \<Rightarrow>
          (case (in_table ins, in_source ins) of
             (TableName name, Some source) \<Rightarrow>
               (case qu_body source of
                  Values [exprs] \<Rightarrow>
                    \<not> unsupported_clauses (in_clauses ins) \<and> \<not> unsupported_source source
                    \<and> eq_ignore_ascii_case name (gw_table_name gw) \<and> length exprs = 4
                    \<and> mset (map to_ascii_lowercase (in_columns ins)) = mset MESSAGE_COLUMNS
                    \<and> plain_row (gw_rfc3339 gw) (zip (map to_ascii_lowercase (in_columns ins)) exprs) channel t key bytes
                | _ \<Rightarrow> False)
           | _ \<Rightarrow> False)
      | _ \<Rightarrow> False)"

definition unsupported :: "sql_parser \<Rightarrow> string \<Rightarrow> bool" where
  "unsupported parse statement \<longleftrightarrow>
     (case parse statement of Some [InsertStatement _] \<Rightarrow> False | Some [QueryStatement _] \<Rightarrow> False | _ \<Rightarrow> True)"

lemma plain_row_elim:
  assumes "plain_row rfc3339 vs channel t key bytes"
  obtains precision literal where "map_of vs ''channel_id'' = Some (ValueExpr (StringValue channel))"
    "map_of vs ''timestamp'' = Some (TypedString (SqlTimestamp precision Tz) (StringValue literal))"
    "rfc3339 literal = Some t" "map_of vs ''id'' = Some (ValueExpr (StringValue key))"
    "map_of vs ''value'' = Some (ValueExpr (StringValue ([CHR 0x5C, CHR ''x''] @ hex_text bytes)))"
  using assms unfolding plain_row_def
  by (auto split: option.split_asm SqlExpr.split_asm SqlDataType.split_asm SqlValue.split_asm)

lemma plain_insert_elim:
  assumes "plain_insert gw statement channel t key bytes"
  obtains ins name source exprs where "gw_parse gw statement = Some [InsertStatement ins]" "\<not> unsupported_clauses (in_clauses ins)"
    "in_table ins = TableName name" "eq_ignore_ascii_case name (gw_table_name gw)" "in_source ins = Some source"
    "\<not> unsupported_source source" "qu_body source = Values [exprs]" "length exprs = 4"
    "mset (map to_ascii_lowercase (in_columns ins)) = mset MESSAGE_COLUMNS"
    "plain_row (gw_rfc3339 gw) (zip (map to_ascii_lowercase (in_columns ins)) exprs) channel t key bytes"
proof -
  obtain ss where ss: "gw_parse gw statement = Some ss"
    using assms unfolding plain_insert_def by (cases "gw_parse gw statement") simp_all
  then obtain ins where i: "gw_parse gw statement = Some [InsertStatement ins]"
    using assms unfolding plain_insert_def
    by (cases rule: list_length_cases [of ss]) (auto split: SqlStatement.split_asm)
  from i obtain name source where s: "in_table ins = TableName name" "in_source ins = Some source"
    using assms unfolding plain_insert_def
    by (cases "in_table ins"; cases "in_source ins") simp_all
  then obtain rows where r: "qu_body source = Values rows"
    using assms i unfolding plain_insert_def by (cases "qu_body source") simp_all
  then obtain exprs where "rows = [exprs]"
    using assms i s unfolding plain_insert_def by (cases rule: list_length_cases [of rows]) simp_all
  with i s r assms show ?thesis by (auto simp: plain_insert_def intro: that)
qed

lemma plain_insert_parsed:
  assumes "plain_insert gw statement channel t key bytes"
  shows "gateway_statement_kind (gw_parse gw) statement = Ok InsertKind"
    and "parse_insert (gw_rfc3339 gw) (gw_parse gw) statement (gw_table_name gw) =
      Some (Ok \<lparr> rec_partition_key = PartitionKey (str_bytes channel), rec_event_time = t,
                 rec_sort_key = SortKey (str_bytes key), rec_value = bytes \<rparr>)"
proof -
  from assms obtain ins name source exprs
    where p: "gw_parse gw statement = Some [InsertStatement ins]" "\<not> unsupported_clauses (in_clauses ins)"
      "in_table ins = TableName name" "eq_ignore_ascii_case name (gw_table_name gw)" "in_source ins = Some source"
      "\<not> unsupported_source source" "qu_body source = Values [exprs]" "length exprs = 4"
      "mset (map to_ascii_lowercase (in_columns ins)) = mset MESSAGE_COLUMNS"
    and row: "plain_row (gw_rfc3339 gw) (zip (map to_ascii_lowercase (in_columns ins)) exprs) channel t key bytes"
    by (rule plain_insert_elim)
  show "gateway_statement_kind (gw_parse gw) statement = Ok InsertKind"
    using p(1) by (simp add: gateway_statement_kind_def)
  show "parse_insert (gw_rfc3339 gw) (gw_parse gw) statement (gw_table_name gw) =
      Some (Ok \<lparr> rec_partition_key = PartitionKey (str_bytes channel), rec_event_time = t,
                 rec_sort_key = SortKey (str_bytes key), rec_value = bytes \<rparr>)"
    using row by (rule plain_row_elim) (rule parse_insert_Ok [OF parse_insert_values_Ok [where parse = "gw_parse gw" and statement = statement, OF p]])
qed


definition example_insert :: Insert where
  "example_insert = \<lparr> in_clauses = \<lparr> ic_table_alias = False, ic_overwrite = False, ic_returning = False, ic_assignments = False,
       ic_on = False, ic_partitioned = False, ic_after_columns = False, ic_has_table_keyword = False,
       ic_replace_into = False, ic_priority = False, ic_insert_alias = False, ic_settings = False,
       ic_format_clause = False, ic_multi_table_insert_type = False, ic_multi_table_into_clauses = False,
       ic_multi_table_when_clauses = False, ic_multi_table_else_clause = False \<rparr>,
     in_table = TableName ''Messages'', in_columns = [''id'', ''Channel_Id'', ''timestamp'', ''value''],
     in_source = Some \<lparr> qu_with = False, qu_order_by = False, qu_limit_clause = False, qu_fetch = False, qu_locks = False,
       qu_for_clause = False, qu_settings = False, qu_format_clause = False, qu_pipe_operators = False,
       qu_body = Values [[ValueExpr (StringValue ''m-1''), ValueExpr (StringValue ''general''),
         TypedString (SqlTimestamp None Tz) (StringValue ''1970-01-01T00:00:00Z''),
         ValueExpr (StringValue ([CHR 0x5C, CHR ''x''] @ hex_text [0, 255]))]] \<rparr> \<rparr>"

definition example_gateway :: "TableDefinition \<Rightarrow> (unit, unit) gateway" where
  "example_gateway td = \<lparr>
     gw_engine = \<lparr> en_sql = (\<lambda>_. None), en_with_param_values = (\<lambda>_ _. None), en_schema = (\<lambda>_. []),
       en_collect = (\<lambda>_. Done (Ok [])) \<rparr>,
     gw_encode_field = (\<lambda>_ _. Ok ()),
     gw_parse = (\<lambda>s. if s = ''insert'' then Some [InsertStatement example_insert] else Some [OtherStatement s]),
     gw_rfc3339 = (\<lambda>s. if s = ''1970-01-01T00:00:00Z'' then Some 0 else None),
     gw_chrono = gregorian, gw_definition = td, gw_table_name = ''messages'' \<rparr>"

lemma lower_columns:
  "to_ascii_lowercase ''id'' = ''id''" "to_ascii_lowercase ''Channel_Id'' = ''channel_id''"
  "to_ascii_lowercase ''timestamp'' = ''timestamp''" "to_ascii_lowercase ''value'' = ''value''"
  "to_ascii_lowercase ''Messages'' = to_ascii_lowercase ''messages''"
  by code_simp+

definition example_portal :: Portal where
  "example_portal = \<lparr> po_statement = ''drop table messages'', po_parameter_len = 0, po_text = \<lambda>_. Ok None,
     po_timestamptz = \<lambda>_. Ok None, po_int8 = \<lambda>_. Ok None, po_bytea = \<lambda>_. Ok None \<rparr>"


end
