(* ===== verification/Sidecar_System.thy ===== *)
theory Sidecar_System
  imports Sql_Requests Production
begin

text \<open>
  The sidecar on the production stores: requests of both protocols, as they are served by any number of sidecars, run
  interleaved with the tasks of the library, and the whole system still loses nothing.
\<close>

section \<open>Requests as tasks\<close>

text \<open>What the table provider gives DataFusion to execute: the program of a plan only runs routed queries of the table,
  any number of them and with any dependence on their answers.\<close>

inductive scanning :: "chrono \<Rightarrow> TableDefinition \<Rightarrow> 'r prog \<Rightarrow> bool" for C td where
  scan_done: "scanning C td (Done r)"
| scan_panic: "scanning C td Panic"
| scan_query: "\<lbrakk> c_rep C (tr_start (q_range q)); \<And>res. scanning C td (k res) \<rbrakk>
    \<Longrightarrow> scanning C td (bind_prog (query_page C td q) k)"

definition serves :: "chrono \<Rightarrow> ('p, 'w) gateway \<Rightarrow> bool" where
  "serves C gw \<longleftrightarrow> gw_chrono gw = C \<and> (\<forall>plan. scanning C (gw_definition gw) (en_collect (gw_engine gw) plan))"

text \<open>The record of a request, if it is an \<open>INSERT\<close>, has an instant that the database can store.\<close>

definition storable_request :: "chrono \<Rightarrow> (pg_wire_error, Record) result option \<Rightarrow> bool" where
  "storable_request C parsed \<longleftrightarrow>
     (case parsed of Some (Inr r) \<Rightarrow> c_rep C (rec_event_time r) \<and> whole_record r | _ \<Rightarrow> True)"

inductive sidecar_task :: "chrono \<Rightarrow> ('p, 'w) gateway set \<Rightarrow> unit prog \<Rightarrow> bool" for C G where
  library: "library_task C whole_record p \<Longrightarrow> sidecar_task C G p"
| simple_request: "\<lbrakk> gw \<in> G; serves C gw;
      storable_request C (parse_insert (gw_rfc3339 gw) (gw_parse gw) statement (gw_table_name gw)) \<rbrakk>
    \<Longrightarrow> sidecar_task C G (detach (simple_do_query gw statement))"
| extended_request: "\<lbrakk> gw \<in> G; serves C gw;
      storable_request C (parse_bound_insert (gw_rfc3339 gw) (gw_parse gw) (po_statement portal) (gw_table_name gw) portal) \<rbrakk>
    \<Longrightarrow> sidecar_task C G (detach (extended_do_query gw portal format))"

lemma scanning_disciplined:
  assumes "utc_calendar C" and "scanning C td p"
  shows "disciplined (canonical C) R p K U"
  using assms(2)
proof (induction arbitrary: K U)
  case (scan_query q k)
  then show ?case by (auto intro!: disciplined_bind query_page_disciplined assms(1))
qed simp_all

lemma append_record_disciplined:
  assumes "utc_calendar C" and "gw_chrono gw = C" and "storable_request C parsed"
  shows "disciplined (canonical C) whole_record (append_record gw parsed) K U"
  using assms
  by (auto simp: append_record_def storable_request_def intro!: disciplined_bind table_append_disciplined
      split: option.splits sum.splits)

lemma answer_query_disciplined:
  assumes "utc_calendar C" and "serves C gw"
  shows "disciplined (canonical C) R (answer_query gw format plan) K U"
proof -
  have "scanning C (gw_definition gw) (en_collect (gw_engine gw) plan)" using assms(2) by (simp add: serves_def)
  from scanning_disciplined [OF assms(1) this] show ?thesis
    by (auto simp: answer_query_def intro!: disciplined_bind split: sum.splits option.splits)
qed

lemma execute_disciplined:
  assumes "utc_calendar C" and "serves C gw"
    and "storable_request C (case portal of
        Some p \<Rightarrow> parse_bound_insert (gw_rfc3339 gw) (gw_parse gw) statement (gw_table_name gw) p
      | None \<Rightarrow> parse_insert (gw_rfc3339 gw) (gw_parse gw) statement (gw_table_name gw))"
  shows "disciplined (canonical C) whole_record (execute_with_parameters gw statement format portal) K U"
proof -
  have "gw_chrono gw = C" using assms(2) by (simp add: serves_def)
  from append_record_disciplined [OF assms(1) this assms(3)] answer_query_disciplined [OF assms(1,2)]
  show ?thesis
    by (simp add: execute_with_parameters_def split: sum.split GatewayStatementKind.split)
qed

lemma sidecar_task_disciplined:
  assumes "sidecar_task C G p" and "utc_calendar C"
  shows "disciplined (canonical C) whole_record p {} {}"
  using assms(1)
proof cases
  case library
  then show ?thesis using assms(2) by (rule library_task_disciplined)
next
  case (simple_request gw statement)
  have "disciplined (canonical C) whole_record (execute_with_parameters gw statement unified_text None) {} {}"
    by (rule execute_disciplined [OF assms(2)]) (simp_all add: simple_request)
  then show ?thesis
    unfolding simple_request(1) simple_do_query_def
    by (auto intro!: detach_disciplined disciplined_bind split: sum.splits)
next
  case (extended_request gw portal format)
  have "disciplined (canonical C) whole_record
      (execute_with_parameters gw (po_statement portal) format (Some portal)) {} {}"
    by (rule execute_disciplined [OF assms(2)]) (simp_all add: extended_request)
  then show ?thesis
    unfolding extended_request(1) extended_do_query_def
    by (auto intro!: detach_disciplined split: sum.splits)
qed

section \<open>The system\<close>

definition sidecar_reachable ::
    "('p, 'w) gateway set \<Rightarrow> chrono \<Rightarrow> driver \<Rightarrow> codec \<Rightarrow> ('v, 'o) operator \<Rightarrow> OpenDalArchiveStore \<Rightarrow> nat \<Rightarrow> nat \<Rightarrow> nat \<Rightarrow> 'o
     \<Rightarrow> (fleet, 'o archive_fleet) config \<Rightarrow> bool" where
  "sidecar_reachable G C D cd opr store sz mb me obj c \<longleftrightarrow>
     reachable (cockroach_fleet D) (fleet_archive sz mb me (opendal_archive cd opr store))
       (sidecar_task C G) empty_fleet (fresh_caches obj) c"

definition sidecar_message :: Insert where
  "sidecar_message = example_insert\<lparr>
     in_source := map_option (\<lambda>source. source\<lparr>
       qu_body := Values [[ValueExpr (StringValue [CHR 0x01]), ValueExpr (StringValue [CHR 0x07]),
         TypedString (SqlTimestamp None Tz) (StringValue ''2024-03-05T00:00:00.000005Z''),
         ValueExpr (StringValue ([CHR 0x5C, CHR ''x''] @ hex_text [42]))]] \<rparr>) (in_source example_insert) \<rparr>"

definition message_gateway :: "(unit, unit) gateway" where
  "message_gateway = (example_gateway chat_example)\<lparr>
     gw_parse := (\<lambda>s. if s = ''insert'' then Some [InsertStatement sidecar_message] else None),
     gw_rfc3339 := (\<lambda>s. if s = ''2024-03-05T00:00:00.000005Z'' then Some (greg_start 2024 3 5 + 5000) else None) \<rparr>"

lemma message_gateway_insert:
  "plain_insert message_gateway ''insert'' [CHR 0x07] (greg_start 2024 3 5 + 5000) [CHR 0x01] [42]"
  by (simp add: plain_insert_def plain_row_def message_gateway_def sidecar_message_def example_gateway_def example_insert_def
      unsupported_clauses_def unsupported_source_def eq_ignore_ascii_case_def lower_columns MESSAGE_COLUMNS_def)

lemma message_gateway_record:
  "\<lparr> rec_partition_key = PartitionKey (str_bytes [CHR 0x07]), rec_event_time = greg_start 2024 3 5 + 5000,
     rec_sort_key = SortKey (str_bytes [CHR 0x01]), rec_value = [42] \<rparr> = message 5000"
  by (simp add: message_def str_bytes_def)

lemma message_request:
  obtains k0 k' where "simple_do_query message_gateway ''insert'' = Now k0"
    "k0 (greg_start 2024 3 5 + 77) = Append (year_bucket 2024) (message 5000) k'"
proof -
  obtain k0 where k0: "table_append gregorian chat_example (message 5000) = Now k0"
    "k0 (greg_start 2024 3 5 + 77) = Append (year_bucket 2024) (message 5000) (\<lambda>res. Done (map_err (append_error (year_bucket 2024)) res))"
    by (rule append_message [of 5000]) (simp_all add: DAY_def)
  have g: "gw_chrono message_gateway = gregorian" "gw_definition message_gateway = chat_example"
    by (simp_all add: message_gateway_def example_gateway_def)
  have "trim ''insert'' \<noteq> []" by (subst trim_plain) (simp_all add: not_ws_ascii)
  with plain_insert_parsed [OF message_gateway_insert] k0
  have "\<exists>k0 k'. simple_do_query message_gateway ''insert'' = Now k0
      \<and> k0 (greg_start 2024 3 5 + 77) = Append (year_bucket 2024) (message 5000) k'"
    by (simp add: simple_do_query_def execute_with_parameters_def append_record_def g message_gateway_record)
  then show ?thesis using that by blast
qed

lemma message_gateway_serves: "serves gregorian message_gateway"
  by (simp add: serves_def message_gateway_def example_gateway_def scan_done)

lemma sidecar_example:
  "\<exists>c. sidecar_reachable {message_gateway} gregorian micro_driver example_codec memory_operator example_store 8 1000 2 Map.empty c
     \<and> cf_acked c (year_bucket 2024) = {# message 5000 #}"
proof -
  let ?S = "cockroach_fleet micro_driver" and ?A = "fleet_archive 8 1000 2 (opendal_archive example_codec memory_operator example_store)"
    and ?T = "sidecar_task gregorian {message_gateway}"
  obtain k0 k' where k: "simple_do_query message_gateway ''insert'' = Now k0"
    "k0 (greg_start 2024 3 5 + 77) = Append (year_bucket 2024) (message 5000) k'"
    by (rule message_request)
  have "whole_record (message 5000)" by (simp add: whole_record_def message_def whole_micros_def greg_start_value)
  moreover have "c_rep gregorian (rec_event_time (message 5000))" by (rule message_bucket) (simp_all add: DAY_def)
  ultimately have "?T (detach (simple_do_query message_gateway ''insert''))"
    using plain_insert_parsed(2) [OF message_gateway_insert, unfolded message_gateway_record] message_gateway_serves
    by (intro simple_request) (simp_all add: storable_request_def)
  then have t: "?T (Now (\<lambda>now. detach (k0 now)))" by (simp add: k(1) detach_def)
  have r0: "reachable ?S ?A ?T empty_fleet (fresh_caches Map.empty) (sys_init empty_fleet (fresh_caches Map.empty))"
    by (simp add: reachable_def)
  have "ds_append ?S (w_store (calm 0)) (year_bucket 2024) (message 5000) empty_fleet
      = (Ok (), example_fleet (example_db [5000]))"
    using example_fleet_append [OF _ _ example_insert_meta(1), of 5000 0] by (simp add: empty_fleet_def)
  then have op: "ds_append ?S (w_store (calm 0)) (year_bucket 2024) (message 5000)
      (cf_store (sys_init empty_fleet (fresh_caches (Map.empty :: string \<rightharpoonup> byte list))))
      = (Ok (), example_fleet (example_db [5000]))"
    by (simp add: sys_init_def)
  from append_program_reaches [OF r0 _ t _ op, where i = 0] k(2) show ?thesis
    by (auto simp: sys_init_def sidecar_reachable_def detach_def calm_def)
qed

section \<open>What the sidecar promises\<close>



end
