(* ===== verification/Sql_Scan.thy ===== *)
theory Sql_Scan
  imports Datafusion Production
begin

text \<open>
  What a routed SQL scan delivers: the predicates that pushdown accepts are those that a scan can route, and
  the batches hold exactly the rows of the page, well typed for the projected schema. The composition with
  the stores is in the root theory.
\<close>

section \<open>Pushdown and scan\<close>

lemma collect_supported:
  "validate_predicate_shape pc e = Ok () \<Longrightarrow> collect_predicate pc e rq \<noteq> Err UnsupportedPredicate"
proof (induction e arbitrary: rq)
  case (BinaryExpr left op right)
  show ?case
  proof (cases op)
    case And
    then show ?thesis
      using BinaryExpr by (cases "collect_predicate pc left rq") (auto simp: and_then_eq_Inr)
  qed (use BinaryExpr.prems in \<open>auto simp: collect_partition_def collect_timestamp_bound_def column_name_Some Let_def ok_or_def
      split: if_splits option.splits\<close>)
qed auto

lemma validate_error: "validate_predicate_shape pc e = Err x \<Longrightarrow> x = UnsupportedPredicate"
proof (induction e)
  case (BinaryExpr left op right)
  then show ?case
    by (cases "validate_predicate_shape pc left") (auto simp: Let_def split: if_splits)
qed auto

lemma collect_validates: "collect_predicate pc e rq = Ok rq' \<Longrightarrow> validate_predicate_shape pc e = Ok ()"
proof (induction e arbitrary: rq rq')
  case (BinaryExpr left op right)
  show ?case
  proof (cases "op = And")
    case True
    then show ?thesis using BinaryExpr by (auto simp: and_then_eq_Inr)
  next
    case False
    then show ?thesis
      using BinaryExpr.prems
      by (cases op) (auto simp: and_then_eq_Inr collect_partition_def collect_timestamp_bound_def Let_def ok_or_def
          split: if_splits option.splits)
  qed
qed auto

lemma extract_query_validates: "extract_query pc filters = Ok rq \<Longrightarrow> list_all (\<lambda>e. validate_predicate_shape pc e = Ok ()) filters"
proof -
  have "collect_predicates pc filters rq = Ok rq' \<Longrightarrow> list_all (\<lambda>e. validate_predicate_shape pc e = Ok ()) filters" for rq rq'
    by (induction filters arbitrary: rq) (auto simp: and_then_eq_Inr collect_validates)
  then show "extract_query pc filters = Ok rq \<Longrightarrow> ?thesis" by (auto simp: extract_query_def and_then_eq_Inr)
qed

lemma extract_query_supported:
  "list_all (\<lambda>e. validate_predicate_shape pc e = Ok ()) filters \<Longrightarrow> extract_query pc filters \<noteq> Err UnsupportedPredicate"
proof -
  assume "list_all (\<lambda>e. validate_predicate_shape pc e = Ok ()) filters"
  then have "collect_predicates pc filters rq \<noteq> Err UnsupportedPredicate" for rq
  proof (induction filters arbitrary: rq)
    case (Cons e filters)
    then show ?case using collect_supported [of pc e rq] by (cases "collect_predicate pc e rq") auto
  qed auto
  then show ?thesis
    by (cases "collect_predicates pc filters routed_default")
      (auto simp: extract_query_def routed_finish_def ok_or_def split: option.splits)
qed

lemma pushdown_Ok:
  "supports_filters_pushdown pc filters = Ok ds \<longleftrightarrow>
     list_all (\<lambda>e. validate_predicate_shape pc e = Ok ()) filters \<and> ds = map (\<lambda>_. Exact) filters"
  unfolding supports_filters_pushdown_def
  by (induction filters arbitrary: ds) (auto simp: and_then_eq_Inr map_err_Ok)

text \<open>C11. Planning and scanning agree on the predicates they support: \<open>supports_filters_pushdown\<close> accepts the
  filters of every query that a scan accepts, and declares them exact; a scan of filters that it accepted is
  never rejected as unsupported, only as incomplete or contradictory.\<close>

theorem pushdown_agrees_with_scan:
  "(extract_query pc filters = Ok rq \<longrightarrow> supports_filters_pushdown pc filters = Ok (map (\<lambda>_. Exact) filters))
   \<and> (supports_filters_pushdown pc filters = Ok ds \<longrightarrow> extract_query pc filters \<noteq> Err UnsupportedPredicate)"
  using extract_query_validates extract_query_supported by (simp add: pushdown_Ok)

text \<open>A scan of one channel and one second.\<close>

definition example_filters :: "Expr list" where
  "example_filters =
     [BinaryExpr (Column ''channel_id'') Eq (Literal (Utf8 (Some ''general''))),
      BinaryExpr (BinaryExpr (Column ''timestamp'') GtEq (Cast (Literal (TimestampSecond (Some 5) None)) ''Timestamp(ns)''))
        And (BinaryExpr (Column ''timestamp'') Lt (Literal (TimestampMillisecond (Some 6000) None)))]"

lemma example_extract:
  "extract_query ''channel_id'' example_filters = Ok \<lparr> rq_partition_key = Some (PartitionKey (str_bytes ''general'')),
     rq_start = Some 5000000000, rq_end = Some 6000000000 \<rparr>"
  by (simp add: extract_query_def example_filters_def routed_default_def collect_partition_def string_literal_def
      collect_timestamp_bound_def timestamp_literal_def checked_mul_def I64_MIN_def I64_MAX_def routed_finish_def)

theorem pushdown_agrees_with_scan_witness:
  "supports_filters_pushdown ''channel_id'' example_filters = Ok [Exact, Exact]
   \<and> extract_query ''channel_id'' example_filters \<noteq> Err UnsupportedPredicate"
  using pushdown_agrees_with_scan [of "''channel_id''" example_filters] example_extract
  by (simp add: example_filters_def)

text \<open>A comparison with its column on the right is routed with the wrong strictness: the scan of \<open>5 s < timestamp\<close>
  delivers a record at 5 s, and the scan of \<open>6 s >= timestamp\<close> drops one at 6 s.\<close>

lemma mirrored_bounds_are_wrong:
  "\<exists>rq. collect_predicates ''channel_id'' [BinaryExpr (Literal (TimestampSecond (Some 5) None)) Lt (Column ''timestamp''),
       BinaryExpr (Literal (TimestampSecond (Some 6) None)) GtEq (Column ''timestamp'')] routed_default = Ok rq
     \<and> routed_selects rq (r\<lparr> rec_event_time := 5000000000 \<rparr>) \<and> \<not> routed_selects rq (r\<lparr> rec_event_time := 6000000000 \<rparr>)"
  "\<not> satisfies cast ''channel_id'' (r\<lparr> rec_event_time := 5000000000 \<rparr>)
     (BinaryExpr (Literal (TimestampSecond (Some 5) None)) Lt (Column ''timestamp''))"
  "satisfies cast ''channel_id'' (r\<lparr> rec_event_time := 6000000000 \<rparr>)
     (BinaryExpr (Literal (TimestampSecond (Some 6) None)) GtEq (Column ''timestamp''))"
  by (simp_all add: collect_timestamp_bound_def timestamp_literal_def checked_mul_def I64_MIN_def I64_MAX_def routed_default_def
      routed_selects_def column_value_def sql_equal_def)

text \<open>The casts around a literal are dropped: a cast that truncates a timestamp moves the bound in SQL and not in
  the scan.\<close>

definition truncate_to_seconds :: sql_cast where
  "truncate_to_seconds type v =
     (if type = ''Timestamp(s)'' then (case v of Some (SqlTime t) \<Rightarrow> Some (SqlTime (t - t mod 1000000000)) | _ \<Rightarrow> v) else v)"

lemma dropped_cast_is_wrong:
  "\<exists>rq. collect_predicate ''channel_id'' (BinaryExpr (Column ''timestamp'') GtEq
       (Cast (Literal (TimestampMillisecond (Some 5500) None)) ''Timestamp(s)'')) routed_default = Ok rq
     \<and> \<not> routed_selects rq (r\<lparr> rec_event_time := 5000000000 \<rparr>)"
  "satisfies truncate_to_seconds ''channel_id'' (r\<lparr> rec_event_time := 5000000000 \<rparr>) (BinaryExpr (Column ''timestamp'') GtEq
       (Cast (Literal (TimestampMillisecond (Some 5500) None)) ''Timestamp(s)''))"
  by (simp_all add: collect_timestamp_bound_def timestamp_literal_def checked_mul_def I64_MIN_def I64_MAX_def routed_default_def
      routed_selects_def column_value_def sql_equal_def truncate_to_seconds_def)

section \<open>Batches\<close>

datatype cell = StringCell string | TimeCell int | BytesCell "byte list"

fun array_cells :: "ArrayRef \<Rightarrow> cell list" where
  "array_cells (StringArray xs) = map StringCell xs"
| "array_cells (TimestampNanosecondArray xs) = map TimeCell xs"
| "array_cells (BinaryArray xs) = map BytesCell xs"

fun array_type :: "ArrayRef \<Rightarrow> DataType" where
  "array_type (StringArray _) = Utf8Type"
| "array_type (TimestampNanosecondArray _) = TimestampType Nanosecond (Some ''UTC'')"
| "array_type (BinaryArray _) = BinaryType"

text \<open>Columns of \<open>n\<close> rows that have the types of their fields.\<close>

definition well_typed :: "Field list \<Rightarrow> nat \<Rightarrow> ArrayRef list \<Rightarrow> bool" where
  "well_typed fs n columns \<longleftrightarrow>
     list_all2 (\<lambda>f column. array_type column = fd_type f \<and> length (array_cells column) = n) fs columns"

text \<open>What Arrow documents: well-typed columns of one length form a batch that holds them, and a projection on
  existing columns is the batch of these columns; the projection of a schema checks its indices.\<close>

definition arrow_ok :: "'b arrow \<Rightarrow> ('b \<Rightarrow> ArrayRef list) \<Rightarrow> bool" where
  "arrow_ok A columns \<longleftrightarrow>
     (\<forall>fs n cols. well_typed fs n cols \<longrightarrow> (\<exists>b. ar_try_new A fs cols = Some b \<and> columns b = cols))
     \<and> (\<forall>b projection. list_all (\<lambda>i. i < length (columns b)) projection \<longrightarrow>
          (\<exists>b'. ar_project A projection b = Some b' \<and> columns b' = map ((!) (columns b)) projection))
     \<and> (\<forall>projection fs fs'. ar_schema_project A projection fs = Some fs' \<longrightarrow>
          list_all (\<lambda>i. i < length fs) projection \<and> fs' = map ((!) fs) projection)"

text \<open>The records that SQL can represent, and their rows.\<close>

definition sql_record :: "Record \<Rightarrow> bool" where
  "sql_record r \<longleftrightarrow> valid_utf8 (pk_bytes (rec_partition_key r)) \<and> valid_utf8 (sk_bytes (rec_sort_key r))
     \<and> timestamp_nanos_opt (rec_event_time r) \<noteq> None"

definition bytes_str :: "byte list \<Rightarrow> string" where
  "bytes_str bytes = map (\<lambda>b. char_of (unat b)) bytes"

definition row_cells :: "Record \<Rightarrow> cell list" where
  "row_cells r = [StringCell (bytes_str (pk_bytes (rec_partition_key r))), TimeCell (rec_event_time r),
     StringCell (bytes_str (sk_bytes (rec_sort_key r))), BytesCell (rec_value r)]"

definition row_columns :: "Record list \<Rightarrow> ArrayRef list" where
  "row_columns rs = [StringArray (map (\<lambda>r. bytes_str (pk_bytes (rec_partition_key r))) rs),
     TimestampNanosecondArray (map rec_event_time rs), StringArray (map (\<lambda>r. bytes_str (sk_bytes (rec_sort_key r))) rs),
     BinaryArray (map rec_value rs)]"

lemma bytes_str_inj: "bytes_str a = bytes_str b \<longleftrightarrow> a = b"
proof -
  have "inj (\<lambda>b :: byte. char_of (unat b))"
  proof (rule injI)
    fix x y :: byte
    assume "char_of (unat x) = char_of (unat y)"
    then have "of_char (char_of (unat x) :: char) = (of_char (char_of (unat y) :: char) :: nat)" by simp
    then have "unat x mod 256 = unat y mod 256" by simp
    moreover have "unat x < 256" "unat y < 256" using unsigned_less [of x] unsigned_less [of y] by simp_all
    ultimately show "x = y" by (simp add: word_unat_eq_iff)
  qed
  then show ?thesis unfolding bytes_str_def by (simp add: inj_map_eq_map)
qed

lemma those_map: "those (map f xs) = (if list_all (\<lambda>x. f x \<noteq> None) xs then Some (map (\<lambda>x. the (f x)) xs) else None)"
  by (induction xs) (auto split: option.splits)

lemma chunks_concat: "0 < n \<Longrightarrow> concat (chunks n xs) = xs"
  by (induction n xs rule: chunks.induct) (subst chunks.simps, simp)

lemma chunks_size: "c \<in> set (chunks n xs) \<Longrightarrow> c \<noteq> [] \<and> length c \<le> n"
proof (induction n xs rule: chunks.induct)
  case (1 n xs)
  then show ?case by (subst (asm) (2) chunks.simps) (auto split: if_splits)
qed

lemma row_columns_typed: "well_typed (provider_schema td) (length rs) (row_columns rs)"
  by (simp add: well_typed_def provider_schema_def row_columns_def)

lemma row_columns_cells: "i < 4 \<Longrightarrow> array_cells (row_columns rs ! i) = map (\<lambda>r. row_cells r ! i) rs"
  by (auto simp: row_columns_def row_cells_def less_Suc_eq numeral_eq_Suc)

lemma record_batch_cases:
  assumes A: "arrow_ok A columns" and proj: "list_all (\<lambda>i. i < 4) projection"
  shows "list_all sql_record rs \<Longrightarrow> \<exists>b. record_batch A (provider_schema td) projection rs = Ok b
       \<and> columns b = map ((!) (row_columns rs)) projection"
    and "\<not> list_all sql_record rs \<Longrightarrow> \<exists>e. record_batch A (provider_schema td) projection rs = Err e
       \<and> e \<noteq> Execution ''Pulpitum could not build an Arrow batch''"
proof -
  have utf8: "list_all (\<lambda>r. as_utf8 (f r) \<noteq> None) rs \<longleftrightarrow> list_all (\<lambda>r. valid_utf8 (f r)) rs"
    "list_all (\<lambda>r. valid_utf8 (f r)) rs \<Longrightarrow> map (\<lambda>r. the (as_utf8 (f r))) rs = map (\<lambda>r. bytes_str (f r)) rs" for f
    by (auto simp: as_utf8_def bytes_str_def list_all_iff)
  have nanos: "list_all (\<lambda>r. timestamp_nanos_opt (rec_event_time r) \<noteq> None) rs \<Longrightarrow>
      map (\<lambda>r. the (timestamp_nanos_opt (rec_event_time r))) rs = map rec_event_time rs"
    by (auto simp: timestamp_nanos_opt_def list_all_iff split: if_splits)
  obtain b where b: "ar_try_new A (provider_schema td) (row_columns rs) = Some b" "columns b = row_columns rs"
    using A row_columns_typed unfolding arrow_ok_def by blast
  have "length (row_columns rs) = 4" by (simp add: row_columns_def)
  with b(2) proj have "list_all (\<lambda>i. i < length (columns b)) projection" by simp
  with A obtain b' where b': "ar_project A projection b = Some b'" "columns b' = map ((!) (columns b)) projection"
    unfolding arrow_ok_def by blast
  show "\<exists>b. record_batch A (provider_schema td) projection rs = Ok b \<and> columns b = map ((!) (row_columns rs)) projection"
    if "list_all sql_record rs"
  proof -
    have "list_all (\<lambda>r. valid_utf8 (pk_bytes (rec_partition_key r))) rs" "list_all (\<lambda>r. valid_utf8 (sk_bytes (rec_sort_key r))) rs"
      "list_all (\<lambda>r. timestamp_nanos_opt (rec_event_time r) \<noteq> None) rs"
      using that by (auto simp: sql_record_def list_all_iff)
    then have "record_batch A (provider_schema td) projection rs = Ok b'"
      using b(1) b'(1) by (simp add: record_batch_def those_map utf8 nanos row_columns_def del: not_None_eq)
    then show ?thesis using b(2) b'(2) by simp
  qed
  show "\<exists>e. record_batch A (provider_schema td) projection rs = Err e \<and> e \<noteq> Execution ''Pulpitum could not build an Arrow batch''"
    if "\<not> list_all sql_record rs"
  proof -
    have "\<not> list_all (\<lambda>r. valid_utf8 (pk_bytes (rec_partition_key r))) rs \<or> \<not> list_all (\<lambda>r. valid_utf8 (sk_bytes (rec_sort_key r))) rs
      \<or> \<not> list_all (\<lambda>r. timestamp_nanos_opt (rec_event_time r) \<noteq> None) rs"
      using that by (auto simp: sql_record_def list_all_iff)
    then show ?thesis by (auto simp: record_batch_def those_map utf8(1) simp del: not_None_eq)
  qed
qed

lemma record_batch_list:
  assumes A: "arrow_ok A columns" and proj: "list_all (\<lambda>i. i < 4) projection"
  shows "list_all (list_all sql_record) cs \<Longrightarrow>
      \<exists>bs. collect_results (map (record_batch A (provider_schema td) projection) cs) = Ok bs
        \<and> map columns bs = map (\<lambda>c. map ((!) (row_columns c)) projection) cs"
    and "\<not> list_all (list_all sql_record) cs \<Longrightarrow>
      \<exists>e. collect_results (map (record_batch A (provider_schema td) projection) cs) = Err e
        \<and> e \<noteq> Execution ''Pulpitum could not build an Arrow batch''"
proof (induction cs)
  case (Cons c cs)
  {
    case 1
    then show ?case using Cons.IH(1) record_batch_cases(1) [OF A proj, of c td] by fastforce
  next
    case 2
    show ?case
    proof (cases "list_all sql_record c")
      case True
      then show ?thesis using 2 Cons.IH(2) record_batch_cases(1) [OF A proj, of c td] by fastforce
    next
      case False
      then show ?thesis using record_batch_cases(2) [OF A proj, of c td] by fastforce
    qed
  }
qed simp_all

lemma chunks_records: "list_all (list_all P) (chunks BATCH_SIZE rs) \<longleftrightarrow> list_all P rs"
proof -
  have "set rs = (\<Union>c \<in> set (chunks BATCH_SIZE rs). set c)"
    using chunks_concat [of BATCH_SIZE rs] by (simp add: BATCH_SIZE_def flip: set_concat)
  then show ?thesis by (auto simp: list_all_iff)
qed

lemma projected_typed:
  assumes "list_all (\<lambda>i. i < 4) projection"
  shows "well_typed (map ((!) (provider_schema td)) projection) (length c) (map ((!) (row_columns c)) projection)"
proof -
  have "array_type (row_columns c ! i) = fd_type (provider_schema td ! i) \<and> length (array_cells (row_columns c ! i)) = length c"
    if "i < 4" for i
    using row_columns_typed [of td c] that unfolding well_typed_def
    by (simp add: list_all2_conv_all_nth provider_schema_def)
  then show ?thesis using assms by (simp add: well_typed_def list_all2_conv_all_nth list_all_length)
qed

lemma projected_cells:
  assumes "list_all (\<lambda>i. i < 4) projection" and "j < length projection"
  shows "concat (map (\<lambda>c. array_cells (map ((!) (row_columns c)) projection ! j)) cs)
    = map (\<lambda>r. row_cells r ! (projection ! j)) (concat cs)"
  using assms by (induction cs) (simp_all add: row_columns_cells list_all_length)

lemma record_batches_columns:
  assumes "arrow_ok A columns" and "list_all (\<lambda>i. i < 4) projection" and "record_batches A rs (provider_schema td) projection = Ok bs"
  shows "list_all sql_record rs" "map columns bs = map (\<lambda>c. map ((!) (row_columns c)) projection) (chunks BATCH_SIZE rs)"
proof -
  show "list_all sql_record rs"
    using record_batch_list(2) [OF assms(1,2), of "chunks BATCH_SIZE rs" td] assms(3)
    by (auto simp: record_batches_def chunks_records)
  then show "map columns bs = map (\<lambda>c. map ((!) (row_columns c)) projection) (chunks BATCH_SIZE rs)"
    using record_batch_list(1) [OF assms(1,2), of "chunks BATCH_SIZE rs" td] assms(3)
    by (auto simp: record_batches_def chunks_records)
qed

lemma record_batches_cells:
  assumes "arrow_ok A columns" and "list_all (\<lambda>i. i < 4) projection" and "record_batches A rs (provider_schema td) projection = Ok bs"
    and "j < length projection"
  shows "concat (map (\<lambda>b. array_cells (columns b ! j)) bs) = map (\<lambda>r. row_cells r ! (projection ! j)) rs"
proof -
  have "map (\<lambda>b. array_cells (columns b ! j)) bs = map (\<lambda>cols. array_cells (cols ! j)) (map columns bs)" by simp
  also have "\<dots> = map (\<lambda>c. array_cells (map ((!) (row_columns c)) projection ! j)) (chunks BATCH_SIZE rs)"
    unfolding record_batches_columns(2) [OF assms(1-3)] by simp
  finally show ?thesis
    using projected_cells [OF assms(2,4), of "chunks BATCH_SIZE rs"] chunks_concat [of BATCH_SIZE rs]
    by (simp add: BATCH_SIZE_def)
qed

text \<open>C10. The batches are well typed and complete: a page of records becomes batches of at most 1,024 rows, each of
  them with the columns that the projected schema declares, which together hold the rows of the page in
  order, cell by cell; it is rejected exactly when some key is not UTF-8 or some timestamp does not fit, and
  never because Arrow refuses the columns.\<close>

theorem batches_deliver_rows:
  assumes "arrow_ok A columns" and "list_all (\<lambda>i. i < 4) projection"
  shows "case record_batches A rs (provider_schema td) projection of
      Inr bs \<Rightarrow> list_all sql_record rs
        \<and> (\<forall>b \<in> set bs. \<exists>n. 0 < n \<and> n \<le> BATCH_SIZE \<and> well_typed (map ((!) (provider_schema td)) projection) n (columns b))
        \<and> (\<forall>j < length projection.
             concat (map (\<lambda>b. array_cells (columns b ! j)) bs) = map (\<lambda>r. row_cells r ! (projection ! j)) rs)
    | Inl e \<Rightarrow> \<not> list_all sql_record rs \<and> e \<noteq> Execution ''Pulpitum could not build an Arrow batch''"
proof (cases "record_batches A rs (provider_schema td) projection")
  case (Inl e)
  then show ?thesis
    using record_batch_list [OF assms, of "chunks BATCH_SIZE rs" td]
    by (cases "list_all sql_record rs") (auto simp: record_batches_def chunks_records)
next
  case (Inr bs)
  note cols = record_batches_columns [OF assms Inr]
  have "\<exists>n. 0 < n \<and> n \<le> BATCH_SIZE \<and> well_typed (map ((!) (provider_schema td)) projection) n (columns b)" if "b \<in> set bs" for b
  proof -
    have "columns b \<in> set (map columns bs)" using that by simp
    then obtain c where "c \<in> set (chunks BATCH_SIZE rs)" "columns b = map ((!) (row_columns c)) projection"
      unfolding cols(2) by auto
    with chunks_size [of c BATCH_SIZE rs] projected_typed [OF assms(2), of td c] show ?thesis by auto
  qed
  then show ?thesis using Inr cols(1) record_batches_cells [OF assms Inr] by simp
qed

text \<open>Arrow as lists of columns.\<close>

definition list_arrow :: "ArrayRef list arrow" where
  "list_arrow = \<lparr> ar_try_new = (\<lambda>_ cols. Some cols),
     ar_project = (\<lambda>projection cols. if list_all (\<lambda>i. i < length cols) projection then Some (map ((!) cols) projection) else None),
     ar_schema_project = (\<lambda>projection fs. if list_all (\<lambda>i. i < length fs) projection then Some (map ((!) fs) projection) else None) \<rparr>"

lemma list_arrow_ok: "arrow_ok list_arrow id"
  by (auto simp: arrow_ok_def list_arrow_def split: if_splits)

theorem batches_deliver_rows_witness:
  "record_batches list_arrow [\<lparr> rec_partition_key = PartitionKey [103], rec_event_time = 7, rec_sort_key = SortKey [49],
      rec_value = [1, 2] \<rparr>] (provider_schema chat_example) [3, 1]
    = Ok [[BinaryArray [[1, 2]], TimestampNanosecondArray [7]]]
   \<and> well_typed (map ((!) (provider_schema chat_example)) [3, 1]) 1 [BinaryArray [[1, 2]], TimestampNanosecondArray [7]]"
proof -
  let ?r = "\<lparr> rec_partition_key = PartitionKey [103], rec_event_time = 7, rec_sort_key = SortKey [49], rec_value = [1, 2] \<rparr>"
  have "chunks BATCH_SIZE [?r] = [[?r]]" by (simp add: chunks.simps BATCH_SIZE_def)
  then have "record_batches list_arrow [?r] (provider_schema chat_example) [3, 1]
      = Ok [[BinaryArray [[1, 2]], TimestampNanosecondArray [7]]]"
    by (simp add: record_batches_def record_batch_def as_utf8_def timestamp_nanos_opt_def I64_MIN_def I64_MAX_def list_arrow_def)
  with batches_deliver_rows [OF list_arrow_ok, of "[3, 1]" "[?r]" chat_example] show ?thesis
    by (simp add: well_typed_def)
qed

end
