(* ===== verification/Observability.thy ===== *)
theory Observability
  imports Model
begin

text \<open>
  The telemetry boundary, \<open>src/src/integrations/observability.rs\<close>: the trait \<open>Telemetry\<close> is a record of its hooks, an
  implementation answers every hook with the operations on its instruments, and the OpenTelemetry implementation
  keeps the documented promise of bounded cardinality. Durations are an abstract type, since they are only passed
  on.
\<close>

section \<open>The boundary\<close>

datatype ArchiveStage = SnapshotStage | UploadStage | DeleteHotStage

datatype CoordinatorPhase =
    Queued | Claimed | Uploading | UploadedVerified | PublishedCleanupPending | Completed | RetryScheduled
  | FailedNeedsAttention

datatype ReadTier = HotTier | ArchiveTier

type_synonym KeyValue = "string \<times> string"

text \<open>An operation on an instrument, with the name of the instrument and the attributes.\<close>

datatype 'f instrument_op =
    CounterAdd string nat "KeyValue list"
  | GaugeRecord string nat "KeyValue list"
  | HistogramRecord string 'f "KeyValue list"

record 'f Telemetry =
  te_archive_started :: "BucketId \<Rightarrow> 'f instrument_op list"
  te_archive_completed :: "BucketId \<Rightarrow> nat \<Rightarrow> 'f \<Rightarrow> 'f instrument_op list"
  te_archive_failed :: "BucketId \<Rightarrow> ArchiveStage \<Rightarrow> 'f instrument_op list"
  te_read_routed :: "BucketId \<Rightarrow> ReadTier \<Rightarrow> 'f instrument_op list"
  te_bucket_tier_counts :: "nat \<Rightarrow> nat \<Rightarrow> nat \<Rightarrow> 'f instrument_op list"
  te_coordinator_cycle_started :: "'f instrument_op list"
  te_coordinator_cycle_completed :: "'f \<Rightarrow> 'f instrument_op list"
  te_coordinator_cycle_failed :: "'f \<Rightarrow> 'f instrument_op list"
  te_coordinator_phase_entered :: "CoordinatorPhase \<Rightarrow> 'f instrument_op list"
  te_coordinator_phase_count :: "CoordinatorPhase \<Rightarrow> nat \<Rightarrow> 'f instrument_op list"

text \<open>The default methods of the trait do nothing, and \<open>NoopTelemetry\<close> overrides none of them.\<close>

definition NoopTelemetry :: "'f Telemetry" where
  "NoopTelemetry = \<lparr> te_archive_started = \<lambda>_. [], te_archive_completed = \<lambda>_ _ _. [], te_archive_failed = \<lambda>_ _. [],
     te_read_routed = \<lambda>_ _. [], te_bucket_tier_counts = \<lambda>_ _ _. [], te_coordinator_cycle_started = [],
     te_coordinator_cycle_completed = \<lambda>_. [], te_coordinator_cycle_failed = \<lambda>_. [],
     te_coordinator_phase_entered = \<lambda>_. [], te_coordinator_phase_count = \<lambda>_ _. [] \<rparr>"

section \<open>OpenTelemetry\<close>

text \<open>The instruments of \<open>OtelTelemetry::new\<close>, by name.\<close>

record OtelInstruments =
  ot_archive_runs :: string
  ot_archive_failures :: string
  ot_archive_records :: string
  ot_archive_duration :: string
  ot_routed_reads :: string
  ot_buckets :: string
  ot_coordinator_cycles :: string
  ot_coordinator_duration :: string
  ot_coordinator_phase_transitions :: string
  ot_coordinator_jobs :: string

definition OtelTelemetry_new :: OtelInstruments where
  "OtelTelemetry_new = \<lparr>
     ot_archive_runs = ''pulpitum.archive.runs'',
     ot_archive_failures = ''pulpitum.archive.failures'',
     ot_archive_records = ''pulpitum.archive.records'',
     ot_archive_duration = ''pulpitum.archive.duration'',
     ot_routed_reads = ''pulpitum.query.routes'',
     ot_buckets = ''pulpitum.buckets'',
     ot_coordinator_cycles = ''pulpitum.archive.coordinator.cycles'',
     ot_coordinator_duration = ''pulpitum.archive.coordinator.duration'',
     ot_coordinator_phase_transitions = ''pulpitum.archive.coordinator.phase.transitions'',
     ot_coordinator_jobs = ''pulpitum.archive.coordinator.jobs'' \<rparr>"

definition bucket_strategy_label :: "BucketId \<Rightarrow> KeyValue" where
  "bucket_strategy_label bucket = (''pulpitum.bucket.strategy'', strategy_as_str (bid_strategy bucket))"

definition stage_label :: "ArchiveStage \<Rightarrow> KeyValue" where
  "stage_label stage =
     (''pulpitum.archive.stage'',
      case stage of SnapshotStage \<Rightarrow> ''snapshot'' | UploadStage \<Rightarrow> ''upload'' | DeleteHotStage \<Rightarrow> ''delete_hot'')"

definition coordinator_phase :: "CoordinatorPhase \<Rightarrow> KeyValue" where
  "coordinator_phase phase =
     (''pulpitum.archive.coordinator.phase'',
      case phase of
        Queued \<Rightarrow> ''queued''
      | Claimed \<Rightarrow> ''claimed''
      | Uploading \<Rightarrow> ''uploading''
      | UploadedVerified \<Rightarrow> ''uploaded_verified''
      | PublishedCleanupPending \<Rightarrow> ''published_cleanup_pending''
      | Completed \<Rightarrow> ''completed''
      | RetryScheduled \<Rightarrow> ''retry_scheduled''
      | FailedNeedsAttention \<Rightarrow> ''failed_needs_attention'')"

definition coordinator_outcome :: "string \<Rightarrow> KeyValue" where
  "coordinator_outcome outcome = (''pulpitum.archive.coordinator.outcome'', outcome)"

definition archive_started :: "OtelInstruments \<Rightarrow> BucketId \<Rightarrow> 'f instrument_op list" where
  "archive_started ot bucket =
     [CounterAdd (ot_archive_runs ot) 1 [bucket_strategy_label bucket, (''pulpitum.archive.outcome'', ''started'')]]"

definition archive_completed :: "OtelInstruments \<Rightarrow> BucketId \<Rightarrow> nat \<Rightarrow> 'f \<Rightarrow> 'f instrument_op list" where
  "archive_completed ot bucket records elapsed_seconds =
     (let attrs = [bucket_strategy_label bucket, (''pulpitum.archive.outcome'', ''success'')]
      in [CounterAdd (ot_archive_runs ot) 1 attrs, CounterAdd (ot_archive_records ot) records attrs,
          HistogramRecord (ot_archive_duration ot) elapsed_seconds attrs])"

definition archive_failed :: "OtelInstruments \<Rightarrow> BucketId \<Rightarrow> ArchiveStage \<Rightarrow> 'f instrument_op list" where
  "archive_failed ot bucket failed_stage =
     [CounterAdd (ot_archive_failures ot) 1 [bucket_strategy_label bucket, stage_label failed_stage]]"

definition read_routed :: "OtelInstruments \<Rightarrow> BucketId \<Rightarrow> ReadTier \<Rightarrow> 'f instrument_op list" where
  "read_routed ot bucket tier =
     [CounterAdd (ot_routed_reads ot) 1
        [bucket_strategy_label bucket,
         (''pulpitum.query.tier'', case tier of HotTier \<Rightarrow> ''hot'' | ArchiveTier \<Rightarrow> ''archive'')]]"

definition bucket_tier_counts :: "OtelInstruments \<Rightarrow> nat \<Rightarrow> nat \<Rightarrow> nat \<Rightarrow> 'f instrument_op list" where
  "bucket_tier_counts ot hot archiving archive =
     map (\<lambda>(tier, n). GaugeRecord (ot_buckets ot) n [(''pulpitum.bucket.tier'', tier)])
       [(''hot'', hot), (''archiving'', archiving), (''archive'', archive)]"

definition coordinator_cycle_started :: "OtelInstruments \<Rightarrow> 'f instrument_op list" where
  "coordinator_cycle_started ot = [CounterAdd (ot_coordinator_cycles ot) 1 [coordinator_outcome ''started'']]"

definition coordinator_cycle_completed :: "OtelInstruments \<Rightarrow> 'f \<Rightarrow> 'f instrument_op list" where
  "coordinator_cycle_completed ot elapsed_seconds =
     (let attrs = [coordinator_outcome ''success'']
      in [CounterAdd (ot_coordinator_cycles ot) 1 attrs, HistogramRecord (ot_coordinator_duration ot) elapsed_seconds attrs])"

definition coordinator_cycle_failed :: "OtelInstruments \<Rightarrow> 'f \<Rightarrow> 'f instrument_op list" where
  "coordinator_cycle_failed ot elapsed_seconds =
     (let attrs = [coordinator_outcome ''failure'']
      in [CounterAdd (ot_coordinator_cycles ot) 1 attrs, HistogramRecord (ot_coordinator_duration ot) elapsed_seconds attrs])"

definition coordinator_phase_entered :: "OtelInstruments \<Rightarrow> CoordinatorPhase \<Rightarrow> 'f instrument_op list" where
  "coordinator_phase_entered ot phase = [CounterAdd (ot_coordinator_phase_transitions ot) 1 [coordinator_phase phase]]"

definition coordinator_phase_count :: "OtelInstruments \<Rightarrow> CoordinatorPhase \<Rightarrow> nat \<Rightarrow> 'f instrument_op list" where
  "coordinator_phase_count ot phase n = [GaugeRecord (ot_coordinator_jobs ot) n [coordinator_phase phase]]"

definition OtelTelemetry :: "'f Telemetry" where
  "OtelTelemetry =
     (let ot = OtelTelemetry_new
      in \<lparr> te_archive_started = archive_started ot, te_archive_completed = archive_completed ot,
           te_archive_failed = archive_failed ot, te_read_routed = read_routed ot,
           te_bucket_tier_counts = bucket_tier_counts ot,
           te_coordinator_cycle_started = coordinator_cycle_started ot,
           te_coordinator_cycle_completed = coordinator_cycle_completed ot,
           te_coordinator_cycle_failed = coordinator_cycle_failed ot,
           te_coordinator_phase_entered = coordinator_phase_entered ot,
           te_coordinator_phase_count = coordinator_phase_count ot \<rparr>)"

section \<open>Bounded cardinality\<close>

text \<open>A call of a hook, its dispatch, and the time series that an operation belongs to.\<close>

datatype 'f telemetry_call =
    ArchiveStarted BucketId
  | ArchiveCompleted BucketId nat 'f
  | ArchiveFailed BucketId ArchiveStage
  | ReadRouted BucketId ReadTier
  | BucketTierCounts nat nat nat
  | CycleStarted
  | CycleCompleted 'f
  | CycleFailed 'f
  | PhaseEntered CoordinatorPhase
  | PhaseCount CoordinatorPhase nat

fun emit :: "'f Telemetry \<Rightarrow> 'f telemetry_call \<Rightarrow> 'f instrument_op list" where
  "emit te (ArchiveStarted b) = te_archive_started te b"
| "emit te (ArchiveCompleted b n s) = te_archive_completed te b n s"
| "emit te (ArchiveFailed b stage) = te_archive_failed te b stage"
| "emit te (ReadRouted b tier) = te_read_routed te b tier"
| "emit te (BucketTierCounts h i a) = te_bucket_tier_counts te h i a"
| "emit te CycleStarted = te_coordinator_cycle_started te"
| "emit te (CycleCompleted s) = te_coordinator_cycle_completed te s"
| "emit te (CycleFailed s) = te_coordinator_cycle_failed te s"
| "emit te (PhaseEntered phase) = te_coordinator_phase_entered te phase"
| "emit te (PhaseCount phase n) = te_coordinator_phase_count te phase n"

fun series :: "'f instrument_op \<Rightarrow> string \<times> KeyValue list" where
  "series (CounterAdd name _ attrs) = (name, attrs)"
| "series (GaugeRecord name _ attrs) = (name, attrs)"
| "series (HistogramRecord name _ attrs) = (name, attrs)"

definition all_series :: "'f Telemetry \<Rightarrow> (string \<times> KeyValue list) set" where
  "all_series te = (\<Union>call. set (map series (emit te call)))"

text \<open>Every call emits into the same series as one of these, whatever its bucket and its numbers are.\<close>

definition sample_bucket :: "BucketStrategy \<Rightarrow> BucketId" where
  "sample_bucket s = \<lparr> bid_table_id = TableId [], bid_partition_key = PartitionKey [], bid_strategy = s,
     bid_key = BucketKey [], bid_start = 0, bid_end = 0 \<rparr>"

definition sample_calls :: "unit telemetry_call list" where
  "sample_calls =
     (let strategies = [CalendarYearUtc, CalendarMonthUtc, CalendarDayUtc];
          phases = [Queued, Claimed, Uploading, UploadedVerified, PublishedCleanupPending, Completed, RetryScheduled,
                    FailedNeedsAttention]
      in concat (map (\<lambda>s. let b = sample_bucket s
           in [ArchiveStarted b, ArchiveCompleted b 0 (), ArchiveFailed b SnapshotStage, ArchiveFailed b UploadStage,
               ArchiveFailed b DeleteHotStage, ReadRouted b HotTier, ReadRouted b ArchiveTier]) strategies)
         @ [BucketTierCounts 0 0 0, CycleStarted, CycleCompleted (), CycleFailed ()]
         @ concat (map (\<lambda>p. [PhaseEntered p, PhaseCount p 0]) phases))"

definition sample_series :: "(string \<times> KeyValue list) list" where
  "sample_series = concat (map (\<lambda>call. map series (emit OtelTelemetry call)) sample_calls)"

lemmas hook_defs = OtelTelemetry_def archive_started_def archive_completed_def archive_failed_def read_routed_def
  bucket_tier_counts_def coordinator_cycle_started_def coordinator_cycle_completed_def coordinator_cycle_failed_def
  coordinator_phase_entered_def coordinator_phase_count_def Let_def

fun sample_of :: "'f telemetry_call \<Rightarrow> unit telemetry_call" where
  "sample_of (ArchiveStarted b) = ArchiveStarted (sample_bucket (bid_strategy b))"
| "sample_of (ArchiveCompleted b _ _) = ArchiveCompleted (sample_bucket (bid_strategy b)) 0 ()"
| "sample_of (ArchiveFailed b stage) = ArchiveFailed (sample_bucket (bid_strategy b)) stage"
| "sample_of (ReadRouted b tier) = ReadRouted (sample_bucket (bid_strategy b)) tier"
| "sample_of (BucketTierCounts _ _ _) = BucketTierCounts 0 0 0"
| "sample_of CycleStarted = CycleStarted"
| "sample_of (CycleCompleted _) = CycleCompleted ()"
| "sample_of (CycleFailed _) = CycleFailed ()"
| "sample_of (PhaseEntered phase) = PhaseEntered phase"
| "sample_of (PhaseCount phase _) = PhaseCount phase 0"

lemma series_sample: "map series (emit OtelTelemetry (sample_of call)) = map series (emit OtelTelemetry call)"
  by (cases call) (simp_all add: hook_defs bucket_strategy_label_def sample_bucket_def)

lemma sample_listed: "sample_of call \<in> set sample_calls"
proof (cases call)
  case (ArchiveStarted b)
  then show ?thesis by (cases "bid_strategy b") (simp_all add: sample_calls_def Let_def)
next
  case (ArchiveCompleted b n s)
  then show ?thesis by (cases "bid_strategy b") (simp_all add: sample_calls_def Let_def)
next
  case (ArchiveFailed b stage)
  then show ?thesis by (cases "bid_strategy b"; cases stage) (simp_all add: sample_calls_def Let_def)
next
  case (ReadRouted b tier)
  then show ?thesis by (cases "bid_strategy b"; cases tier) (simp_all add: sample_calls_def Let_def)
next
  case (PhaseEntered phase)
  then show ?thesis by (cases phase) (simp_all add: sample_calls_def Let_def)
next
  case (PhaseCount phase n)
  then show ?thesis by (cases phase) (simp_all add: sample_calls_def Let_def)
qed (simp_all add: sample_calls_def Let_def)

lemma all_series_sample: "all_series (OtelTelemetry :: 'f Telemetry) = set sample_series"
proof
  show "all_series (OtelTelemetry :: 'f Telemetry) \<subseteq> set sample_series"
  proof
    fix x assume "x \<in> all_series (OtelTelemetry :: 'f Telemetry)"
    then obtain call :: "'f telemetry_call" where "x \<in> set (map series (emit OtelTelemetry call))"
      by (auto simp: all_series_def)
    then have "x \<in> set (map series (emit OtelTelemetry (sample_of call)))" by (simp only: series_sample)
    with sample_listed [of call] show "x \<in> set sample_series" unfolding sample_series_def by auto
  qed
  show "set sample_series \<subseteq> all_series (OtelTelemetry :: 'f Telemetry)"
  proof
    fix x assume "x \<in> set sample_series"
    then obtain c where c: "x \<in> set (map series (emit OtelTelemetry c))" "c \<in> set sample_calls"
      unfolding sample_series_def by auto
    define lifted where "lifted = map_telemetry_call (\<lambda>_. undefined :: 'f) c"
    have "sample_of lifted = sample_of c" unfolding lifted_def by (cases c) simp_all
    then have "map series (emit OtelTelemetry lifted) = map series (emit OtelTelemetry c)"
      by (metis series_sample)
    with c(1) show "x \<in> all_series (OtelTelemetry :: 'f Telemetry)"
      unfolding all_series_def by (metis UNIV_I UN_I)
  qed
qed

lemma sample_series_length: "length (remdups sample_series) = 51"
  by code_simp

text \<open>C40. Metrics have bounded cardinality: whatever the tables, partitions, buckets, counts and durations that are
  reported, the OpenTelemetry implementation writes to exactly 51 time series, and no call emits an attribute that
  depends on more of a bucket than its strategy; the default implementation emits nothing.\<close>

theorem metrics_have_bounded_cardinality:
  "card (all_series (OtelTelemetry :: 'f Telemetry)) = 51
   \<and> map series (emit (OtelTelemetry :: 'f Telemetry) call) = map series (emit OtelTelemetry (sample_of call))
   \<and> emit NoopTelemetry call = []"
proof -
  have "card (all_series (OtelTelemetry :: 'f Telemetry)) = length (remdups sample_series)"
    unfolding all_series_sample by (simp add: List.card_set)
  moreover have "emit NoopTelemetry call = []" by (cases call) (simp_all add: NoopTelemetry_def)
  ultimately show ?thesis by (simp add: sample_series_length series_sample)
qed

end
