(* ===== verification/Spec2Isabelle.thy ===== *)
theory Spec2Isabelle
  imports Production Pool_Progress Sidecar Sidecar_System Sql_Scan Observability
begin

text \<open>
  Pulpitum keeps the recent records of a table in CockroachDB and moves older time buckets to an object store, while
  one table interface, and a SQL sidecar over it, read both tiers as one. This development models the program below
  \<open>src/src/\<close> and proves what it promises. The sections of this header follow the layers of the program.

  \<^bold>\<open>Conventions.\<close> A struct is a record, an enum a datatype, an error a value of \<open>('e, 'a) result\<close>, and a panic is
  \<open>None\<close>, or the node \<open>Panic\<close> of a program. Bytes are \<open>8 word\<close>; counters are naturals with saturation, checks and
  wrap-around written out; instants are integers of nanoseconds; strings are UTF-8 byte strings. Asynchronous code
  (theory \<open>Effects\<close>) is a tree of calls of the storage ports, one node for every \<open>await\<close>, so that tasks interleave where
  the code suspends, and a task may be cancelled at any node. What a call reads from outside (clock, tokens, answers
  of services, timeouts, failures) is an argument, so that the theorems hold for every such behaviour.

  \<^bold>\<open>Base.\<close> \<open>Prelude\<close> has the shared types, the string and integer operations of the standard library and the lemmas on
  results, lists and sorting. \<open>Calendar\<close> states as the locale \<open>utc_calendar\<close> what the code uses of \<open>chrono\<close>, and
  \<open>Gregorian\<close> interprets it.

  \<^bold>\<open>Domain and ports.\<close> \<open>Model\<close> (\<open>domain/model.rs\<close>) and \<open>Schema\<close> (\<open>domain/schema.rs\<close>) derive buckets from event times;
  the buckets of a partition divide time, the loop over the buckets of a range returns (it is a partial function
  that is shown to be defined) and returns the right buckets, and a bucket key identifies its bucket. \<open>Ports\<close>
  (\<open>ports/storage.rs\<close>) has the two traits as records of operations and their contracts as the locales
  \<open>bucket_store\<close> and \<open>archive_store\<close>: every operation performs one transition of the bucket it names, or none.

  \<^bold>\<open>Application.\<close> \<open>Durable_Archive\<close>, \<open>Archive_Recovery\<close> and \<open>Durable_Table\<close> (\<open>application/*.rs\<close>) are the coordinator, the
  recovery runner with its lease renewer, and the table router with its parallel reads and pagination.
  \<open>Archival_System\<close> lets any number of these tasks run interleaved on one pair of stores; its locale
  \<open>archival_system\<close> combines the contracts and proves, by induction over runs, that the records a bucket routes to
  contain every acknowledged record and nothing that was not appended. \<open>Table_Reads\<close> shows what a query returns.

  \<^bold>\<open>Stores.\<close> \<open>Memory_Store\<close> has the two in-memory stores of \<open>ports/storage.rs\<close>. \<open>Archive_Cache\<close>
  (\<open>adapters/immutable_archive_cache.rs\<close>) is a bounded cache that refines a map of last fills and evicts the least
  recently used. \<open>Opendal_Store\<close> and \<open>Opendal_Contract\<close> (\<open>adapters/opendal_store.rs\<close>) are the object-store archive:
  uploads never replace an object, reads are verified, both formats invert. \<open>Cockroach_Schema\<close>
  (\<open>adapters/cockroach_schema.rs\<close> and the lifecycle part of \<open>adapters/cockroach_durable.rs\<close>) has the migrations, which
  are atomic, and the validation of the schema. \<open>Cockroach_Store\<close>, \<open>Cockroach_Steps\<close> and \<open>Cockroach_Contract\<close>
  (\<open>adapters/cockroach_durable.rs\<close>) are the transaction bodies over two tables with constraints, the retry loop and
  the route cache, and the proof that a fleet of processes on one database keeps the contract even when the outcome
  of a commit is unknown. \<open>Archive_Fleet\<close> gives every process its own read cache. \<open>Cockroach_Pool\<close>, \<open>Pool_Safety\<close> and
  \<open>Pool_Progress\<close> (\<open>adapters/cockroach_pool.rs\<close>) are the connection pool as a transition system of its atomic
  operations: checkouts are exclusive and bounded, uncertain connections are evicted, acquisitions progress, and
  the counters settle, up to the races that are exhibited as runs.

  \<^bold>\<open>Whole systems.\<close> \<open>Memory_System\<close> interprets \<open>archival_system\<close> on the in-memory stores and \<open>Production\<close> instantiates it
  for processes that share a CockroachDB database and an object store: acknowledged records survive, a page is
  exact, a query answers when the services do.

  \<^bold>\<open>SQL.\<close> \<open>Datafusion\<close> and \<open>Sql_Scan\<close> (\<open>integrations/datafusion.rs\<close>) plan predicates, agree on pushdown and build typed
  batches; the theorem below composes them with \<open>Production\<close>. \<open>Sidecar_Security\<close>
  (\<open>bin/sql_sidecar_security.rs\<close>), \<open>Sql_Gateway\<close>, \<open>Sql_Server\<close>, \<open>Sql_Requests\<close> and \<open>Sidecar\<close> (\<open>bin/pulpitum-sql-sidecar.rs\<close>) are
  the sidecar: its login, the statements it accepts, parameters, results, both query protocols and its startup.
  \<open>Sidecar_System\<close> runs the requests as tasks on the stores of \<open>Production\<close>: every acknowledged \<open>INSERT\<close> survives.

  \<^bold>\<open>Processes.\<close> \<open>Connections\<close> (\<open>bin/cockroach_connection.rs\<close>, \<open>bin/archive_connection.rs\<close>, \<open>adapters/cockroach_tls.rs\<close>),
  \<open>Binaries\<close> (\<open>bin/pulpitum-migrate.rs\<close>, \<open>bin/pulpitum-archiver.rs\<close>, \<open>dev_support/load_profile.rs\<close>) and \<open>Observability\<close>
  (\<open>integrations/observability.rs\<close>) have the settings, the startup and the metrics: no silent downgrade of transport
  security, grants only after validation, bounded cardinality.

  \<^bold>\<open>Hypotheses.\<close> \<open>utc_calendar\<close> (\<open>chrono\<close>), \<open>codec_ok\<close> (codecs invert, digests have 32 bytes), \<open>operator_ok\<close> (a conditional
  write never replaces, a read returns what is stored, any call may fail), \<open>timestamptz_exact\<close> (the driver sends whole
  microseconds unchanged; finer event times are outside the theorems on CockroachDB), \<open>arrow_ok\<close> (well-typed
  columns form a batch, a projection selects columns) \<open>sasl_ok\<close> (only a startup message starts a login, and none is
  ready before) and \<open>serves\<close> (the engine reaches the stores only through scans of the registered table)
  state documented behaviour of libraries; each has an instance in the development, which the witnesses use.
  CockroachDB executes a committed transaction atomically in one state; a commit whose outcome is unknown may or
  may not have happened. No model runs on fuel: every loop recurs structurally, has a termination proof, or is a
  step relation; bounds that occur (four parallel reads, attempts, 1,024 rows, cache sizes) are those of the code.

  \<^bold>\<open>Not modelled.\<close> Spans, log records and the installation of telemetry exporters, which only call third-party
  libraries; the calls of the telemetry hooks in the application, which do not change its state; the SQL parser, the
  planner and executor of DataFusion, the PostgreSQL codec and the sockets, which are parameters; the planner and
  replication of CockroachDB; module declarations (\<open>lib.rs\<close>, \<open>mod.rs\<close>), the showcase and the tests.
\<close>

section \<open>SQL over production\<close>

definition scan_range :: "RoutedScanExec \<Rightarrow> TimeRange" where
  "scan_range exec = \<lparr> tr_start = the (rq_start (rs_query exec)), tr_end = the (rq_end (rs_query exec)) \<rparr>"

definition scan_key :: "RoutedScanExec \<Rightarrow> PartitionKey" where
  "scan_key exec = the (rq_partition_key (rs_query exec))"

lemma table_records_partition:
  assumes "production_reachable C D cd opr store sz mb me obj c" and "utc_calendar C" and "timestamptz_exact D"
    and "codec_ok cd" and "operator_ok opr objs" and "range_rep C td rng" and "buckets_for_range C td pk rng = Some bs"
    and "r \<in> set (table_records (archived_content cd objs) fleet_view c bs)"
  shows "rec_partition_key r = pk"
proof -
  from assms(8) obtain b where b: "b \<in> set bs"
    "r \<in> set (the (logical (archived_content cd objs) (cf_archive c) b (fleet_view (cf_store c) b)))"
    by (auto simp: table_records_def)
  have "c_rep C (tr_start rng)" using assms(6) by (simp add: range_rep_def)
  then have d: "derives C td pk b" by (rule buckets_for_range_derives [OF assms(2) _ assms(7) b(1)])
  then have "bid_partition_key b = pk" by (auto simp: derives_def dest: bucket_for_event_time_fields(3))
  moreover have "list_all (fits b) (the (logical (archived_content cd objs) (cf_archive c) b (fleet_view (cf_store c) b)))"
    using archival_system.sys_inv_routed(2) [OF production_system [OF assms(2-5)] production_inv [OF assms(1-5)]]
      derives_canonical [OF d] by blast
  ultimately show ?thesis using b(2) by (auto simp: list_all_iff fits_def)
qed

lemma scan_Ok:
  assumes "scan A td projection filters limit = Ok exec" and "arrow_ok A columns"
  shows "extract_query (td_partition_key td) filters = Ok (rs_query exec)" "rs_source_schema exec = provider_schema td"
    "rs_limit exec = limit" "list_all (\<lambda>i. i < 4) (rs_projection exec)"
proof -
  obtain rq out where rq: "extract_query (td_partition_key td) filters = Ok rq"
    "ar_schema_project A (rs_projection exec) (provider_schema td) = Some out"
    "rs_query exec = rq" "rs_source_schema exec = provider_schema td" "rs_limit exec = limit"
    using assms(1) by (auto simp: scan_def Let_def and_then_eq_Inr)
  have "length (provider_schema td) = 4" by (simp add: provider_schema_def)
  with rq(2) assms(2) have "list_all (\<lambda>i. i < 4) (rs_projection exec)" by (fastforce simp: arrow_ok_def)
  with rq show "extract_query (td_partition_key td) filters = Ok (rs_query exec)" "rs_source_schema exec = provider_schema td"
    "rs_limit exec = limit" "list_all (\<lambda>i. i < 4) (rs_projection exec)" by auto
qed


text \<open>The channel of the example, over two years.\<close>

definition example_sql :: "Expr list" where
  "example_sql =
     [BinaryExpr (Column ''channel_id'') Eq (Literal (Utf8 (Some [CHR 0x07]))),
      BinaryExpr (Column ''timestamp'') GtEq (Literal (TimestampNanosecond (Some (greg_start 2023 1 1)) None)),
      BinaryExpr (Column ''timestamp'') Lt (Literal (TimestampNanosecond (Some (greg_start 2025 1 1)) None))]"

definition example_exec :: RoutedScanExec where
  "example_exec = \<lparr> rs_source_schema = provider_schema chat_example,
     rs_output_schema = map ((!) (provider_schema chat_example)) [1, 3], rs_projection = [1, 3],
     rs_query = \<lparr> rq_partition_key = Some (PartitionKey [7]), rq_start = Some (greg_start 2023 1 1),
       rq_end = Some (greg_start 2025 1 1) \<rparr>, rs_limit = Some 10 \<rparr>"

lemma example_scan: "scan list_arrow chat_example (Some [1, 3]) example_sql (Some 10) = Ok example_exec"
proof -
  have "greg_start 2023 1 1 < greg_start 2025 1 1" by (simp add: greg_start_value del: One_nat_def)
  moreover have "str_bytes [CHR 0x07] = [7]" by (simp add: str_bytes_def)
  ultimately show ?thesis
    by (simp add: scan_def extract_query_def example_sql_def routed_default_def collect_partition_def string_literal_def
        collect_timestamp_bound_def timestamp_literal_def routed_finish_def chat_example_def list_arrow_def example_exec_def
        provider_schema_def not_le del: One_nat_def)
qed

lemma example_records_sql:
  assumes "cf_store c = example_fleet (example_db [5000, 9000])"
    and "r \<in> set (table_records (archived_content cd objs) fleet_view c bs)"
  shows "sql_record r"
proof -
  from assms obtain b where "r \<in> set (the (logical (archived_content cd objs) (cf_archive c) b (db_view (example_db [5000, 9000]) b)))"
    by (auto simp: table_records_def fleet_view_def)
  moreover have "row_state row_2024 = Hot" by (simp add: row_state_def row_2024_def metadata_state_def)
  moreover have "find_meta (example_db [5000, 9000]) (bucket_pk b) \<in> {None, Some row_2024}" by (auto simp: find_meta_def)
  ultimately have "r \<in> set (db_recs (example_db [5000, 9000]) b)"
    unfolding db_view_def row_view_def logical_def by (auto split: option.splits)
  then have "r \<in> record_of_row ` set (map message_row [5000, 9000])" by (auto simp: db_recs_def split: if_splits)
  then obtain k where k: "k \<in> {5000, 9000}" "r = record_of_row (message_row k)" by auto
  then show ?thesis
    by (auto simp: record_of_row_def message_row_def sql_record_def timestamp_nanos_opt_def greg_start_value I64_MIN_def I64_MAX_def)
qed


end
